(* ===== verification/Prelude.thy ===== *)
theory Prelude
  imports "HOL-Library.Word"
begin

text \<open>
  What every component of the development shares: the machine types of the Go code, the panics
  and error results of the Go runtime, the state-and-panic computations in which the stateful
  operations are written, slices, big-endian byte strings, and the collections of simplification
  rules the component theories extend.
\<close>

section \<open>Collections of hints\<close>

named_theorems go_simps "how computations, results and slices evaluate"
named_theorems arr_simps "lengths of fixed-size arrays"

section \<open>Machine types\<close>

text \<open>
  Go's \<^verbatim>\<open>uint64\<close> and \<^verbatim>\<open>int32\<close> are words, a \<^verbatim>\<open>byte\<close> is an 8-bit word, and a Go string is a
  sequence of bytes, which is what a HOL \<^typ>\<open>string\<close> is. \<^verbatim>\<open>int\<close>, \<^verbatim>\<open>int64\<close> and
  \<^verbatim>\<open>time.Duration\<close> are 64-bit two's complement: they are kept as \<^typ>\<open>int\<close> and every
  operation that can leave the range is wrapped by \<open>i64\<close>. A \<^verbatim>\<open>big.Int\<close> is an \<^typ>\<open>int\<close>.
\<close>

type_synonym u8 = "8 word"
type_synonym u32 = "32 word"
type_synonym u64 = "64 word"
type_synonym bytes = "u8 list"
type_synonym address = "u8 list"
type_synonym hash = "u8 list"

definition i64 :: "int \<Rightarrow> int" where
  "i64 x = signed_take_bit 63 x"

lemma i64_in_range [simp]: "- (2 ^ 63) \<le> x \<Longrightarrow> x < 2 ^ 63 \<Longrightarrow> i64 x = x"
  by (simp add: i64_def signed_take_bit_int_eq_self)

lemma i64_lower: "- (2 ^ 63) \<le> i64 x"
  unfolding i64_def by (rule signed_take_bit_int_greater_eq_minus_exp)

lemma i64_upper: "i64 x < 2 ^ 63"
  unfolding i64_def by (rule signed_take_bit_int_less_exp)

lemma i64_mod: "i64 x = (x + 2 ^ 63) mod 2 ^ 64 - 2 ^ 63"
  unfolding i64_def signed_take_bit_eq_take_bit_shift take_bit_eq_mod by simp

text \<open>The conversion \<^verbatim>\<open>int64(x)\<close> of an unsigned value reads the same 64 bits as signed.\<close>

definition i64_of_u64 :: "u64 \<Rightarrow> int" where
  "i64_of_u64 w = sint w"

lemma i64_of_u64_mod: "i64_of_u64 w = (int (unat w) + 2 ^ 63) mod 2 ^ 64 - 2 ^ 63"
proof -
  have "i64_of_u64 w = i64 (int (unat w))"
    by (simp add: i64_of_u64_def i64_def sint_uint)
  then show ?thesis by (simp only: i64_mod)
qed

lemma unat_u64_less [simp]: "unat (w :: u64) < 2 ^ 64"
  using unsigned_less [of w] by simp

lemma unat_u64_less_numeral [simp]: "unat (w :: u64) < 18446744073709551616"
  using unat_u64_less [of w] by simp

lemma i64_of_u64_small [simp]:
  assumes "unat w < 2 ^ 63"
  shows "i64_of_u64 w = int (unat w)"
proof -
  have "int (unat w) < 2 ^ 63"
    using assms by (simp only: of_nat_less_numeral_power_cancel_iff)
  then have "int (unat w) + 2 ^ 63 < 2 ^ 64" by simp
  then have "(int (unat w) + 2 ^ 63) mod 2 ^ 64 = int (unat w) + 2 ^ 63"
    by (intro mod_pos_pos_trivial) simp_all
  then show ?thesis by (simp only: i64_of_u64_mod)
qed

lemma i64_of_u64_big:
  assumes "2 ^ 63 \<le> unat w"
  shows "i64_of_u64 w = int (unat w) - 2 ^ 64"
proof -
  define x where "x = int (unat w)"
  have lo: "2 ^ 63 \<le> x"
    using assms unfolding x_def by (simp only: numeral_power_le_of_nat_cancel_iff)
  have hi: "x < 2 ^ 64"
    using unat_u64_less [of w] unfolding x_def
    by (simp only: of_nat_less_numeral_power_cancel_iff)
  have "(x + 2 ^ 63) mod 2 ^ 64 = ((x - 2 ^ 63) + 2 ^ 64) mod 2 ^ 64"
    by (rule arg_cong [where f = "\<lambda>z. z mod 2 ^ 64"]) simp
  also have "\<dots> = x - 2 ^ 63"
    using lo hi by (subst mod_add_self2, intro mod_pos_pos_trivial) simp_all
  finally show ?thesis by (simp only: i64_of_u64_mod flip: x_def) simp
qed

lemma i64_of_u64_neg_iff: "i64_of_u64 w < 0 \<longleftrightarrow> 2 ^ 63 \<le> unat w"
proof (cases "unat w < 2 ^ 63")
  case True
  then show ?thesis by (simp only: i64_of_u64_small) simp
next
  case False
  then have big: "2 ^ 63 \<le> unat w" by simp
  have "int (unat w) < 2 ^ 64"
    using unat_u64_less [of w] by (simp only: of_nat_less_numeral_power_cancel_iff)
  with big show ?thesis by (simp only: i64_of_u64_big) simp
qed

section \<open>Panics and errors\<close>

text \<open>
  A run-time panic ends the operation with one of the causes below. A Go \<^verbatim>\<open>error\<close> is an
  ordinary value, seen by the code only through its text: \<open>goerr\<close> is that text, and a pair
  \<^verbatim>\<open>(T, error)\<close> in which one side is meaningful is \<open>goerr + 'a\<close>.
\<close>

datatype go_panic = SliceOutOfRange | NilDereference | MakeSliceOutOfRange | FillBytesOverflow

type_synonym goerr = string
type_synonym 'a res = "go_panic + 'a"

definition rbind :: "'a res \<Rightarrow> ('a \<Rightarrow> 'b res) \<Rightarrow> 'b res" where
  "rbind m f = (case m of Inl p \<Rightarrow> Inl p | Inr x \<Rightarrow> f x)"

lemma rbind_simps [simp, go_simps]:
  "rbind (Inl p) f = Inl p" "rbind (Inr x) f = f x"
  by (simp_all add: rbind_def)

lemma rbind_Inr_iff: "rbind m f = Inr y \<longleftrightarrow> (\<exists>x. m = Inr x \<and> f x = Inr y)"
  by (cases m) simp_all

section \<open>Computations\<close>

text \<open>
  A stateful operation maps the state to a result and the state it leaves: a panic keeps every
  effect that came before it, as it does in Go.
\<close>

type_synonym ('s, 'a) go = "'s \<Rightarrow> 'a res \<times> 's"

definition gret :: "'a \<Rightarrow> ('s, 'a) go" where
  "gret x s = (Inr x, s)"

definition gpanic :: "go_panic \<Rightarrow> ('s, 'a) go" where
  "gpanic p s = (Inl p, s)"

definition gbind :: "('s, 'a) go \<Rightarrow> ('a \<Rightarrow> ('s, 'b) go) \<Rightarrow> ('s, 'b) go" where
  "gbind m f s = (case m s of (Inl p, s') \<Rightarrow> (Inl p, s') | (Inr x, s') \<Rightarrow> f x s')"

definition glift :: "'a res \<Rightarrow> ('s, 'a) go" where
  "glift r s = (r, s)"

lemma gret_apply [simp, go_simps]: "gret x s = (Inr x, s)"
  by (simp add: gret_def)

lemma gpanic_apply [simp, go_simps]: "gpanic p s = (Inl p, s)"
  by (simp add: gpanic_def)

lemma glift_apply [simp, go_simps]: "glift r s = (r, s)"
  by (simp add: glift_def)

lemma gbind_Inl [simp, go_simps]: "m s = (Inl p, s') \<Longrightarrow> gbind m f s = (Inl p, s')"
  by (simp add: gbind_def)

lemma gbind_Inr [simp, go_simps]: "m s = (Inr x, s') \<Longrightarrow> gbind m f s = f x s'"
  by (simp add: gbind_def)

lemma gbind_gret [simp, go_simps]: "gbind (gret x) f = f x"
  by (rule ext) (simp add: gbind_def)

lemma gbind_gpanic [simp, go_simps]: "gbind (gpanic p) f = gpanic p"
  by (rule ext) (simp add: gbind_def)

lemma gbind_assoc: "gbind (gbind m f) g = gbind m (\<lambda>x. gbind (f x) g)"
  by (rule ext) (auto simp: gbind_def split: sum.splits prod.splits)

text \<open>Running an operation on one component of a larger state.\<close>

definition gzoom :: "('s \<Rightarrow> 't) \<Rightarrow> ('t \<Rightarrow> 's \<Rightarrow> 's) \<Rightarrow> ('t, 'a) go \<Rightarrow> ('s, 'a) go" where
  "gzoom get put m s = (case m (get s) of (r, t) \<Rightarrow> (r, put t s))"

lemma gzoom_apply [go_simps]: "m (get s) = (r, t) \<Longrightarrow> gzoom get put m s = (r, put t s)"
  by (simp add: gzoom_def)

section \<open>Slices\<close>

text \<open>
  \<^verbatim>\<open>data[lo:hi]\<close>. The guards of the code compare with \<^verbatim>\<open>len\<close>, so the capacity a Go slice may
  have beyond its length never decides whether a slice expression of the code panics.
\<close>

definition slice :: "nat \<Rightarrow> nat \<Rightarrow> 'a list \<Rightarrow> 'a list res" where
  "slice lo hi xs =
     (if lo \<le> hi \<and> hi \<le> length xs then Inr (take (hi - lo) (drop lo xs)) else Inl SliceOutOfRange)"

definition slice_from :: "nat \<Rightarrow> 'a list \<Rightarrow> 'a list res" where
  "slice_from lo xs = (if lo \<le> length xs then Inr (drop lo xs) else Inl SliceOutOfRange)"

lemma slice_ok [simp]:
  "lo \<le> hi \<Longrightarrow> hi \<le> length xs \<Longrightarrow> slice lo hi xs = Inr (take (hi - lo) (drop lo xs))"
  by (simp add: slice_def)

lemma slice_from_ok [simp]: "lo \<le> length xs \<Longrightarrow> slice_from lo xs = Inr (drop lo xs)"
  by (simp add: slice_from_def)

lemma slice_reversed: "hi < lo \<Longrightarrow> slice lo hi xs = Inl SliceOutOfRange"
  by (simp add: slice_def)

lemma slice_beyond: "length xs < hi \<Longrightarrow> slice lo hi xs = Inl SliceOutOfRange"
  by (simp add: slice_def)

lemma take_drop_append_mid [simp]:
  "length xs = n \<Longrightarrow> length ys = k \<Longrightarrow> take k (drop n (xs @ ys @ zs)) = ys"
  by simp

section \<open>Big-endian byte strings\<close>

primrec be_bytes :: "nat \<Rightarrow> nat \<Rightarrow> bytes" where
  "be_bytes 0 x = []"
| "be_bytes (Suc n) x = be_bytes n (x div 256) @ [word_of_nat (x mod 256)]"

definition nat_of_be :: "bytes \<Rightarrow> nat" where
  "nat_of_be bs = foldl (\<lambda>a b. a * 256 + unat b) 0 bs"

lemma nat_of_be_Nil [simp]: "nat_of_be [] = 0"
  by (simp add: nat_of_be_def)

lemma nat_of_be_snoc [simp]: "nat_of_be (bs @ [b]) = nat_of_be bs * 256 + unat b"
  by (simp add: nat_of_be_def)

lemma unat_u8_less [simp]: "unat (b :: u8) < 256"
  using unsigned_less [of b] by simp

lemma length_be_bytes [simp, arr_simps]: "length (be_bytes n x) = n"
  by (induction n arbitrary: x) simp_all

lemma unat_byte_of_nat [simp]: "unat (word_of_nat x :: u8) = x mod 256"
  by (simp add: unat_of_nat)

lemma byte_of_nat_mod_256 [simp]: "(word_of_nat (x mod 256) :: u8) = word_of_nat x"
  by (rule word_unat_eq_iff [THEN iffD2]) simp

lemma nat_of_be_be_bytes [simp]: "nat_of_be (be_bytes n x) = x mod 256 ^ n"
proof (induction n arbitrary: x)
  case 0
  then show ?case by simp
next
  case (Suc n)
  have "nat_of_be (be_bytes (Suc n) x) = (x div 256) mod 256 ^ n * 256 + x mod 256"
    by (simp add: Suc)
  also have "\<dots> = x mod 256 ^ Suc n"
    by (simp add: mod_mult2_eq mult.commute)
  finally show ?case .
qed

lemma nat_of_be_less: "nat_of_be bs < 256 ^ length bs"
proof (induction bs rule: rev_induct)
  case Nil
  then show ?case by simp
next
  case (snoc b bs)
  have "nat_of_be bs * 256 + unat b < (nat_of_be bs + 1) * 256"
    by (simp add: distrib_right)
  also have "\<dots> \<le> 256 ^ length bs * 256"
    using snoc by (intro mult_right_mono) simp_all
  finally show ?case by (simp add: mult.commute)
qed

lemma be_bytes_nat_of_be [simp]: "be_bytes (length bs) (nat_of_be bs) = bs"
proof (induction bs rule: rev_induct)
  case Nil
  then show ?case by simp
next
  case (snoc b bs)
  have d: "(nat_of_be bs * 256 + unat b) div 256 = nat_of_be bs"
    by (simp add: div_add1_eq)
  have "unat (word_of_nat ((nat_of_be bs * 256 + unat b) mod 256) :: u8) = unat b"
    by (simp only: unat_byte_of_nat) (simp add: mod_add_eq)
  then have "(word_of_nat ((nat_of_be bs * 256 + unat b) mod 256) :: u8) = b"
    by (simp only: word_unat_eq_iff)
  with d snoc show ?case by (simp del: byte_of_nat_mod_256)
qed

lemma nat_of_be_replicate_zero [simp]: "nat_of_be (replicate n 0) = 0"
  by (induction n) (simp_all flip: replicate_append_same)

lemma nat_of_be_Cons: "nat_of_be (b # bs) = unat b * 256 ^ length bs + nat_of_be bs"
proof (induction bs rule: rev_induct)
  case Nil
  show ?case by (simp add: nat_of_be_def)
next
  case (snoc c bs)
  have "nat_of_be (b # bs @ [c]) = nat_of_be ((b # bs) @ [c])" by simp
  also have "\<dots> = nat_of_be (b # bs) * 256 + unat c" by (rule nat_of_be_snoc)
  finally show ?case using snoc by (simp add: algebra_simps)
qed

lemma nat_of_be_append: "nat_of_be (as @ bs) = nat_of_be as * 256 ^ length bs + nat_of_be bs"
  by (induction as) (simp_all add: nat_of_be_Cons power_add algebra_simps)

lemma be_bytes_mod [simp]: "be_bytes n (x mod 256 ^ n) = be_bytes n x"
proof -
  have "be_bytes (length (be_bytes n x)) (nat_of_be (be_bytes n x)) = be_bytes n x"
    by (rule be_bytes_nat_of_be)
  then show ?thesis by simp
qed

end
