(* ===== verification/Json.thy ===== *)
theory Json
  imports Go_Strings
begin

text \<open>
  What the code uses of \<^verbatim>\<open>encoding/json\<close>: documents as trees, the replacement of malformed UTF-8
  when a string is written, and the rules by which a document fills the fields of a struct. The
  textual form of a tree is not modelled; a number keeps its literal.
\<close>

section \<open>Documents\<close>

datatype json = JNull | JBool bool | JNum string | JStr string | JArr "json list"
  | JObj "(string \<times> json) list"

section \<open>Strings\<close>

text \<open>
  \<^verbatim>\<open>json.Marshal\<close> writes the replacement character, in UTF-8 the bytes EF BF BD, for every byte
  that does not begin a well-formed UTF-8 sequence. \<open>utf8_len\<close> is the length of the well-formed
  sequence at the front of a byte string, and 0 when there is none.
\<close>

definition cont :: "nat \<Rightarrow> bool" where
  "cont n \<longleftrightarrow> 128 \<le> n \<and> n \<le> 191"

definition utf8_len :: "nat list \<Rightarrow> nat" where
  "utf8_len ns =
     (case ns of
        [] \<Rightarrow> 0
      | a # as \<Rightarrow>
          if a < 128 then 1
          else if 194 \<le> a \<and> a \<le> 223 then
            (case as of b # _ \<Rightarrow> if cont b then 2 else 0 | _ \<Rightarrow> 0)
          else if 224 \<le> a \<and> a \<le> 239 then
            (case as of
               b # c # _ \<Rightarrow>
                 if (if a = 224 then 160 \<le> b \<and> b \<le> 191
                     else if a = 237 then 128 \<le> b \<and> b \<le> 159 else cont b) \<and> cont c
                 then 3 else 0
             | _ \<Rightarrow> 0)
          else if 240 \<le> a \<and> a \<le> 244 then
            (case as of
               b # c # d # _ \<Rightarrow>
                 if (if a = 240 then 144 \<le> b \<and> b \<le> 191
                     else if a = 244 then 128 \<le> b \<and> b \<le> 143 else cont b) \<and> cont c \<and> cont d
                 then 4 else 0
             | _ \<Rightarrow> 0)
          else 0)"

definition char_codes :: "string \<Rightarrow> nat list" where
  "char_codes s = map of_char s"

definition replacement :: string where
  "replacement = [CHR 0xEF, CHR 0xBF, CHR 0xBD]"

function utf8_fix :: "string \<Rightarrow> string" where
  "utf8_fix s =
     (case s of
        [] \<Rightarrow> []
      | c # cs \<Rightarrow>
          (let n = utf8_len (char_codes (take 4 s)) in
           if n = 0 then replacement @ utf8_fix cs else take n s @ utf8_fix (drop n s)))"
  by pat_completeness auto
termination
  by (relation "measure length") auto

declare utf8_fix.simps [simp del]

text \<open>A string that is already well-formed: it is a sequence of well-formed pieces.\<close>

function utf8_valid :: "string \<Rightarrow> bool" where
  "utf8_valid s =
     (case s of
        [] \<Rightarrow> True
      | c # cs \<Rightarrow>
          (let n = utf8_len (char_codes (take 4 s)) in
           if n = 0 then False else utf8_valid (drop n s)))"
  by pat_completeness auto
termination
  by (relation "measure length") auto

declare utf8_valid.simps [simp del]

lemma utf8_fix_Nil [simp]: "utf8_fix [] = []"
  by (simp add: utf8_fix.simps)

lemma utf8_valid_Nil [simp]: "utf8_valid []"
  by (simp add: utf8_valid.simps)

lemma utf8_fix_Cons:
  "utf8_fix (c # cs) =
     (let n = utf8_len (char_codes (take 4 (c # cs))) in
      if n = 0 then replacement @ utf8_fix cs else take n (c # cs) @ utf8_fix (drop n (c # cs)))"
  by (subst utf8_fix.simps) simp

lemma utf8_valid_Cons:
  "utf8_valid (c # cs) \<longleftrightarrow>
     (let n = utf8_len (char_codes (take 4 (c # cs))) in
      n \<noteq> 0 \<and> utf8_valid (drop n (c # cs)))"
  by (subst utf8_valid.simps) (simp add: Let_def)

lemma utf8_fix_valid: "utf8_valid s \<Longrightarrow> utf8_fix s = s"
proof (induction s rule: utf8_valid.induct)
  case (1 s)
  show ?case
  proof (cases s)
    case Nil
    then show ?thesis by simp
  next
    case (Cons c cs)
    let ?n = "utf8_len (char_codes (take 4 s))"
    from "1.prems" Cons have n: "?n \<noteq> 0" "utf8_valid (drop ?n s)"
      by (simp_all add: utf8_valid_Cons Let_def del: take_Suc_Cons drop_Suc_Cons)
    then have "utf8_fix (drop ?n s) = drop ?n s"
      using "1.IH" [OF Cons refl] by simp
    then show ?thesis
      using n Cons by (simp add: utf8_fix_Cons Let_def)
  qed
qed

lemma utf8_len_ascii: "(of_char c :: nat) < 128 \<Longrightarrow> utf8_len (char_codes (c # cs)) = 1"
  by (simp add: utf8_len_def char_codes_def)

lemma utf8_valid_ascii: "is_ascii s \<Longrightarrow> utf8_valid s"
proof (induction s)
  case Nil
  then show ?case by simp
next
  case (Cons c cs)
  then have "utf8_len (char_codes (take 4 (c # cs))) = 1" "utf8_valid cs"
    by (simp_all add: is_ascii_def utf8_len_ascii)
  then show ?case by (simp add: utf8_valid_Cons Let_def)
qed

text \<open>A well-formed piece does not depend on what follows it.\<close>

lemma utf8_len_le: "utf8_len ns \<le> length ns"
  by (auto simp: utf8_len_def split: list.splits)

lemma utf8_len_le4: "utf8_len ns \<le> 4"
  by (auto simp: utf8_len_def split: list.splits)

lemma utf8_len_stable:
  assumes "utf8_len ns \<noteq> 0"
  shows "utf8_len (take (utf8_len ns) ns @ ms) = utf8_len ns"
proof -
  obtain a as where ns: "ns = a # as" using assms by (cases ns) (simp_all add: utf8_len_def)
  consider "a < 128" | "194 \<le> a \<and> a \<le> 223" | "224 \<le> a \<and> a \<le> 239" | "240 \<le> a \<and> a \<le> 244"
    using assms unfolding ns utf8_len_def by (simp split: if_splits)
  then show ?thesis
  proof cases
    case 1
    then show ?thesis by (simp add: ns utf8_len_def)
  next
    case 2
    then obtain b bs where "as = b # bs" "cont b"
      using assms by (cases as) (simp_all add: ns utf8_len_def split: if_splits)
    with 2 show ?thesis by (simp add: ns utf8_len_def)
  next
    case 3
    then obtain b c bs where as: "as = b # c # bs"
      using assms by (cases as; cases "tl as") (simp_all add: ns utf8_len_def)
    with 3 assms have "utf8_len ns = 3" by (simp add: ns utf8_len_def split: if_splits)
    moreover from this have "utf8_len (a # b # c # ms) = 3"
      using 3 by (simp add: ns as utf8_len_def split: if_splits)
    ultimately show ?thesis by (simp add: ns as)
  next
    case 4
    then obtain b c d bs where as: "as = b # c # d # bs"
      using assms by (cases as; cases "tl as"; cases "tl (tl as)") (simp_all add: ns utf8_len_def)
    with 4 assms have "utf8_len ns = 4" by (simp add: ns utf8_len_def split: if_splits)
    moreover from this have "utf8_len (a # b # c # d # ms) = 4"
      using 4 by (simp add: ns as utf8_len_def split: if_splits)
    ultimately show ?thesis by (simp add: ns as)
  qed
qed

lemma replacement_len: "utf8_len (char_codes (take 4 (replacement @ s))) = 3"
  by (simp add: replacement_def char_codes_def utf8_len_def cont_def)

lemma utf8_valid_append_piece:
  assumes "utf8_len (char_codes (take 4 (p @ s))) = length p" "p \<noteq> []" "utf8_valid s"
  shows "utf8_valid (p @ s)"
proof (cases p)
  case Nil
  with assms(2) show ?thesis by simp
next
  case (Cons c cs)
  then show ?thesis
    using assms(1,3) utf8_valid_Cons [of c "cs @ s"] by (simp add: Let_def)
qed

lemma utf8_valid_fix: "utf8_valid (utf8_fix s)"
proof (induction s rule: utf8_fix.induct)
  case (1 s)
  show ?case
  proof (cases s)
    case Nil
    then show ?thesis by simp
  next
    case (Cons c cs)
    let ?n = "utf8_len (char_codes (take 4 s))"
    show ?thesis
    proof (cases "?n = 0")
      case True
      with Cons have "utf8_fix s = replacement @ utf8_fix cs"
        by (simp add: utf8_fix_Cons Let_def)
      moreover have "utf8_valid (replacement @ utf8_fix cs)"
      proof (rule utf8_valid_append_piece)
        show "utf8_len (char_codes (take 4 (replacement @ utf8_fix cs))) = length replacement"
          unfolding replacement_len by (simp add: replacement_def)
        show "replacement \<noteq> []" by (simp add: replacement_def)
        show "utf8_valid (utf8_fix cs)" using "1.IH"(1) [OF Cons refl True] .
      qed
      ultimately show ?thesis by simp
    next
      case False
      let ?p = "take ?n s"
      have le: "?n \<le> length (take 4 s)"
        using utf8_len_le [of "char_codes (take 4 s)"] by (simp add: char_codes_def)
      then have lp: "length ?p = ?n" by simp
      from False Cons have fx: "utf8_fix s = ?p @ utf8_fix (drop ?n s)"
        by (simp add: utf8_fix_Cons Let_def)
      have p4: "?p = take ?n (take 4 s)" using utf8_len_le4 [of "char_codes (take 4 s)"] by (simp add: min_def)
      have "utf8_len (char_codes (take 4 (?p @ t))) = ?n" for t
      proof -
        have "take 4 (?p @ t) = ?p @ take (4 - ?n) t"
          using lp utf8_len_le4 [of "char_codes (take 4 s)"] by simp
        then have "char_codes (take 4 (?p @ t)) = char_codes ?p @ char_codes (take (4 - ?n) t)"
          by (simp only: char_codes_def map_append)
        also have "char_codes ?p = take ?n (char_codes (take 4 s))"
          by (subst p4) (simp only: char_codes_def take_map)
        finally have "char_codes (take 4 (?p @ t)) =
            take ?n (char_codes (take 4 s)) @ char_codes (take (4 - ?n) t)" .
        then show ?thesis using utf8_len_stable [OF False] by simp
      qed
      moreover have "utf8_valid (utf8_fix (drop ?n s))"
        using "1.IH"(2) [OF Cons refl False] by simp
      moreover have "?p \<noteq> []" using False Cons by simp
      ultimately show ?thesis
        unfolding fx using lp by (intro utf8_valid_append_piece) simp_all
    qed
  qed
qed

lemma utf8_fix_idem [simp]: "utf8_fix (utf8_fix s) = utf8_fix s"
  by (rule utf8_fix_valid [OF utf8_valid_fix])

section \<open>Filling a struct\<close>

text \<open>
  A member of an object fills the field whose name it matches without regard to case; the two
  non-ASCII runes that fold to an ASCII letter are U+017F and U+212A.
\<close>

fun json_fold :: "string \<Rightarrow> string" where
  "json_fold [] = []"
| "json_fold (c # cs) =
     (case cs of
        d # ds \<Rightarrow>
          if c = CHR 0xC5 \<and> d = CHR 0xBF then CHR ''s'' # json_fold ds
          else (case ds of
                  e # es \<Rightarrow>
                    if c = CHR 0xE2 \<and> d = CHR 0x84 \<and> e = CHR 0xAA then CHR ''k'' # json_fold es
                    else ascii_lower c # json_fold cs
                | [] \<Rightarrow> ascii_lower c # json_fold cs)
      | [] \<Rightarrow> [ascii_lower c])"

definition names_field :: "string \<Rightarrow> string \<Rightarrow> bool" where
  "names_field name key \<longleftrightarrow> json_fold key = name"

text \<open>
  Setting a field of each type from a value. \<open>None\<close> is a type error, which makes the whole
  \<^verbatim>\<open>Unmarshal\<close> fail; a null leaves a scalar field as it is and empties a slice.
\<close>

fun set_string :: "json \<Rightarrow> string \<Rightarrow> string option" where
  "set_string (JStr s) old = Some s"
| "set_string JNull old = Some old"
| "set_string _ old = None"

fun set_bool :: "json \<Rightarrow> bool \<Rightarrow> bool option" where
  "set_bool (JBool b) old = Some b"
| "set_bool JNull old = Some old"
| "set_bool _ old = None"

fun set_u64 :: "json \<Rightarrow> u64 \<Rightarrow> u64 option" where
  "set_u64 (JNum lit) old = parse_u64 lit"
| "set_u64 JNull old = Some old"
| "set_u64 _ old = None"

text \<open>An element that is null keeps what the slice held at its position before.\<close>

fun set_strings_from :: "json list \<Rightarrow> string list \<Rightarrow> string list option" where
  "set_strings_from [] old = Some []"
| "set_strings_from (v # vs) old =
     (case (set_string v (case old of [] \<Rightarrow> '''' | x # _ \<Rightarrow> x), set_strings_from vs (tl old)) of
        (Some s, Some ss) \<Rightarrow> Some (s # ss)
      | _ \<Rightarrow> None)"

fun set_strings :: "json \<Rightarrow> string list \<Rightarrow> string list option" where
  "set_strings (JArr vs) old = set_strings_from vs old"
| "set_strings JNull old = Some []"
| "set_strings _ old = None"

text \<open>Reading an object member by member into a struct; other documents are type errors.\<close>

fun fill_members ::
  "(string \<Rightarrow> json \<Rightarrow> 'a \<Rightarrow> 'a option) \<Rightarrow> (string \<times> json) list \<Rightarrow> 'a \<Rightarrow> 'a option" where
  "fill_members put [] acc = Some acc"
| "fill_members put ((k, v) # ms) acc =
     (case put k v acc of None \<Rightarrow> None | Some acc' \<Rightarrow> fill_members put ms acc')"

fun json_Unmarshal :: "(string \<Rightarrow> json \<Rightarrow> 'a \<Rightarrow> 'a option) \<Rightarrow> 'a \<Rightarrow> json \<Rightarrow> 'a option" where
  "json_Unmarshal put zero (JObj ms) = fill_members put ms zero"
| "json_Unmarshal put zero JNull = Some zero"
| "json_Unmarshal put zero _ = None"

definition json_string :: "string \<Rightarrow> json" where
  "json_string s = JStr (utf8_fix s)"

definition json_u64 :: "u64 \<Rightarrow> json" where
  "json_u64 w = JNum (show_nat (unat w))"

definition json_strings :: "string list \<Rightarrow> json" where
  "json_strings ss = JArr (map json_string ss)"

lemma set_string_json [simp]: "set_string (json_string s) old = Some (utf8_fix s)"
  by (simp add: json_string_def)

lemma set_u64_json [simp]: "set_u64 (json_u64 w) old = Some w"
  by (simp add: json_u64_def)

lemma set_strings_from_json: "set_strings_from (map json_string ss) old = Some (map utf8_fix ss)"
  by (induction ss arbitrary: old) simp_all

lemma set_strings_json [simp]: "set_strings (json_strings ss) old = Some (map utf8_fix ss)"
  by (simp add: json_strings_def set_strings_from_json)

end
