(* ===== verification/Config.thy ===== *)
theory Config
  imports Go_Strings
begin

text \<open>
  The configuration of the two Go services: \<^verbatim>\<open>backend/go-api/internal/config/config.go\<close> and
  \<^verbatim>\<open>backend/event-indexer/internal/config/config.go\<close>. The process environment is the argument
  \<open>env\<close>: \<^verbatim>\<open>os.Getenv\<close> returns the empty string for a variable that is not set.
\<close>

section \<open>Reading the environment\<close>

type_synonym environ = "string \<Rightarrow> string"

definition getEnv :: "environ \<Rightarrow> string \<Rightarrow> string \<Rightarrow> string" where
  "getEnv env key defaultVal = (let v = env key in if v \<noteq> [] then v else defaultVal)"

definition getEnvInt :: "environ \<Rightarrow> string \<Rightarrow> int \<Rightarrow> int" where
  "getEnvInt env key defaultVal =
     (let v = env key in
      if v \<noteq> [] then (case strconv_Atoi v of Some i \<Rightarrow> i | None \<Rightarrow> defaultVal)
      else defaultVal)"

section \<open>The API service\<close>

record ChainConfig =
  SepoliaRPC :: string
  BSCTestnetRPC :: string
  AmoyRPC :: string
  PalmTestnetRPC :: string
  BaseSepoliaRPC :: string
  SepoliaRegistry :: string
  BSCTestnetRegistry :: string
  AmoyRegistry :: string
  PalmTestnetRegistry :: string
  BaseSepoliaRegistry :: string

record QdrantConfig =
  qc_URL :: string
  qc_APIKey :: string
  qc_CollectionName :: string
  qc_VectorSize :: int
  qc_ReplicationFactor :: int
  qc_CloudMode :: bool
  qc_ReadTimeout :: int
  qc_WriteTimeout :: int

record RedisConfig =
  rc_URL :: string
  rc_Password :: string
  rc_DB :: int

record WorkerConfig =
  wc_Count :: int
  wc_QueueSize :: int

record Config =
  ListenAddr :: string
  LogLevel :: string
  MCPPort :: string
  Chains :: ChainConfig
  Qdrant :: QdrantConfig
  Redis :: RedisConfig
  DatabaseURL :: string
  AllowOrigins :: "string list"
  Worker :: WorkerConfig
  JWTSecret :: string
  APIKey :: string
  SolanaRPC :: string
  RustZKURL :: string

text \<open>Durations are nanoseconds.\<close>

definition Second :: int where
  "Second = 1000000000"

definition load_chains :: "environ \<Rightarrow> ChainConfig" where
  "load_chains env =
     \<lparr> SepoliaRPC = getEnv env ''SEPOLIA_RPC_URL'' '''',
       BSCTestnetRPC = getEnv env ''BSC_TESTNET_RPC_URL'' '''',
       AmoyRPC = getEnv env ''AMOY_RPC_URL'' '''',
       PalmTestnetRPC = getEnv env ''PALM_TESTNET_RPC_URL'' '''',
       BaseSepoliaRPC = getEnv env ''BASE_SEPOLIA_RPC_URL'' '''',
       SepoliaRegistry = getEnv env ''SEPOLIA_REGISTRY'' '''',
       BSCTestnetRegistry = getEnv env ''BSC_TESTNET_REGISTRY'' '''',
       AmoyRegistry = getEnv env ''AMOY_REGISTRY'' '''',
       PalmTestnetRegistry = getEnv env ''PALM_TESTNET_REGISTRY'' '''',
       BaseSepoliaRegistry = getEnv env ''BASE_SEPOLIA_REGISTRY'' '''' \<rparr>"

definition Load :: "environ \<Rightarrow> Config" where
  "Load env =
     \<lparr> ListenAddr = getEnv env ''LISTEN_ADDR'' '':8080'',
       LogLevel = getEnv env ''LOG_LEVEL'' ''info'',
       MCPPort = getEnv env ''MCP_PORT'' ''8081'',
       Chains = load_chains env,
       Qdrant =
         \<lparr> qc_URL = getEnv env ''QDRANT_URL'' ''http://localhost:6333'',
           qc_APIKey = getEnv env ''QDRANT_API_KEY'' '''',
           qc_CollectionName = getEnv env ''QDRANT_COLLECTION'' ''consent_agreements'',
           qc_VectorSize = getEnvInt env ''QDRANT_VECTOR_SIZE'' 384,
           qc_ReplicationFactor = 0,
           qc_CloudMode = (getEnv env ''QDRANT_MODE'' ''self-hosted'' = ''cloud''),
           qc_ReadTimeout = 30 * Second,
           qc_WriteTimeout = 30 * Second \<rparr>,
       Redis =
         \<lparr> rc_URL = getEnv env ''REDIS_URL'' ''redis://localhost:6379'',
           rc_Password = getEnv env ''REDIS_PASSWORD'' '''',
           rc_DB = getEnvInt env ''REDIS_DB'' 0 \<rparr>,
       DatabaseURL = '''',
       AllowOrigins = [''*''],
       Worker =
         \<lparr> wc_Count = getEnvInt env ''WORKER_COUNT'' 4,
           wc_QueueSize = getEnvInt env ''WORKER_QUEUE_SIZE'' 100 \<rparr>,
       JWTSecret = getEnv env ''JWT_SECRET'' ''dev-secret-change-in-production'',
       APIKey = getEnv env ''API_KEY'' ''dev-key-change-in-production'',
       SolanaRPC = getEnv env ''SOLANA_RPC_URL'' '''',
       RustZKURL = getEnv env ''RUST_ZK_URL'' ''http://localhost:3000'' \<rparr>"

section \<open>The event indexer\<close>

text \<open>
  The indexer's package repeats \<^verbatim>\<open>ChainConfig\<close> and \<^verbatim>\<open>RedisConfig\<close> field for field; its
  \<^verbatim>\<open>QdrantConfig\<close> has no replication factor. \<^verbatim>\<open>uint64(getEnvInt(...))\<close> reads a negative number
  as its two's complement.
\<close>

record IxQdrantConfig =
  ixq_URL :: string
  ixq_APIKey :: string
  ixq_CollectionName :: string
  ixq_VectorSize :: int
  ixq_CloudMode :: bool
  ixq_ReadTimeout :: int
  ixq_WriteTimeout :: int

record IxConfig =
  ix_LogLevel :: string
  ix_PollIntervalSeconds :: int
  ix_BackfillFromBlock :: u64
  ix_Chains :: ChainConfig
  ix_Qdrant :: IxQdrantConfig
  ix_Redis :: RedisConfig

text \<open>The package has its own copies of the two readers.\<close>

definition ix_getEnv :: "environ \<Rightarrow> string \<Rightarrow> string \<Rightarrow> string" where
  "ix_getEnv env key defaultVal = (let v = env key in if v \<noteq> [] then v else defaultVal)"

definition ix_getEnvInt :: "environ \<Rightarrow> string \<Rightarrow> int \<Rightarrow> int" where
  "ix_getEnvInt env key defaultVal =
     (let v = env key in
      if v \<noteq> [] then (case strconv_Atoi v of Some i \<Rightarrow> i | None \<Rightarrow> defaultVal)
      else defaultVal)"

lemma ix_getEnv_same [simp]: "ix_getEnv = getEnv" "ix_getEnvInt = getEnvInt"
  by (intro ext, simp add: ix_getEnv_def getEnv_def ix_getEnvInt_def getEnvInt_def)+

definition ix_Load :: "environ \<Rightarrow> IxConfig" where
  "ix_Load env =
     \<lparr> ix_LogLevel = ix_getEnv env ''LOG_LEVEL'' ''info'',
       ix_PollIntervalSeconds = ix_getEnvInt env ''POLL_INTERVAL_SECONDS'' 12,
       ix_BackfillFromBlock = word_of_int (ix_getEnvInt env ''BACKFILL_FROM_BLOCK'' 0),
       ix_Chains = load_chains env,
       ix_Qdrant =
         \<lparr> ixq_URL = ix_getEnv env ''QDRANT_URL'' ''http://localhost:6333'',
           ixq_APIKey = ix_getEnv env ''QDRANT_API_KEY'' '''',
           ixq_CollectionName = ix_getEnv env ''QDRANT_COLLECTION'' ''consent_agreements'',
           ixq_VectorSize = ix_getEnvInt env ''QDRANT_VECTOR_SIZE'' 384,
           ixq_CloudMode = (ix_getEnv env ''QDRANT_MODE'' ''self-hosted'' = ''cloud''),
           ixq_ReadTimeout = 30 * Second,
           ixq_WriteTimeout = 30 * Second \<rparr>,
       ix_Redis =
         \<lparr> rc_URL = ix_getEnv env ''REDIS_URL'' ''redis://localhost:6379'',
           rc_Password = ix_getEnv env ''REDIS_PASSWORD'' '''',
           rc_DB = ix_getEnvInt env ''REDIS_DB'' 0 \<rparr> \<rparr>"

section \<open>What loading guarantees\<close>

lemma getEnv_set [simp]: "env key \<noteq> [] \<Longrightarrow> getEnv env key d = env key"
  by (simp add: getEnv_def)

lemma getEnv_unset [simp]: "env key = [] \<Longrightarrow> getEnv env key d = d"
  by (simp add: getEnv_def)

lemma getEnv_neq_Nil: "d \<noteq> [] \<Longrightarrow> getEnv env key d \<noteq> []"
  by (simp add: getEnv_def Let_def)

lemma getEnvInt_valid: "strconv_Atoi (env key) = Some i \<Longrightarrow> getEnvInt env key d = i"
  by (cases "env key = []") (simp_all add: getEnvInt_def)

lemma getEnvInt_invalid [simp]: "strconv_Atoi (env key) = None \<Longrightarrow> getEnvInt env key d = d"
  by (simp add: getEnvInt_def Let_def)

lemma getEnvInt_range:
  "- (2 ^ 63) \<le> d \<Longrightarrow> d < 2 ^ 63 \<Longrightarrow> - (2 ^ 63) \<le> getEnvInt env key d \<and> getEnvInt env key d < 2 ^ 63"
  by (cases "strconv_Atoi (env key)") (auto simp: getEnvInt_valid dest: Atoi_range)

lemma Load_credentials: "APIKey (Load env) \<noteq> []" "JWTSecret (Load env) \<noteq> []"
  by (simp_all add: Load_def getEnv_neq_Nil)

lemma load_same_chains: "ix_Chains (ix_Load env) = Chains (Load env)"
  by (simp add: Load_def ix_Load_def)

lemma load_same_redis: "ix_Redis (ix_Load env) = Redis (Load env)"
  by (simp add: Load_def ix_Load_def)

end
