(* ===== verification/Eth.thy ===== *)
theory Eth
  imports Go_Strings
begin

text \<open>
  The libraries the Go code calls that are not part of the repository, as parameters: the
  \<^verbatim>\<open>common\<close>, \<^verbatim>\<open>crypto\<close> and \<^verbatim>\<open>core/types\<close> packages of go-ethereum, and the node a dialled
  \<^verbatim>\<open>ethclient.Client\<close> talks to. A record holds one function per library call the code makes; what
  the code relies on of them is a named predicate, never a definition.
\<close>

section \<open>Values passed to and from the libraries\<close>

type_synonym conn = nat

record call_msg =
  cm_To :: address
  cm_Data :: bytes
  cm_Gas :: u64
  cm_GasPrice :: "int option"

text \<open>The zero values of the array types, \<^verbatim>\<open>common.Hash{}\<close> and \<^verbatim>\<open>common.Address{}\<close>.\<close>

definition zero_hash :: hash where
  "zero_hash = replicate 32 0"

definition zero_address :: address where
  "zero_address = replicate 20 0"

lemma length_zeros [simp, arr_simps]: "length zero_hash = 32" "length zero_address = 20"
  by (simp_all add: zero_hash_def zero_address_def)

record legacy_tx =
  tx_Nonce :: u64
  tx_To :: address
  tx_Value :: int
  tx_Gas :: u64
  tx_GasPrice :: int
  tx_Data :: bytes

record dynamic_tx =
  dtx_ChainID :: int
  dtx_Nonce :: u64
  dtx_GasFeeCap :: int
  dtx_GasTipCap :: int
  dtx_Gas :: u64
  dtx_To :: address
  dtx_Data :: bytes

section \<open>The library functions\<close>

record lib =
  unicode_lower :: "string \<Rightarrow> string"
  IsHexAddress :: "string \<Rightarrow> bool"
  HexToAddress :: "string \<Rightarrow> address"
  BytesToAddress :: "bytes \<Rightarrow> address"
  AddressHex :: "address \<Rightarrow> string"
  HexToHash :: "string \<Rightarrow> hash"
  BytesToHash :: "bytes \<Rightarrow> hash"
  HashHex :: "hash \<Rightarrow> string"
  Keccak256 :: "bytes \<Rightarrow> hash"
  SignerHash :: "int \<Rightarrow> legacy_tx \<Rightarrow> hash"
  DynamicTxHash :: "dynamic_tx \<Rightarrow> hash"

text \<open>
  \<^verbatim>\<open>common.Address\<close> is a \<^verbatim>\<open>[20]byte\<close> and \<^verbatim>\<open>common.Hash\<close> a \<^verbatim>\<open>[32]byte\<close>; a conversion from bytes of
  the array's own length copies them; the hexadecimal forms are ASCII text.
\<close>

definition lib_arrays :: "lib \<Rightarrow> bool" where
  "lib_arrays L \<longleftrightarrow>
     (\<forall>s. length (HexToAddress L s) = 20) \<and> (\<forall>b. length (BytesToAddress L b) = 20) \<and>
     (\<forall>s. length (HexToHash L s) = 32) \<and> (\<forall>b. length (BytesToHash L b) = 32) \<and>
     (\<forall>b. length (Keccak256 L b) = 32)"

definition lib_bytes :: "lib \<Rightarrow> bool" where
  "lib_bytes L \<longleftrightarrow>
     (\<forall>b. length b = 20 \<longrightarrow> BytesToAddress L b = b) \<and> (\<forall>b. length b = 32 \<longrightarrow> BytesToHash L b = b)"

definition lib_hex :: "lib \<Rightarrow> bool" where
  "lib_hex L \<longleftrightarrow>
     (\<forall>h. is_ascii (HashHex L h)) \<and> (\<forall>a. is_ascii (AddressHex L a)) \<and>
     (\<forall>h. length h = 32 \<longrightarrow> HexToHash L (HashHex L h) = h)"

lemma lib_arraysD [dest]:
  assumes "lib_arrays L"
  shows "length (HexToAddress L s) = 20" "length (BytesToAddress L b) = 20"
    "length (HexToHash L s) = 32" "length (BytesToHash L b) = 32" "length (Keccak256 L b) = 32"
  using assms by (simp_all add: lib_arrays_def)

lemma lib_bytesD:
  assumes "lib_bytes L"
  shows "length b = 20 \<Longrightarrow> BytesToAddress L b = b" "length b = 32 \<Longrightarrow> BytesToHash L b = b"
  using assms by (simp_all add: lib_bytes_def)

section \<open>The node behind a connection\<close>

text \<open>
  What one node answers while a request is served: the code makes each call at most once per
  request and connection, so the answers are functions of the call's arguments.
\<close>

record rpc =
  DialContext :: "string \<Rightarrow> goerr + conn"
  ChainID :: "conn \<Rightarrow> goerr + int"
  BlockNumber :: "conn \<Rightarrow> goerr + u64"
  SuggestGasPrice :: "conn \<Rightarrow> goerr + int"
  EstimateGas :: "conn \<Rightarrow> call_msg \<Rightarrow> goerr + u64"
  NonceAt :: "conn \<Rightarrow> address \<Rightarrow> goerr + u64"
  CallContract :: "conn \<Rightarrow> call_msg \<Rightarrow> goerr + bytes"

section \<open>Big integers\<close>

text \<open>
  The methods of \<^verbatim>\<open>math/big\<close> the code uses: \<^verbatim>\<open>SetBytes\<close> reads big-endian bytes, \<^verbatim>\<open>Uint64\<close> keeps
  the low 64 bits of the absolute value, \<^verbatim>\<open>Sign\<close> is positive for a positive number, and
  \<^verbatim>\<open>FillBytes\<close> writes the absolute value into a buffer or panics when it does not fit.
\<close>

definition big_SetBytes :: "bytes \<Rightarrow> int" where
  "big_SetBytes bs = int (nat_of_be bs)"

definition big_Uint64 :: "int \<Rightarrow> u64" where
  "big_Uint64 x = word_of_nat (nat \<bar>x\<bar>)"

definition big_FillBytes :: "nat \<Rightarrow> int \<Rightarrow> bytes res" where
  "big_FillBytes n x =
     (if nat \<bar>x\<bar> < 256 ^ n then Inr (be_bytes n (nat \<bar>x\<bar>)) else Inl FillBytesOverflow)"

lemma big_Uint64_of_unat [simp]: "big_Uint64 (int (unat (w :: u64))) = w"
  by (simp add: big_Uint64_def)

lemma unat_big_Uint64: "unat (big_Uint64 x) = nat \<bar>x\<bar> mod 2 ^ 64"
  unfolding big_Uint64_def unat_of_nat by simp

lemma big_SetBytes_nonneg [simp]: "0 \<le> big_SetBytes bs"
  by (simp add: big_SetBytes_def)

lemma big_SetBytes_be_bytes: "x < 256 ^ n \<Longrightarrow> big_SetBytes (be_bytes n x) = int x"
  by (simp add: big_SetBytes_def)

lemma big_FillBytes_nat [simp]: "x < 256 ^ n \<Longrightarrow> big_FillBytes n (int x) = Inr (be_bytes n x)"
  by (simp add: big_FillBytes_def)

text \<open>An unsigned 64-bit value always fits the 32-byte buffers of the code.\<close>

lemma u64_fits_32: "unat (w :: u64) < 256 ^ 32"
proof -
  have "(2 :: nat) ^ 64 \<le> 256 ^ 32" by simp
  with unat_u64_less [of w] show ?thesis by (rule order_less_le_trans)
qed

lemma big_Uint64_SetBytes: "big_Uint64 (big_SetBytes bs) = word_of_nat (nat_of_be bs)"
  by (simp add: big_Uint64_def big_SetBytes_def)

end
