(* ===== verification/Chains.thy ===== *)
theory Chains
  imports Config Eth
begin

text \<open>
  The chain manager, \<^verbatim>\<open>backend/go-api/internal/api/chain_client.go\<close>: the names a request may use
  for a chain, what each name is configured to, and the table of dialled clients, which
  \<^verbatim>\<open>GetClient\<close> fills under a read-write lock.
\<close>

section \<open>Chain names\<close>

definition ChainSepolia :: u64 where "ChainSepolia = 11155111"
definition ChainBSCTestnet :: u64 where "ChainBSCTestnet = 97"
definition ChainAmoy :: u64 where "ChainAmoy = 80002"
definition ChainPalmTestnet :: u64 where "ChainPalmTestnet = 11297108099"
definition ChainBaseSepolia :: u64 where "ChainBaseSepolia = 84532"

lemmas chain_id_defs = ChainSepolia_def ChainBSCTestnet_def ChainAmoy_def ChainPalmTestnet_def
  ChainBaseSepolia_def

definition chainNames :: "u64 \<rightharpoonup> string" where
  "chainNames =
     [ChainSepolia \<mapsto> ''sepolia'', ChainBSCTestnet \<mapsto> ''bsc-testnet'', ChainAmoy \<mapsto> ''amoy'',
      ChainPalmTestnet \<mapsto> ''palm-testnet'', ChainBaseSepolia \<mapsto> ''base-sepolia'']"

definition unsupported :: "string \<Rightarrow> goerr" where
  "unsupported chain = ''unsupported chain: '' @ chain"

definition getRPCURL :: "lib \<Rightarrow> ChainConfig \<Rightarrow> string \<Rightarrow> goerr + string" where
  "getRPCURL L cc chain =
     (let c = strings_ToLower (unicode_lower L) chain in
      if c = ''sepolia'' then Inr (SepoliaRPC cc)
      else if c = ''bsc-testnet'' \<or> c = ''bsc_testnet'' \<or> c = ''bsc'' then Inr (BSCTestnetRPC cc)
      else if c = ''amoy'' then Inr (AmoyRPC cc)
      else if c = ''palm-testnet'' \<or> c = ''palm_testnet'' \<or> c = ''palm'' then Inr (PalmTestnetRPC cc)
      else if c = ''base-sepolia'' \<or> c = ''base_sepolia'' \<or> c = ''base'' then Inr (BaseSepoliaRPC cc)
      else Inl (unsupported chain))"

definition GetRegistryAddress :: "lib \<Rightarrow> ChainConfig \<Rightarrow> string \<Rightarrow> goerr + address" where
  "GetRegistryAddress L cc chain =
     (let c = strings_ToLower (unicode_lower L) chain;
          addr = (if c = ''sepolia'' then Some (SepoliaRegistry cc)
                  else if c = ''bsc-testnet'' \<or> c = ''bsc_testnet'' \<or> c = ''bsc''
                  then Some (BSCTestnetRegistry cc)
                  else if c = ''amoy'' then Some (AmoyRegistry cc)
                  else if c = ''palm-testnet'' \<or> c = ''palm_testnet'' \<or> c = ''palm''
                  then Some (PalmTestnetRegistry cc)
                  else if c = ''base-sepolia'' \<or> c = ''base_sepolia'' \<or> c = ''base''
                  then Some (BaseSepoliaRegistry cc)
                  else None)
      in case addr of
           None \<Rightarrow> Inl (unsupported chain)
         | Some a \<Rightarrow>
             if a = '''' then Inl (''registry address not configured for chain: '' @ chain)
             else Inr (HexToAddress L a))"

definition GetChainID :: "lib \<Rightarrow> string \<Rightarrow> goerr + u64" where
  "GetChainID L chain =
     (let c = strings_ToLower (unicode_lower L) chain in
      if c = ''sepolia'' then Inr ChainSepolia
      else if c = ''bsc-testnet'' \<or> c = ''bsc_testnet'' \<or> c = ''bsc'' then Inr ChainBSCTestnet
      else if c = ''amoy'' then Inr ChainAmoy
      else if c = ''palm-testnet'' \<or> c = ''palm_testnet'' \<or> c = ''palm'' then Inr ChainPalmTestnet
      else if c = ''base-sepolia'' \<or> c = ''base_sepolia'' \<or> c = ''base'' then Inr ChainBaseSepolia
      else Inl (unsupported chain))"

text \<open>A Go map read of an absent key gives the zero value, the empty string.\<close>

definition GetChainName :: "u64 \<Rightarrow> string" where
  "GetChainName chainID = (case chainNames chainID of Some n \<Rightarrow> n | None \<Rightarrow> '''')"

definition IsChainSupported :: "lib \<Rightarrow> ChainConfig \<Rightarrow> string \<Rightarrow> bool" where
  "IsChainSupported L cc chain = (case getRPCURL L cc chain of Inl e \<Rightarrow> False | Inr u \<Rightarrow> True)"

section \<open>One switch, several tables\<close>

text \<open>
  The three lookups repeat one \<^verbatim>\<open>switch\<close>. Its specification is the canonical name of a chain: the
  five names the services use as keys, with the aliases that stand for them.
\<close>

definition canonical :: "string \<Rightarrow> string option" where
  "canonical c =
     (if c = ''sepolia'' then Some ''sepolia''
      else if c = ''bsc-testnet'' \<or> c = ''bsc_testnet'' \<or> c = ''bsc'' then Some ''bsc-testnet''
      else if c = ''amoy'' then Some ''amoy''
      else if c = ''palm-testnet'' \<or> c = ''palm_testnet'' \<or> c = ''palm'' then Some ''palm-testnet''
      else if c = ''base-sepolia'' \<or> c = ''base_sepolia'' \<or> c = ''base'' then Some ''base-sepolia''
      else None)"

definition canon_chain :: "lib \<Rightarrow> string \<Rightarrow> string option" where
  "canon_chain L chain = canonical (strings_ToLower (unicode_lower L) chain)"

definition canonical_names :: "string list" where
  "canonical_names = [''sepolia'', ''bsc-testnet'', ''amoy'', ''palm-testnet'', ''base-sepolia'']"

text \<open>
  A switch answers a name that has a canonical name from a table \<open>tab\<close> over the canonical names,
  and refuses every other name. \<open>tab\<close> itself may fail.
\<close>

locale chain_switch =
  fixes look :: "string \<Rightarrow> goerr + 'a"
    and canon :: "string \<Rightarrow> string option"
    and tab :: "string \<Rightarrow> string \<Rightarrow> goerr + 'a"
  assumes known: "canon chain = Some k \<Longrightarrow> look chain = tab chain k"
    and unknown: "canon chain = None \<Longrightarrow> look chain = Inl (unsupported chain)"
begin

lemma found_known: "look chain = Inr v \<Longrightarrow> \<exists>k. canon chain = Some k \<and> tab chain k = Inr v"
  by (cases "canon chain") (auto dest: unknown known)

lemma alias_same:
  assumes "canon a = canon b" "look a = Inr v" "\<And>k. tab a k = tab b k"
  shows "look b = Inr v"
proof -
  from assms(2) obtain k where k: "canon a = Some k" "tab a k = Inr v" by (blast dest: found_known)
  with assms(1) have "look b = tab b k" by (intro known) simp
  with assms(3) k(2) show ?thesis by simp
qed

end

fun rpc_table :: "ChainConfig \<Rightarrow> string \<Rightarrow> string" where
  "rpc_table cc k =
     (if k = ''sepolia'' then SepoliaRPC cc else if k = ''bsc-testnet'' then BSCTestnetRPC cc
      else if k = ''amoy'' then AmoyRPC cc else if k = ''palm-testnet'' then PalmTestnetRPC cc
      else BaseSepoliaRPC cc)"

fun registry_table :: "ChainConfig \<Rightarrow> string \<Rightarrow> string" where
  "registry_table cc k =
     (if k = ''sepolia'' then SepoliaRegistry cc else if k = ''bsc-testnet'' then BSCTestnetRegistry cc
      else if k = ''amoy'' then AmoyRegistry cc else if k = ''palm-testnet'' then PalmTestnetRegistry cc
      else BaseSepoliaRegistry cc)"

fun id_table :: "string \<Rightarrow> u64" where
  "id_table k =
     (if k = ''sepolia'' then ChainSepolia else if k = ''bsc-testnet'' then ChainBSCTestnet
      else if k = ''amoy'' then ChainAmoy else if k = ''palm-testnet'' then ChainPalmTestnet
      else ChainBaseSepolia)"

lemma canonical_name: "canonical c = Some k \<Longrightarrow> k \<in> set canonical_names"
  by (auto simp: canonical_def canonical_names_def split: if_splits)

lemma canonical_self: "k \<in> set canonical_names \<Longrightarrow> canonical k = Some k"
  by (auto simp: canonical_def canonical_names_def)

lemma getRPCURL_canon:
  "getRPCURL L cc chain =
     (case canon_chain L chain of None \<Rightarrow> Inl (unsupported chain) | Some k \<Rightarrow> Inr (rpc_table cc k))"
  by (simp add: getRPCURL_def canon_chain_def canonical_def Let_def if_distrib [of "case_option _ _"])

lemma GetChainID_canon:
  "GetChainID L chain =
     (case canon_chain L chain of None \<Rightarrow> Inl (unsupported chain) | Some k \<Rightarrow> Inr (id_table k))"
  by (simp add: GetChainID_def canon_chain_def canonical_def Let_def if_distrib [of "case_option _ _"])

lemma GetRegistryAddress_canon:
  "GetRegistryAddress L cc chain =
     (case canon_chain L chain of None \<Rightarrow> Inl (unsupported chain)
      | Some k \<Rightarrow>
          if registry_table cc k = '''' then Inl (''registry address not configured for chain: '' @ chain)
          else Inr (HexToAddress L (registry_table cc k)))"
  by (simp add: GetRegistryAddress_def canon_chain_def canonical_def Let_def
      if_distrib [of "case_option _ _"])

interpretation rpc_switch: chain_switch "getRPCURL L cc" "canon_chain L" "\<lambda>chain k. Inr (rpc_table cc k)"
  for L cc
  by unfold_locales (simp_all only: getRPCURL_canon option.case)

interpretation id_switch: chain_switch "GetChainID L" "canon_chain L" "\<lambda>chain k. Inr (id_table k)"
  for L
  by unfold_locales (simp_all only: GetChainID_canon option.case)

interpretation registry_switch: chain_switch "GetRegistryAddress L cc" "canon_chain L"
  "\<lambda>chain k. if registry_table cc k = ''''
             then Inl (''registry address not configured for chain: '' @ chain)
             else Inr (HexToAddress L (registry_table cc k))"
  for L cc
  by unfold_locales (simp_all only: GetRegistryAddress_canon option.case)

lemma supported_iff: "IsChainSupported L cc chain \<longleftrightarrow> canon_chain L chain \<noteq> None"
  by (cases "canon_chain L chain") (simp_all add: IsChainSupported_def getRPCURL_canon)

lemma canonical_ascii: "k \<in> set canonical_names \<Longrightarrow> strings_ToLower uni k = k"
  by (auto simp: canonical_names_def strings_ToLower_def is_ascii_def ascii_lower_def)

lemma canon_chain_self: "k \<in> set canonical_names \<Longrightarrow> canon_chain L k = Some k"
  by (simp add: canon_chain_def canonical_ascii canonical_self)

section \<open>The client table\<close>

text \<open>
  The state is \<^verbatim>\<open>ChainManager.clients\<close>. \<^verbatim>\<open>GetClient\<close> is two critical sections: a lookup under
  the read lock and, when that misses, \<open>GetClient_locked\<close> under the write lock, which looks
  again, dials and stores.
\<close>

type_synonym clients = "string \<rightharpoonup> conn"

definition GetClient_locked ::
  "lib \<Rightarrow> ChainConfig \<Rightarrow> rpc \<Rightarrow> string \<Rightarrow> (clients, goerr + conn) go" where
  "GetClient_locked L cc net chain cl =
     (case cl chain of
        Some c \<Rightarrow> (Inr (Inr c), cl)
      | None \<Rightarrow>
          (case getRPCURL L cc chain of
             Inl e \<Rightarrow> (Inr (Inl e), cl)
           | Inr rpcURL \<Rightarrow>
               (case DialContext net rpcURL of
                  Inl e \<Rightarrow> (Inr (Inl (''failed to connect to '' @ chain @ '' RPC: '' @ e)), cl)
                | Inr c \<Rightarrow> (Inr (Inr c), cl(chain \<mapsto> c)))))"

definition GetClient ::
  "lib \<Rightarrow> ChainConfig \<Rightarrow> rpc \<Rightarrow> string \<Rightarrow> (clients, goerr + conn) go" where
  "GetClient L cc net chain cl =
     (case cl chain of
        Some c \<Rightarrow> (Inr (Inr c), cl)
      | None \<Rightarrow> GetClient_locked L cc net chain cl)"

record ChainInfo =
  ci_Name :: string
  ci_ChainID :: u64
  ci_RPCReady :: bool
  ci_LatestBlock :: u64
  ci_GasPrice :: string

definition not_ready :: "string \<Rightarrow> ChainInfo" where
  "not_ready chain =
     \<lparr> ci_Name = chain, ci_ChainID = 0, ci_RPCReady = False, ci_LatestBlock = 0, ci_GasPrice = '''' \<rparr>"

definition GetChainStatus ::
  "lib \<Rightarrow> ChainConfig \<Rightarrow> rpc \<Rightarrow> string \<Rightarrow> (clients, goerr + ChainInfo) go" where
  "GetChainStatus L cc net chain =
     gbind (GetClient L cc net chain) (\<lambda>r. case r of
       Inl e \<Rightarrow> gret (Inr (not_ready chain))
     | Inr client \<Rightarrow>
         (case ChainID net client of
            Inl e \<Rightarrow> gret (Inr (not_ready chain))
          | Inr chainID \<Rightarrow>
              (case BlockNumber net client of
                 Inl e \<Rightarrow> gret (Inr (not_ready chain))
               | Inr block \<Rightarrow>
                   (let gasPrice = (case SuggestGasPrice net client of Inl e \<Rightarrow> 0 | Inr g \<Rightarrow> g) in
                    gret (Inr \<lparr> ci_Name = chain, ci_ChainID = big_Uint64 chainID, ci_RPCReady = True,
                                ci_LatestBlock = block, ci_GasPrice = show_int gasPrice \<rparr>)))))"

text \<open>
  \<^verbatim>\<open>SubmitTransaction\<close> estimates, builds an unsigned dynamic-fee transaction with nonce 0 and
  returns its hash together with an error: it never sends anything.
\<close>

definition SubmitTransaction ::
  "lib \<Rightarrow> ChainConfig \<Rightarrow> rpc \<Rightarrow> string \<Rightarrow> address \<Rightarrow> bytes \<Rightarrow> u64 \<Rightarrow> (clients, hash \<times> goerr) go"
where
  "SubmitTransaction L cc net chain to data gasLimit =
     gbind (GetClient L cc net chain) (\<lambda>r. case r of
       Inl e \<Rightarrow> gret (zero_hash, e)
     | Inr client \<Rightarrow>
         (case ChainID net client of
            Inl e \<Rightarrow> gret (zero_hash, ''failed to get chain ID: '' @ e)
          | Inr chainID \<Rightarrow>
              (case SuggestGasPrice net client of
                 Inl e \<Rightarrow> gret (zero_hash, ''failed to suggest gas price: '' @ e)
               | Inr gasPrice \<Rightarrow>
                   (case EstimateGas net client
                           \<lparr> cm_To = to, cm_Data = data, cm_Gas = gasLimit, cm_GasPrice = Some gasPrice \<rparr> of
                      Inl e \<Rightarrow> gret (zero_hash, ''failed to estimate gas: '' @ e)
                    | Inr gas \<Rightarrow>
                        (let h = DynamicTxHash L
                                   \<lparr> dtx_ChainID = chainID, dtx_Nonce = 0, dtx_GasFeeCap = gasPrice * 2,
                                     dtx_GasTipCap = gasPrice, dtx_Gas = gas, dtx_To = to, dtx_Data = data \<rparr>
                         in gret (h,
                              ''transaction requires external signing - tx hash: '' @ HashHex L h))))))"

text \<open>
  \<^verbatim>\<open>WaitForReceipt\<close> polls until a receipt, an error or the timeout. A poll is the node's answer
  and whether the deadline passed before the next half second: \<open>None\<close> says that the polls given
  end with the code still waiting.
\<close>

datatype 'r receipt_reply = ReceiptNotFound | ReceiptErr goerr | Receipt 'r

fun WaitForReceipt :: "lib \<Rightarrow> hash \<Rightarrow> ('r receipt_reply \<times> bool) list \<Rightarrow> (goerr + 'r) option" where
  "WaitForReceipt L txHash [] = None"
| "WaitForReceipt L txHash ((ReceiptNotFound, deadline) # polls) =
     (if deadline then Some (Inl (''timeout waiting for transaction receipt: '' @ HashHex L txHash))
      else WaitForReceipt L txHash polls)"
| "WaitForReceipt L txHash ((ReceiptErr e, deadline) # polls) =
     Some (Inl (''failed to get transaction receipt: '' @ e))"
| "WaitForReceipt L txHash ((Receipt r, deadline) # polls) = Some (Inr r)"

definition CloseAll :: "(clients, conn set) go" where
  "CloseAll cl = (Inr (ran cl), Map.empty)"

lemma GetClient_hit [simp, go_simps]:
  "cl chain = Some c \<Longrightarrow> GetClient L cc net chain cl = (Inr (Inr c), cl)"
  by (simp add: GetClient_def)

lemma GetClient_unsupported [go_simps]:
  "cl chain = None \<Longrightarrow> canon_chain L chain = None \<Longrightarrow>
   GetClient L cc net chain cl = (Inr (Inl (unsupported chain)), cl)"
  by (simp add: GetClient_def GetClient_locked_def rpc_switch.unknown)

lemma GetClient_dial [go_simps]:
  "cl chain = None \<Longrightarrow> canon_chain L chain = Some k \<Longrightarrow> DialContext net (rpc_table cc k) = Inr c \<Longrightarrow>
   GetClient L cc net chain cl = (Inr (Inr c), cl(chain \<mapsto> c))"
  by (simp only: GetClient_def GetClient_locked_def rpc_switch.known option.case sum.case)

lemma GetClient_cases:
  obtains e where "GetClient L cc net chain cl = (Inr (Inl e), cl)" "cl chain = None"
  | c where "GetClient L cc net chain cl = (Inr (Inr c), cl(chain \<mapsto> c))"
  by (cases "cl chain"; cases "getRPCURL L cc chain"; cases "DialContext net (projr (getRPCURL L cc chain))")
    (auto simp: GetClient_def GetClient_locked_def fun_upd_idem)

lemma GetClient_dom:
  "GetClient L cc net chain cl = (r, cl') \<Longrightarrow> dom cl' \<subseteq> insert chain (dom cl) \<and> cl \<subseteq>\<^sub>m cl'"
  by (auto simp: GetClient_def GetClient_locked_def map_le_def split: option.splits sum.splits)

end
