(* ===== verification/Api_Types.thy ===== *)
theory Api_Types
  imports Json Chains
begin

text \<open>
  The requests and responses of the API, \<^verbatim>\<open>backend/go-api/internal/api/types.go\<close>, and what
  \<^verbatim>\<open>ShouldBindJSON\<close> does with them: it fills the struct from the document and then checks the
  \<^verbatim>\<open>binding\<close> tags. A body that is not JSON is \<open>None\<close>.
\<close>

section \<open>Requests\<close>

record CreateConsentRequest =
  cr_Parties :: "string list"
  cr_Scopes :: "string list"
  cr_Duration :: u64
  cr_Chain :: string

record VerifyConsentRequest =
  vr_ConsentID :: string
  vr_Chain :: string
  vr_Proof :: string
  vr_ProofType :: string

record RevokeConsentRequest =
  rr_ConsentID :: string
  rr_Chain :: string

record GenerateProofRequest =
  gr_ConsentID :: string
  gr_ProofType :: string
  gr_Chain :: string

definition set_create :: "string \<Rightarrow> json \<Rightarrow> CreateConsentRequest \<Rightarrow> CreateConsentRequest option" where
  "set_create k v r =
     (if names_field ''parties'' k then map_option (\<lambda>x. r\<lparr>cr_Parties := x\<rparr>) (set_strings v (cr_Parties r))
      else if names_field ''scopes'' k then map_option (\<lambda>x. r\<lparr>cr_Scopes := x\<rparr>) (set_strings v (cr_Scopes r))
      else if names_field ''duration'' k then map_option (\<lambda>x. r\<lparr>cr_Duration := x\<rparr>) (set_u64 v (cr_Duration r))
      else if names_field ''chain'' k then map_option (\<lambda>x. r\<lparr>cr_Chain := x\<rparr>) (set_string v (cr_Chain r))
      else Some r)"

definition set_verify :: "string \<Rightarrow> json \<Rightarrow> VerifyConsentRequest \<Rightarrow> VerifyConsentRequest option" where
  "set_verify k v r =
     (if names_field ''consent_id'' k then map_option (\<lambda>x. r\<lparr>vr_ConsentID := x\<rparr>) (set_string v (vr_ConsentID r))
      else if names_field ''chain'' k then map_option (\<lambda>x. r\<lparr>vr_Chain := x\<rparr>) (set_string v (vr_Chain r))
      else if names_field ''proof'' k then map_option (\<lambda>x. r\<lparr>vr_Proof := x\<rparr>) (set_string v (vr_Proof r))
      else if names_field ''proof_type'' k then map_option (\<lambda>x. r\<lparr>vr_ProofType := x\<rparr>) (set_string v (vr_ProofType r))
      else Some r)"

definition set_revoke :: "string \<Rightarrow> json \<Rightarrow> RevokeConsentRequest \<Rightarrow> RevokeConsentRequest option" where
  "set_revoke k v r =
     (if names_field ''consent_id'' k then map_option (\<lambda>x. r\<lparr>rr_ConsentID := x\<rparr>) (set_string v (rr_ConsentID r))
      else if names_field ''chain'' k then map_option (\<lambda>x. r\<lparr>rr_Chain := x\<rparr>) (set_string v (rr_Chain r))
      else Some r)"

definition set_generate :: "string \<Rightarrow> json \<Rightarrow> GenerateProofRequest \<Rightarrow> GenerateProofRequest option" where
  "set_generate k v r =
     (if names_field ''consent_id'' k then map_option (\<lambda>x. r\<lparr>gr_ConsentID := x\<rparr>) (set_string v (gr_ConsentID r))
      else if names_field ''proof_type'' k then map_option (\<lambda>x. r\<lparr>gr_ProofType := x\<rparr>) (set_string v (gr_ProofType r))
      else if names_field ''chain'' k then map_option (\<lambda>x. r\<lparr>gr_Chain := x\<rparr>) (set_string v (gr_Chain r))
      else Some r)"

text \<open>The tags: \<^verbatim>\<open>required\<close> refuses a zero value, \<^verbatim>\<open>min\<close> a shorter slice.\<close>

definition valid_create :: "CreateConsentRequest \<Rightarrow> bool" where
  "valid_create r \<longleftrightarrow> 2 \<le> length (cr_Parties r) \<and> 1 \<le> length (cr_Scopes r) \<and>
     cr_Duration r \<noteq> 0 \<and> cr_Chain r \<noteq> ''''"

definition valid_verify :: "VerifyConsentRequest \<Rightarrow> bool" where
  "valid_verify r \<longleftrightarrow> vr_ConsentID r \<noteq> '''' \<and> vr_Chain r \<noteq> ''''"

definition valid_revoke :: "RevokeConsentRequest \<Rightarrow> bool" where
  "valid_revoke r \<longleftrightarrow> rr_ConsentID r \<noteq> '''' \<and> rr_Chain r \<noteq> ''''"

definition valid_generate :: "GenerateProofRequest \<Rightarrow> bool" where
  "valid_generate r \<longleftrightarrow> gr_ConsentID r \<noteq> '''' \<and> gr_ProofType r \<noteq> '''' \<and> gr_Chain r \<noteq> ''''"

definition ShouldBindJSON ::
  "(string \<Rightarrow> json \<Rightarrow> 'a \<Rightarrow> 'a option) \<Rightarrow> 'a \<Rightarrow> ('a \<Rightarrow> bool) \<Rightarrow> json option \<Rightarrow> 'a option" where
  "ShouldBindJSON put zero valid body =
     (case body of
        None \<Rightarrow> None
      | Some j \<Rightarrow>
          (case json_Unmarshal put zero j of
             None \<Rightarrow> None
           | Some r \<Rightarrow> if valid r then Some r else None))"

definition bind_create :: "json option \<Rightarrow> CreateConsentRequest option" where
  "bind_create = ShouldBindJSON set_create
     \<lparr> cr_Parties = [], cr_Scopes = [], cr_Duration = 0, cr_Chain = '''' \<rparr> valid_create"

definition bind_verify :: "json option \<Rightarrow> VerifyConsentRequest option" where
  "bind_verify = ShouldBindJSON set_verify
     \<lparr> vr_ConsentID = '''', vr_Chain = '''', vr_Proof = '''', vr_ProofType = '''' \<rparr> valid_verify"

definition bind_revoke :: "json option \<Rightarrow> RevokeConsentRequest option" where
  "bind_revoke = ShouldBindJSON set_revoke \<lparr> rr_ConsentID = '''', rr_Chain = '''' \<rparr> valid_revoke"

definition bind_generate :: "json option \<Rightarrow> GenerateProofRequest option" where
  "bind_generate = ShouldBindJSON set_generate
     \<lparr> gr_ConsentID = '''', gr_ProofType = '''', gr_Chain = '''' \<rparr> valid_generate"

lemma ShouldBindJSON_valid: "ShouldBindJSON put zero valid body = Some r \<Longrightarrow> valid r"
  by (auto simp: ShouldBindJSON_def split: option.splits if_splits)

lemma bind_createD: "bind_create b = Some r \<Longrightarrow> valid_create r"
  unfolding bind_create_def by (rule ShouldBindJSON_valid)

lemma bind_verifyD: "bind_verify b = Some r \<Longrightarrow> valid_verify r"
  unfolding bind_verify_def by (rule ShouldBindJSON_valid)

lemma bind_revokeD: "bind_revoke b = Some r \<Longrightarrow> valid_revoke r"
  unfolding bind_revoke_def by (rule ShouldBindJSON_valid)

lemma bind_generateD: "bind_generate b = Some r \<Longrightarrow> valid_generate r"
  unfolding bind_generate_def by (rule ShouldBindJSON_valid)

section \<open>Responses\<close>

record CreateConsentResponse =
  cp_ConsentID :: string
  cp_Chain :: string
  cp_TxHash :: string
  cp_Status :: string

record VerifyConsentResponse =
  vp_Valid :: bool
  vp_ExpiresAt :: u64
  vp_VerifiedBy :: string

record ConsentResponse =
  co_ConsentID :: string
  co_Parties :: "string list"
  co_Scopes :: "string list"
  co_ValidFrom :: u64
  co_ValidUntil :: u64
  co_Revoked :: bool
  co_Chain :: string
  co_TxHash :: string
  co_CreatedAt :: u64

record GenerateProofResponse =
  gp_Proof :: string
  gp_ProofType :: string
  gp_PublicInputs :: "string list"

record ErrorResponse =
  er_Error :: string
  er_Code :: int
  er_Details :: string

record SearchConsentsResponse =
  sr_Results :: "ConsentResponse list"
  sr_Total :: int
  sr_Page :: int
  sr_PageSize :: int

text \<open>\<open>RevokedBody\<close> is the \<^verbatim>\<open>gin.H\<close> of a revocation, \<open>ChainsBody\<close> the \<^verbatim>\<open>GetChainsResponse\<close>.\<close>

datatype body =
    NoBody
  | ErrorBody ErrorResponse
  | CreateBody CreateConsentResponse
  | ConsentBody ConsentResponse
  | VerifyBody VerifyConsentResponse
  | RevokedBody string bool
  | ProofBody GenerateProofResponse
  | SearchBody SearchConsentsResponse
  | ChainsBody "ChainInfo list"
  | ChainBody ChainInfo

type_synonym response = "int \<times> body"

definition error_body :: "int \<Rightarrow> string \<Rightarrow> string \<Rightarrow> response" where
  "error_body status msg details =
     (status, ErrorBody \<lparr> er_Error = msg, er_Code = status, er_Details = details \<rparr>)"

end
