(* ===== verification/Float64.thy ===== *)
theory Float64
  imports Complex_Main "HOL-Library.Log_Nat"
begin

text \<open>
  Go's \<^verbatim>\<open>float64\<close> as the rationals it represents: an operation is the exact one followed by \<open>fl64\<close>,
  rounding to 53 significant bits, ties to even. Subnormal numbers and overflow are left out: the
  values the program computes lie between 2^-60 and 2^60 in magnitude.
\<close>

text \<open>Rounding to an integer, ties to even.\<close>

definition rne :: "rat \<Rightarrow> int" where
  "rne y = (let f = \<lfloor>y\<rfloor>; r = y - of_int f in
     if r < 1 / 2 then f else if 1 / 2 < r then f + 1 else if even f then f else f + 1)"

lemma rne_bounds: "\<lfloor>y\<rfloor> \<le> rne y" "rne y \<le> \<lfloor>y\<rfloor> + 1"
  by (simp_all add: rne_def Let_def)

lemma rne_of_int [simp]: "rne (of_int n) = n"
  by (simp add: rne_def)

lemma rne_mono: "y \<le> z \<Longrightarrow> rne y \<le> rne z"
proof -
  assume le: "y \<le> z"
  show ?thesis
  proof (cases "\<lfloor>y\<rfloor> = \<lfloor>z\<rfloor>")
    case True
    with le show ?thesis by (auto simp: rne_def Let_def)
  next
    case False
    with le have "\<lfloor>y\<rfloor> + 1 \<le> \<lfloor>z\<rfloor>" by (metis floor_mono le_less zless_imp_add1_zle)
    with rne_bounds [of y] rne_bounds [of z] show ?thesis by simp
  qed
qed

text \<open>The exponent of the leading bit of a positive number.\<close>

definition expo :: "rat \<Rightarrow> int" where
  "expo x =
     (let (n, d) = quotient_of x; e = bitlen n - bitlen d in if 2 powi e \<le> x then e else e - 1)"

definition fl64 :: "rat \<Rightarrow> rat" where
  "fl64 x =
     (if x = 0 then 0
      else (let u = 2 powi (expo \<bar>x\<bar> - 52) in sgn x * (of_int (rne (\<bar>x\<bar> / u)) * u)))"

lemma powi_pos [simp]: "(0 :: rat) < 2 powi k"
  by (simp add: zero_less_power_int)

lemma powi_nat: "0 \<le> k \<Longrightarrow> (2 :: rat) powi k = of_int (2 ^ nat k)"
  by (simp add: power_int_def)

lemma bitlen_rat:
  assumes "0 < n"
  shows "(2 :: rat) powi (bitlen n - 1) \<le> of_int n" "of_int n < (2 :: rat) powi bitlen n"
proof -
  have p: "0 < bitlen n" using assms compute_bitlen [of n] bitlen_nonneg [of "n div 2"] by simp
  from bitlen_bounds [OF assms] have b: "2 ^ nat (bitlen n - 1) \<le> n" "n < 2 ^ nat (bitlen n)"
    by simp_all
  show "(2 :: rat) powi (bitlen n - 1) \<le> of_int n" "of_int n < (2 :: rat) powi bitlen n"
    using p b by (simp_all only: powi_nat of_int_le_iff of_int_less_iff)
qed

lemma expo_bounds:
  assumes "0 < x"
  shows "2 powi expo x \<le> x" "x < 2 powi (expo x + 1)"
proof -
  obtain n d where q: "quotient_of x = (n, d)" by force
  then have d: "0 < d" by (rule quotient_of_denom_pos)
  have x: "x = of_int n / of_int d" using q by (rule quotient_of_div)
  with assms d have n: "0 < n" by (simp add: zero_less_divide_iff)
  let ?e = "bitlen n - bitlen d"
  have dp: "(0 :: rat) < of_int d" using d by simp
  have "x < 2 powi bitlen n / of_int d"
    using bitlen_rat [OF n] dp unfolding x by (simp add: divide_strict_right_mono)
  also have "\<dots> \<le> 2 powi bitlen n / 2 powi (bitlen d - 1)"
    using bitlen_rat(1) [OF d] dp by (intro divide_left_mono mult_pos_pos) simp_all
  also have "\<dots> = 2 powi (?e + 1)" by (simp add: power_int_diff [symmetric] algebra_simps)
  finally have hi: "x < 2 powi (?e + 1)" .
  have "2 powi (?e - 1) = 2 powi (bitlen n - 1) / (2 :: rat) powi bitlen d"
    by (simp add: power_int_diff [symmetric] algebra_simps)
  also have "\<dots> \<le> of_int n / 2 powi bitlen d"
    using bitlen_rat [OF n] by (simp add: divide_right_mono)
  also have "\<dots> \<le> x"
    using bitlen_rat(2) [OF d] n dp unfolding x by (intro divide_left_mono mult_pos_pos) simp_all
  finally have lo: "2 powi (?e - 1) \<le> x" .
  from hi lo show "2 powi expo x \<le> x" "x < 2 powi (expo x + 1)"
    by (auto simp: expo_def q Let_def)
qed

lemma expo_mono: "0 < x \<Longrightarrow> x \<le> y \<Longrightarrow> expo x \<le> expo y"
proof (rule ccontr)
  assume a: "0 < x" "x \<le> y" "\<not> expo x \<le> expo y"
  have "y < 2 powi (expo y + 1)" using expo_bounds [of y] a by simp
  also have "\<dots> \<le> 2 powi expo x" using a(3) by (intro power_int_increasing) simp_all
  also have "\<dots> \<le> x" using expo_bounds [of x] a(1) by simp
  finally show False using a(2) by simp
qed

lemma fl64_pos: "0 < x \<Longrightarrow> fl64 x = of_int (rne (x / 2 powi (expo x - 52))) * 2 powi (expo x - 52)"
  by (simp add: fl64_def Let_def)

text \<open>A positive number is rounded to a multiple of its unit, between the two powers around it.\<close>

lemma fl64_between:
  assumes "0 < x"
  shows "2 powi expo x \<le> fl64 x" "fl64 x \<le> 2 powi (expo x + 1)"
proof -
  let ?u = "(2 :: rat) powi (expo x - 52)"
  have e: "(2 :: rat) powi expo x = of_int (2 ^ 52) * ?u" "(2 :: rat) powi (expo x + 1) = of_int (2 ^ 53) * ?u"
    by (simp_all add: power_int_diff power_int_add)
  have "of_int (2 ^ 52) \<le> x / ?u" "x / ?u \<le> of_int (2 ^ 53)"
    using expo_bounds [OF assms] unfolding e by (simp_all add: pos_le_divide_eq pos_divide_le_eq)
  then have "2 ^ 52 \<le> rne (x / ?u)" "rne (x / ?u) \<le> 2 ^ 53"
    by (metis rne_mono rne_of_int)+
  then have "(of_int (2 ^ 52) :: rat) \<le> of_int (rne (x / ?u))" "of_int (rne (x / ?u)) \<le> (of_int (2 ^ 53) :: rat)"
    by (simp_all only: of_int_le_iff)
  then show "2 powi expo x \<le> fl64 x" "fl64 x \<le> 2 powi (expo x + 1)"
    unfolding e fl64_pos [OF assms] by (simp_all only: mult_right_mono less_imp_le powi_pos)
qed

lemma fl64_0 [simp]: "fl64 0 = 0"
  by (simp add: fl64_def)

lemma fl64_nonneg: "0 \<le> x \<Longrightarrow> 0 \<le> fl64 x"
  using fl64_between(1) [of x] by (cases "x = 0") (auto intro: order_trans [rotated] less_imp_le)

lemma fl64_mono:
  assumes "0 \<le> x" "x \<le> y"
  shows "fl64 x \<le> fl64 y"
proof (cases "x = 0")
  case True
  then show ?thesis using assms fl64_nonneg by simp
next
  case False
  then have x: "0 < x" and y: "0 < y" using assms by simp_all
  show ?thesis
  proof (cases "expo x = expo y")
    case True
    have "x / 2 powi (expo y - 52) \<le> y / 2 powi (expo y - 52)"
      using assms(2) by (intro divide_right_mono) simp_all
    then have "rne (x / 2 powi (expo y - 52)) \<le> rne (y / 2 powi (expo y - 52))" by (rule rne_mono)
    then show ?thesis
      unfolding fl64_pos [OF x] fl64_pos [OF y] True by (intro mult_right_mono) simp_all
  next
    case False
    with expo_mono [OF x assms(2)] have "expo x + 1 \<le> expo y" by simp
    then have "(2 :: rat) powi (expo x + 1) \<le> 2 powi expo y" by (intro power_int_increasing) simp_all
    with fl64_between [OF x] fl64_between [OF y] show ?thesis by linarith
  qed
qed

text \<open>Integers of less than 2^53 are represented exactly.\<close>

lemma fl64_of_nat:
  assumes "n < 2 ^ 53"
  shows "fl64 (of_nat n) = of_nat n"
proof (cases "n = 0")
  case False
  let ?x = "of_nat n :: rat"
  have x: "0 < ?x" using False by simp
  show ?thesis
  proof (cases "expo ?x \<le> 52")
    case True
    define k where "k = nat (52 - expo ?x)"
    have u: "(2 :: rat) powi (expo ?x - 52) = 1 / 2 ^ k"
      using True by (simp add: k_def power_int_def inverse_eq_divide power_divide)
    have "?x / (1 / 2 ^ k) = of_int (int n * 2 ^ k)" by simp
    then have "rne (?x / (1 / 2 ^ k)) = int n * 2 ^ k" by (simp only: rne_of_int)
    then show ?thesis unfolding fl64_pos [OF x] u by simp
  next
    case False
    then have "(2 :: rat) powi 53 \<le> 2 powi expo ?x" by (intro power_int_increasing) simp_all
    also have "\<dots> \<le> ?x" using expo_bounds [OF x] by simp
    finally have "(2 :: rat) ^ 53 \<le> ?x" by simp
    moreover have "?x < of_nat (2 ^ 53)" using assms by (simp only: of_nat_less_iff)
    ultimately show ?thesis by simp
  qed
qed simp

lemma fl64_le_nat: "0 \<le> x \<Longrightarrow> x \<le> of_nat n \<Longrightarrow> n < 2 ^ 53 \<Longrightarrow> fl64 x \<le> of_nat n"
  using fl64_mono [of x "of_nat n"] by (simp add: fl64_of_nat)

lemma fl64_ge_nat: "of_nat n \<le> x \<Longrightarrow> n < 2 ^ 53 \<Longrightarrow> of_nat n \<le> fl64 x"
  using fl64_mono [of "of_nat n" x] by (simp add: fl64_of_nat)

end
