(* ===== verification/Codec.thy ===== *)
theory Codec
  imports Prelude
begin

text \<open>
  The interface of a pair of conversions: an encoder and a partial decoder that gives back every
  admissible value. The ABI words, the 32-byte scope names, the cached documents and the index
  payloads are instances.
\<close>

locale codec =
  fixes enc :: "'a \<Rightarrow> 'b"
    and dec :: "'b \<Rightarrow> 'a option"
    and ok :: "'a \<Rightarrow> bool"
  assumes dec_enc: "ok x \<Longrightarrow> dec (enc x) = Some x"
begin

lemma enc_inj: "ok x \<Longrightarrow> ok y \<Longrightarrow> enc x = enc y \<Longrightarrow> x = y"
  by (metis dec_enc option.inject)

lemma enc_inj_on: "inj_on enc {x. ok x}"
  by (rule inj_onI) (simp add: enc_inj)

lemma dec_enc_list: "list_all ok xs \<Longrightarrow> those (map dec (map enc xs)) = Some xs"
  by (induction xs) (simp_all add: dec_enc)

lemma enc_list_inj: "list_all ok xs \<Longrightarrow> list_all ok ys \<Longrightarrow> map enc xs = map enc ys \<Longrightarrow> xs = ys"
  by (metis dec_enc_list option.inject)

end

text \<open>
  A codec whose encoder is also a left inverse of the decoder on canonical encodings: the encoded
  form and the value carry the same information.
\<close>

locale canonical_codec = codec enc dec ok
  for enc :: "'a \<Rightarrow> 'b" and dec :: "'b \<Rightarrow> 'a option" and ok :: "'a \<Rightarrow> bool" +
  fixes canon :: "'b \<Rightarrow> bool"
  assumes enc_canon: "ok x \<Longrightarrow> canon (enc x)"
    and enc_dec: "canon y \<Longrightarrow> \<exists>x. ok x \<and> dec y = Some x \<and> enc x = y"
begin

lemma dec_inj: "canon y \<Longrightarrow> canon z \<Longrightarrow> dec y = dec z \<Longrightarrow> y = z"
  using enc_dec [of y] enc_dec [of z] by auto

lemma enc_bij: "bij_betw enc {x. ok x} {y. canon y}"
proof (rule bij_betw_imageI)
  show "inj_on enc {x. ok x}" by (rule enc_inj_on)
  show "enc ` {x. ok x} = {y. canon y}"
    using enc_canon enc_dec by blast
qed

end

text \<open>Running a fallible step over a list, left to right, until the first panic.\<close>

fun res_list :: "('a \<Rightarrow> 'b res) \<Rightarrow> 'a list \<Rightarrow> 'b list res" where
  "res_list f [] = Inr []"
| "res_list f (x # xs) = rbind (f x) (\<lambda>y. rbind (res_list f xs) (\<lambda>ys. Inr (y # ys)))"

lemma res_list_Inr: "(\<And>x. x \<in> set xs \<Longrightarrow> f x = Inr (g x)) \<Longrightarrow> res_list f xs = Inr (map g xs)"
  by (induction xs) simp_all

lemma res_list_no_panic: "(\<And>x. x \<in> set xs \<Longrightarrow> \<exists>y. f x = Inr y) \<Longrightarrow> \<exists>ys. res_list f xs = Inr ys"
proof (induction xs)
  case Nil
  then show ?case by simp
next
  case (Cons x xs)
  then obtain y ys where "f x = Inr y" "res_list f xs = Inr ys" by (metis list.set_intros)
  then show ?case by simp
qed

lemma res_list_length: "res_list f xs = Inr ys \<Longrightarrow> length ys = length xs"
  by (induction xs arbitrary: ys) (auto simp: rbind_Inr_iff)

end
