(* ===== verification/Cache.thy ===== *)
theory Cache
  imports Json Config Codec
begin

text \<open>
  The Redis client of the API, \<^verbatim>\<open>backend/go-api/internal/redis/client.go\<close>: consent documents
  cached under \<^verbatim>\<open>consent:<chain>:<id>\<close>, and the counter of a rate limit. The Redis server is a
  parameter: its commands act on a state of any type, and \<open>redis_ok\<close> names what the code relies on.
\<close>

section \<open>Cached documents\<close>

record ConsentCache =
  cc_ConsentID :: string
  cc_Parties :: "string list"
  cc_Scopes :: "string list"
  cc_ValidFrom :: u64
  cc_ValidUntil :: u64
  cc_Revoked :: bool
  cc_Chain :: string
  cc_TxHash :: string
  cc_CreatedAt :: u64

definition zero_cache :: ConsentCache where
  "zero_cache =
     \<lparr> cc_ConsentID = '''', cc_Parties = [], cc_Scopes = [], cc_ValidFrom = 0, cc_ValidUntil = 0,
       cc_Revoked = False, cc_Chain = '''', cc_TxHash = '''', cc_CreatedAt = 0 \<rparr>"

definition marshal_cache :: "ConsentCache \<Rightarrow> json" where
  "marshal_cache c = JObj
     [(''consent_id'', json_string (cc_ConsentID c)),
      (''parties'', json_strings (cc_Parties c)),
      (''scopes'', json_strings (cc_Scopes c)),
      (''valid_from'', json_u64 (cc_ValidFrom c)),
      (''valid_until'', json_u64 (cc_ValidUntil c)),
      (''revoked'', JBool (cc_Revoked c)),
      (''chain'', json_string (cc_Chain c)),
      (''tx_hash'', json_string (cc_TxHash c)),
      (''created_at'', json_u64 (cc_CreatedAt c))]"

text \<open>What one member of a document does to the struct; an unknown member is ignored.\<close>

definition set_cache_field :: "string \<Rightarrow> json \<Rightarrow> ConsentCache \<Rightarrow> ConsentCache option" where
  "set_cache_field k v c =
     (if names_field ''consent_id'' k
      then map_option (\<lambda>x. c\<lparr>cc_ConsentID := x\<rparr>) (set_string v (cc_ConsentID c))
      else if names_field ''parties'' k
      then map_option (\<lambda>x. c\<lparr>cc_Parties := x\<rparr>) (set_strings v (cc_Parties c))
      else if names_field ''scopes'' k
      then map_option (\<lambda>x. c\<lparr>cc_Scopes := x\<rparr>) (set_strings v (cc_Scopes c))
      else if names_field ''valid_from'' k
      then map_option (\<lambda>x. c\<lparr>cc_ValidFrom := x\<rparr>) (set_u64 v (cc_ValidFrom c))
      else if names_field ''valid_until'' k
      then map_option (\<lambda>x. c\<lparr>cc_ValidUntil := x\<rparr>) (set_u64 v (cc_ValidUntil c))
      else if names_field ''revoked'' k
      then map_option (\<lambda>x. c\<lparr>cc_Revoked := x\<rparr>) (set_bool v (cc_Revoked c))
      else if names_field ''chain'' k
      then map_option (\<lambda>x. c\<lparr>cc_Chain := x\<rparr>) (set_string v (cc_Chain c))
      else if names_field ''tx_hash'' k
      then map_option (\<lambda>x. c\<lparr>cc_TxHash := x\<rparr>) (set_string v (cc_TxHash c))
      else if names_field ''created_at'' k
      then map_option (\<lambda>x. c\<lparr>cc_CreatedAt := x\<rparr>) (set_u64 v (cc_CreatedAt c))
      else Some c)"

definition unmarshal_cache :: "json \<Rightarrow> ConsentCache option" where
  "unmarshal_cache = json_Unmarshal set_cache_field zero_cache"

text \<open>What a document keeps of a struct: every string with its malformed bytes replaced.\<close>

definition clean_cache :: "ConsentCache \<Rightarrow> ConsentCache" where
  "clean_cache c =
     c\<lparr> cc_ConsentID := utf8_fix (cc_ConsentID c), cc_Parties := map utf8_fix (cc_Parties c),
       cc_Scopes := map utf8_fix (cc_Scopes c), cc_Chain := utf8_fix (cc_Chain c),
       cc_TxHash := utf8_fix (cc_TxHash c) \<rparr>"

definition cache_text_ok :: "ConsentCache \<Rightarrow> bool" where
  "cache_text_ok c \<longleftrightarrow>
     utf8_valid (cc_ConsentID c) \<and> list_all utf8_valid (cc_Parties c) \<and>
     list_all utf8_valid (cc_Scopes c) \<and> utf8_valid (cc_Chain c) \<and> utf8_valid (cc_TxHash c)"

lemma unmarshal_marshal: "unmarshal_cache (marshal_cache c) = Some (clean_cache c)"
  by (simp add: unmarshal_cache_def marshal_cache_def set_cache_field_def names_field_def
      ascii_lower_def zero_cache_def clean_cache_def)

lemma clean_cache_id: "cache_text_ok c \<Longrightarrow> clean_cache c = c"
  by (simp add: cache_text_ok_def clean_cache_def utf8_fix_valid list_all_iff map_idI)

lemma clean_cache_idem [simp]: "clean_cache (clean_cache c) = clean_cache c"
  by (simp add: clean_cache_def)

lemma clean_cache_fields [simp]:
  "cc_Revoked (clean_cache c) = cc_Revoked c" "cc_ValidFrom (clean_cache c) = cc_ValidFrom c"
  "cc_ValidUntil (clean_cache c) = cc_ValidUntil c" "cc_CreatedAt (clean_cache c) = cc_CreatedAt c"
  by (simp_all add: clean_cache_def)

interpretation cache_codec: codec marshal_cache unmarshal_cache cache_text_ok
  by unfold_locales (simp add: unmarshal_marshal clean_cache_id)

section \<open>The server\<close>

text \<open>A stored value is the text of a document or some other text.\<close>

datatype rval = RDoc json | RText string

record 'r redis_srv =
  rd_Set :: "string \<Rightarrow> rval \<Rightarrow> int \<Rightarrow> 'r \<Rightarrow> goerr option \<times> 'r"
  rd_Get :: "string \<Rightarrow> 'r \<Rightarrow> (goerr + rval option) \<times> 'r"
  rd_Del :: "string \<Rightarrow> 'r \<Rightarrow> goerr option \<times> 'r"
  rd_Incr :: "string \<Rightarrow> 'r \<Rightarrow> (goerr + int) \<times> 'r"
  rd_Expire :: "string \<Rightarrow> int \<Rightarrow> 'r \<Rightarrow> 'r"
  rd_TTL :: "string \<Rightarrow> 'r \<Rightarrow> (goerr + int) \<times> 'r"

text \<open>
  A command that reports no error did what it says; one that fails touched no other key. \<open>view\<close>
  reads off the keys the server holds at the moment.
\<close>

definition redis_ok :: "'r redis_srv \<Rightarrow> ('r \<Rightarrow> string \<rightharpoonup> rval) \<Rightarrow> bool" where
  "redis_ok srv view \<longleftrightarrow>
     (\<forall>k v t r r'. rd_Set srv k v t r = (None, r') \<longrightarrow> view r' = (view r)(k \<mapsto> v)) \<and>
     (\<forall>k v t r e r' k'. rd_Set srv k v t r = (Some e, r') \<longrightarrow> k' \<noteq> k \<longrightarrow> view r' k' = view r k') \<and>
     (\<forall>k r x r'. rd_Get srv k r = (x, r') \<longrightarrow> view r' = view r \<and> (\<forall>v. x = Inr v \<longrightarrow> v = view r k)) \<and>
     (\<forall>k r r'. rd_Del srv k r = (None, r') \<longrightarrow> view r' = (view r)(k := None)) \<and>
     (\<forall>k r e r' k'. rd_Del srv k r = (Some e, r') \<longrightarrow> k' \<noteq> k \<longrightarrow> view r' k' = view r k')"

lemma redis_okD:
  assumes "redis_ok srv view"
  shows "rd_Set srv k v t r = (None, r') \<Longrightarrow> view r' = (view r)(k \<mapsto> v)"
    and "rd_Set srv k v t r = (Some e, r') \<Longrightarrow> k' \<noteq> k \<Longrightarrow> view r' k' = view r k'"
    and "rd_Get srv k r = (x, r') \<Longrightarrow> view r' = view r"
    and "rd_Get srv k r = (Inr w, r') \<Longrightarrow> w = view r k"
    and "rd_Del srv k r = (None, r') \<Longrightarrow> view r' = (view r)(k := None)"
    and "rd_Del srv k r = (Some e, r') \<Longrightarrow> k' \<noteq> k \<Longrightarrow> view r' k' = view r k'"
  using assms by (simp_all only: redis_ok_def) blast+

text \<open>Connecting: \<^verbatim>\<open>redis.ParseURL\<close> and the ping are the library's and the server's.\<close>

record redis_opts =
  ro_Addr :: string
  ro_Password :: string
  ro_DB :: int

definition redis_NewClient ::
  "(string \<Rightarrow> goerr + redis_opts) \<Rightarrow> (redis_opts \<Rightarrow> goerr option) \<Rightarrow> RedisConfig \<Rightarrow> goerr + redis_opts"
where
  "redis_NewClient parseURL ping cfg =
     (case parseURL (rc_URL cfg) of
        Inl e \<Rightarrow> Inl (''failed to parse Redis URL: '' @ e)
      | Inr opts0 \<Rightarrow>
          (let opts1 = (if rc_Password cfg \<noteq> '''' then opts0\<lparr>ro_Password := rc_Password cfg\<rparr> else opts0);
               opts = (if rc_DB cfg \<noteq> 0 then opts1\<lparr>ro_DB := rc_DB cfg\<rparr> else opts1)
           in case ping opts of
                Some e \<Rightarrow> Inl (''failed to connect to Redis: '' @ e)
              | None \<Rightarrow> Inr opts))"

section \<open>The client's operations\<close>

text \<open>
  The client is a pointer: \<open>None\<close> is nil, and a method that reaches \<^verbatim>\<open>c.rdb\<close> through it panics. The
  text of a decoding error is \<^verbatim>\<open>encoding/json\<close>'s and is only logged; it is left out.
\<close>

definition cache_key :: "string \<Rightarrow> string \<Rightarrow> string" where
  "cache_key chain consentID = ''consent:'' @ chain @ '':'' @ consentID"

definition CacheConsent ::
  "'r redis_srv option \<Rightarrow> ConsentCache \<Rightarrow> int \<Rightarrow> ('r, goerr option) go" where
  "CacheConsent c consent ttl r =
     (let data = marshal_cache consent;
          key = cache_key (cc_Chain consent) (cc_ConsentID consent)
      in case c of
           None \<Rightarrow> (Inl NilDereference, r)
         | Some srv \<Rightarrow>
             (case rd_Set srv key (RDoc data) ttl r of
                (Some e, r') \<Rightarrow> (Inr (Some (''failed to cache consent in Redis: '' @ e)), r')
              | (None, r') \<Rightarrow> (Inr None, r')))"

definition decode_cached :: "rval \<Rightarrow> ConsentCache option" where
  "decode_cached v = (case v of RDoc j \<Rightarrow> unmarshal_cache j | RText s \<Rightarrow> None)"

definition GetCachedConsent ::
  "'r redis_srv option \<Rightarrow> string \<Rightarrow> string \<Rightarrow> ('r, goerr + ConsentCache option) go" where
  "GetCachedConsent c chain consentID r =
     (let key = cache_key chain consentID in
      case c of
        None \<Rightarrow> (Inl NilDereference, r)
      | Some srv \<Rightarrow>
          (case rd_Get srv key r of
             (Inr None, r') \<Rightarrow> (Inr (Inr None), r')
           | (Inl e, r') \<Rightarrow> (Inr (Inl (''failed to get cached consent: '' @ e)), r')
           | (Inr (Some data), r') \<Rightarrow>
               (case decode_cached data of
                  None \<Rightarrow> (Inr (Inl ''failed to unmarshal cached consent: ''), r')
                | Some consent \<Rightarrow> (Inr (Inr (Some consent)), r'))))"

definition InvalidateConsent ::
  "'r redis_srv option \<Rightarrow> string \<Rightarrow> string \<Rightarrow> ('r, goerr option) go" where
  "InvalidateConsent c chain consentID r =
     (let key = cache_key chain consentID in
      case c of
        None \<Rightarrow> (Inl NilDereference, r)
      | Some srv \<Rightarrow>
          (case rd_Del srv key r of
             (Some e, r') \<Rightarrow> (Inr (Some (''failed to invalidate consent cache: '' @ e)), r')
           | (None, r') \<Rightarrow> (Inr None, r')))"

text \<open>\<^verbatim>\<open>IncrementRateLimit\<close> ignores the result of \<^verbatim>\<open>Expire\<close>, and its parameter \<^verbatim>\<open>limit\<close>.\<close>

definition IncrementRateLimit ::
  "'r redis_srv option \<Rightarrow> string \<Rightarrow> int \<Rightarrow> int \<Rightarrow> ('r, goerr + (int \<times> int)) go" where
  "IncrementRateLimit c key limit window r =
     (let rlKey = ''ratelimit:'' @ key in
      case c of
        None \<Rightarrow> (Inl NilDereference, r)
      | Some srv \<Rightarrow>
          (case rd_Incr srv rlKey r of
             (Inl e, r1) \<Rightarrow> (Inr (Inl (''failed to increment rate limit: '' @ e)), r1)
           | (Inr current, r1) \<Rightarrow>
               (let r2 = (if current = 1 then rd_Expire srv rlKey window r1 else r1) in
                case rd_TTL srv rlKey r2 of
                  (Inl e, r3) \<Rightarrow> (Inr (Inr (current, window)), r3)
                | (Inr ttl, r3) \<Rightarrow> (Inr (Inr (current, ttl)), r3))))"

section \<open>The interface the services use\<close>

text \<open>
  What a service that only writes relies on promises, when \<open>live\<close> holds: a document that was put is
  found, as \<open>norm\<close> of itself, under its own chain and id until it is deleted; a deleted one is not
  found; and neither operation touches a document under another chain or id that \<open>apart\<close> tells
  apart. The event indexer uses this much, the API reads as well.
\<close>

locale consent_writer =
  fixes put :: "ConsentCache \<Rightarrow> int \<Rightarrow> ('r, goerr option) go"
    and del :: "string \<Rightarrow> string \<Rightarrow> ('r, goerr option) go"
    and found :: "'r \<Rightarrow> string \<Rightarrow> string \<Rightarrow> ConsentCache option"
    and norm :: "ConsentCache \<Rightarrow> ConsentCache"
    and apart :: "string \<Rightarrow> string \<Rightarrow> string \<Rightarrow> string \<Rightarrow> bool"
    and live :: bool
  assumes put_found:
      "live \<Longrightarrow> put d t r = (Inr None, r') \<Longrightarrow> found r' (cc_Chain d) (cc_ConsentID d) = Some (norm d)"
    and put_apart: "live \<Longrightarrow> put d t r = (x, r') \<Longrightarrow> apart (cc_Chain d) (cc_ConsentID d) ch i \<Longrightarrow>
      found r' ch i = found r ch i"
    and del_found: "live \<Longrightarrow> del ch i r = (Inr None, r') \<Longrightarrow> found r' ch i = None"
    and del_apart: "live \<Longrightarrow> del ch i r = (x, r') \<Longrightarrow> apart ch i ch' i' \<Longrightarrow> found r' ch' i' = found r ch' i'"
begin

lemma del_keeps_other:
  assumes "live" "found r ch' i' = Some d" "apart ch i ch' i'" "del ch i r = (x, r1)"
  shows "found r1 ch' i' = Some d"
  using del_apart [OF assms(1,4,3)] assms(2) by simp

end

locale consent_store = consent_writer put del found norm apart live
  for put :: "ConsentCache \<Rightarrow> int \<Rightarrow> ('r, goerr option) go" and del found norm apart live +
  fixes get :: "string \<Rightarrow> string \<Rightarrow> ('r, goerr + ConsentCache option) go"
  assumes get_found: "live \<Longrightarrow> get ch i r = (Inr (Inr w), r') \<Longrightarrow> w = found r ch i"
    and get_frame: "live \<Longrightarrow> get ch i r = (y, r') \<Longrightarrow> found r' = found r"
begin

lemma get_after_put:
  assumes "live" "put d t r = (Inr None, r1)" "get (cc_Chain d) (cc_ConsentID d) r1 = (Inr (Inr x), r2)"
  shows "x = Some (norm d)"
  using put_found [OF assms(1,2)] get_found [OF assms(1,3)] by simp

lemma get_after_del:
  assumes "live" "del ch i r = (Inr None, r1)" "get ch i r1 = (Inr (Inr x), r2)"
  shows "x = None"
  using del_found [OF assms(1,2)] get_found [OF assms(1,3)] by simp

end

definition cached :: "('r \<Rightarrow> string \<rightharpoonup> rval) \<Rightarrow> 'r \<Rightarrow> string \<Rightarrow> string \<Rightarrow> ConsentCache option" where
  "cached view r chain consentID =
     (case view r (cache_key chain consentID) of None \<Rightarrow> None | Some v \<Rightarrow> decode_cached v)"

definition keys_apart :: "string \<Rightarrow> string \<Rightarrow> string \<Rightarrow> string \<Rightarrow> bool" where
  "keys_apart ch i ch' i' \<longleftrightarrow> cache_key ch i \<noteq> cache_key ch' i'"

interpretation redis_store: consent_store "CacheConsent (Some srv)" "InvalidateConsent (Some srv)"
  "cached view" clean_cache keys_apart "redis_ok srv view" "GetCachedConsent (Some srv)"
  for srv view
proof
  show "cached view r' (cc_Chain d) (cc_ConsentID d) = Some (clean_cache d)"
    if "redis_ok srv view" "CacheConsent (Some srv) d t r = (Inr None, r')" for d t r r'
    using that redis_okD(1) [OF that(1)]
    by (auto simp: CacheConsent_def cached_def decode_cached_def unmarshal_marshal
        split: prod.splits option.splits)
  show "cached view r' ch i = cached view r ch i"
    if "redis_ok srv view" "CacheConsent (Some srv) d t r = (x, r')"
      "keys_apart (cc_Chain d) (cc_ConsentID d) ch i" for d t r x r' ch i
    using that redis_okD(1,2) [OF that(1)]
    by (auto simp: CacheConsent_def cached_def keys_apart_def split: prod.splits option.splits)
  show "x = cached view r ch i"
    if "redis_ok srv view" "GetCachedConsent (Some srv) ch i r = (Inr (Inr x), r')" for ch i r x r'
    using that redis_okD(4) [OF that(1)]
    by (auto simp: GetCachedConsent_def cached_def split: prod.splits option.splits sum.splits)
  show "cached view r' = cached view r"
    if "redis_ok srv view" "GetCachedConsent (Some srv) ch i r = (y, r')" for ch i r y r'
    using that redis_okD(3) [OF that(1)]
    by (auto simp: GetCachedConsent_def cached_def fun_eq_iff split: prod.splits option.splits sum.splits)
  show "cached view r' ch i = None"
    if "redis_ok srv view" "InvalidateConsent (Some srv) ch i r = (Inr None, r')" for ch i r r'
    using that redis_okD(5) [OF that(1)]
    by (auto simp: InvalidateConsent_def cached_def split: prod.splits option.splits)
  show "cached view r' ch' i' = cached view r ch' i'"
    if "redis_ok srv view" "InvalidateConsent (Some srv) ch i r = (x, r')" "keys_apart ch i ch' i'"
    for ch i r x r' ch' i'
    using that redis_okD(5,6) [OF that(1)]
    by (auto simp: InvalidateConsent_def cached_def keys_apart_def split: prod.splits option.splits)
qed

lemma nil_cache [simp]:
  "CacheConsent None d t r = (Inl NilDereference, r)"
  "GetCachedConsent None ch i r = (Inl NilDereference, r)"
  "InvalidateConsent None ch i r = (Inl NilDereference, r)"
  by (simp_all add: CacheConsent_def GetCachedConsent_def InvalidateConsent_def)

lemma append_sep_eq:
  "x \<notin> set as \<Longrightarrow> x \<notin> set bs \<Longrightarrow> as @ x # cs = bs @ x # ds \<longleftrightarrow> as = bs \<and> cs = ds"
proof (induction as arbitrary: bs)
  case Nil
  then show ?case by (cases bs) auto
next
  case (Cons a as)
  then show ?case by (cases bs) auto
qed

lemma cache_key_inj:
  "CHR '':'' \<notin> set ch \<Longrightarrow> CHR '':'' \<notin> set ch' \<Longrightarrow> cache_key ch i = cache_key ch' i' \<longleftrightarrow> ch = ch' \<and> i = i'"
  by (simp add: cache_key_def append_sep_eq)

lemma keys_apart_iff:
  "CHR '':'' \<notin> set ch \<Longrightarrow> CHR '':'' \<notin> set ch' \<Longrightarrow> keys_apart ch i ch' i' \<longleftrightarrow> ch \<noteq> ch' \<or> i \<noteq> i'"
  by (simp add: keys_apart_def cache_key_inj)

section \<open>A server that is up\<close>

text \<open>The cache accepts and answers every command.\<close>

definition redis_up :: "'r redis_srv \<Rightarrow> bool" where
  "redis_up srv \<longleftrightarrow>
     (\<forall>k v t r. fst (rd_Set srv k v t r) = None) \<and> (\<forall>k r. \<exists>x. fst (rd_Get srv k r) = Inr x) \<and>
     (\<forall>k r. fst (rd_Del srv k r) = None)"

lemma redis_upD:
  assumes "redis_up srv"
  shows "\<exists>r'. CacheConsent (Some srv) d t r = (Inr None, r')"
    and "\<exists>r'. InvalidateConsent (Some srv) ch i r = (Inr None, r')"
proof -
  obtain r1 where "rd_Set srv (cache_key (cc_Chain d) (cc_ConsentID d)) (RDoc (marshal_cache d)) t r = (None, r1)"
    using assms by (metis redis_up_def prod.collapse)
  then show "\<exists>r'. CacheConsent (Some srv) d t r = (Inr None, r')" by (simp add: CacheConsent_def)
  obtain r2 where "rd_Del srv (cache_key ch i) r = (None, r2)"
    using assms by (metis redis_up_def prod.collapse)
  then show "\<exists>r'. InvalidateConsent (Some srv) ch i r = (Inr None, r')" by (simp add: InvalidateConsent_def)
qed

text \<open>A found document is read back.\<close>

lemma read_cached:
  assumes "redis_ok srv view" "redis_up srv" "cached view r ch i = Some d"
  shows "\<exists>r'. GetCachedConsent (Some srv) ch i r = (Inr (Inr (Some d)), r') \<and> view r' = view r"
proof -
  obtain x r' where g: "rd_Get srv (cache_key ch i) r = (Inr x, r')"
    using assms(2) by (metis redis_up_def prod.collapse)
  have "x = view r (cache_key ch i)" "view r' = view r"
    using redis_okD(3,4) [OF assms(1)] g by blast+
  with assms(3) g show ?thesis
    by (auto simp: GetCachedConsent_def cached_def split: option.splits)
qed

end
