(* ===== verification/Index.thy ===== *)
theory Index
  imports Complex_Main Config Eth Codec
begin

text \<open>
  The Qdrant client of the API, \<^verbatim>\<open>backend/go-api/internal/qdrant/client.go\<close>: consent documents
  stored as points with a payload, the search requests built from the query parameters, and the
  marking of a revoked consent. The Qdrant server is a parameter acting on a state of any type.
\<close>

section \<open>Messages\<close>

text \<open>
  The protobuf messages the code builds and reads, with only the members it uses. A getter of an
  absent or different kind gives the zero value, as generated getters do.
\<close>

datatype pb_value = StringValue string | BoolValue bool | ListValue "pb_value list" | OtherValue

fun GetStringValue :: "pb_value \<Rightarrow> string" where
  "GetStringValue (StringValue s) = s"
| "GetStringValue _ = ''''"

fun GetBoolValue :: "pb_value \<Rightarrow> bool" where
  "GetBoolValue (BoolValue b) = b"
| "GetBoolValue _ = False"

fun GetListValues :: "pb_value \<Rightarrow> pb_value list" where
  "GetListValues (ListValue vs) = vs"
| "GetListValues _ = []"

type_synonym payload = "string \<rightharpoonup> pb_value"
type_synonym point_id = string
type_synonym ctx = "(string \<times> string) list"

datatype condition = MatchText string string | MatchKeyword string string

record point =
  pt_Id :: point_id
  pt_Payload :: payload
  pt_Vector :: "rat list"

record search_points =
  sp_CollectionName :: string
  sp_Vector :: "rat list"
  sp_Filter :: "condition list option"
  sp_Limit :: u64
  sp_Offset :: "u64 option"
  sp_WithPayload :: bool

record 'q qdrant_srv =
  qd_List :: "ctx \<Rightarrow> 'q \<Rightarrow> (goerr + string list) \<times> 'q"
  qd_Create :: "ctx \<Rightarrow> string \<Rightarrow> u64 \<Rightarrow> 'q \<Rightarrow> goerr option \<times> 'q"
  qd_Upsert :: "ctx \<Rightarrow> string \<Rightarrow> point list \<Rightarrow> 'q \<Rightarrow> goerr option \<times> 'q"
  qd_SetPayload :: "ctx \<Rightarrow> string \<Rightarrow> payload \<Rightarrow> point_id list \<Rightarrow> 'q \<Rightarrow> goerr option \<times> 'q"
  qd_Scroll :: "ctx \<Rightarrow> string \<Rightarrow> condition list \<Rightarrow> u32 \<Rightarrow> 'q \<Rightarrow> (goerr + point_id list) \<times> 'q"
  qd_Search :: "ctx \<Rightarrow> search_points \<Rightarrow> 'q \<Rightarrow> (goerr + payload option list) \<times> 'q"

section \<open>Documents\<close>

record ConsentDocument =
  qd_ConsentID :: string
  qd_Parties :: "string list"
  qd_Scopes :: "string list"
  qd_ValidFrom :: u64
  qd_ValidUntil :: u64
  qd_Revoked :: bool
  qd_Chain :: string
  qd_TxHash :: string
  qd_CreatedAt :: u64
  qd_Embedding :: "rat list"

record SearchParams =
  se_Query :: string
  se_Chain :: string
  se_Party :: string
  se_Scope :: string
  se_Limit :: int
  se_Offset :: int

definition stringListValue :: "string list \<Rightarrow> pb_value" where
  "stringListValue items = ListValue (map StringValue items)"

definition makePayload :: "ConsentDocument \<Rightarrow> payload" where
  "makePayload doc =
     [''consent_id'' \<mapsto> StringValue (qd_ConsentID doc),
      ''parties'' \<mapsto> stringListValue (qd_Parties doc),
      ''scopes'' \<mapsto> stringListValue (qd_Scopes doc),
      ''valid_from'' \<mapsto> StringValue (show_nat (unat (qd_ValidFrom doc))),
      ''valid_until'' \<mapsto> StringValue (show_nat (unat (qd_ValidUntil doc))),
      ''revoked'' \<mapsto> BoolValue (qd_Revoked doc),
      ''chain'' \<mapsto> StringValue (qd_Chain doc),
      ''tx_hash'' \<mapsto> StringValue (qd_TxHash doc),
      ''created_at'' \<mapsto> StringValue (show_nat (unat (qd_CreatedAt doc)))]"

definition zero_document :: ConsentDocument where
  "zero_document =
     \<lparr> qd_ConsentID = '''', qd_Parties = [], qd_Scopes = [], qd_ValidFrom = 0, qd_ValidUntil = 0,
       qd_Revoked = False, qd_Chain = '''', qd_TxHash = '''', qd_CreatedAt = 0, qd_Embedding = [] \<rparr>"

text \<open>Six of the payload's members are read back; a nil point gives a nil document.\<close>

definition pointToDocument :: "payload option \<Rightarrow> ConsentDocument option" where
  "pointToDocument p =
     (case p of
        None \<Rightarrow> None
      | Some pl \<Rightarrow>
          (let d0 = zero_document;
               d1 = (case pl ''consent_id'' of Some v \<Rightarrow> d0\<lparr>qd_ConsentID := GetStringValue v\<rparr> | None \<Rightarrow> d0);
               d2 = (case pl ''chain'' of Some v \<Rightarrow> d1\<lparr>qd_Chain := GetStringValue v\<rparr> | None \<Rightarrow> d1);
               d3 = (case pl ''tx_hash'' of Some v \<Rightarrow> d2\<lparr>qd_TxHash := GetStringValue v\<rparr> | None \<Rightarrow> d2);
               d4 = (case pl ''revoked'' of Some v \<Rightarrow> d3\<lparr>qd_Revoked := GetBoolValue v\<rparr> | None \<Rightarrow> d3);
               d5 = (case pl ''parties'' of
                       Some v \<Rightarrow> d4\<lparr>qd_Parties := qd_Parties d4 @ map GetStringValue (GetListValues v)\<rparr>
                     | None \<Rightarrow> d4);
               d6 = (case pl ''scopes'' of
                       Some v \<Rightarrow> d5\<lparr>qd_Scopes := qd_Scopes d5 @ map GetStringValue (GetListValues v)\<rparr>
                     | None \<Rightarrow> d5)
           in Some d6))"

section \<open>The client\<close>

text \<open>The client is a pointer to its server and configuration; \<open>None\<close> is nil.\<close>

type_synonym 'q qdrant_client = "('q qdrant_srv \<times> QdrantConfig) option"

definition authContext :: "QdrantConfig \<Rightarrow> ctx \<Rightarrow> ctx" where
  "authContext cfg ctx = (if qc_APIKey cfg \<noteq> '''' then ctx @ [(''api-key'', qc_APIKey cfg)] else ctx)"

definition ensureCollection :: "'q qdrant_client \<Rightarrow> ctx \<Rightarrow> ('q, goerr option) go" where
  "ensureCollection c ctx q =
     (case c of
        None \<Rightarrow> (Inl NilDereference, q)
      | Some (srv, cfg) \<Rightarrow>
          (case qd_List srv (authContext cfg ctx) q of
             (Inl e, q1) \<Rightarrow> (Inr (Some (''failed to list collections: '' @ e)), q1)
           | (Inr names, q1) \<Rightarrow>
               if qc_CollectionName cfg \<in> set names then (Inr None, q1)
               else (case qd_Create srv (authContext cfg ctx) (qc_CollectionName cfg)
                            (word_of_int (qc_VectorSize cfg)) q1 of
                       (Some e, q2) \<Rightarrow> (Inr (Some (''failed to create collection: '' @ e)), q2)
                     | (None, q2) \<Rightarrow> (Inr None, q2))))"

text \<open>\<open>pointID\<close> is the fresh UUID the code draws.\<close>

definition IndexConsent ::
  "'q qdrant_client \<Rightarrow> ctx \<Rightarrow> point_id \<Rightarrow> ConsentDocument \<Rightarrow> ('q, goerr option) go" where
  "IndexConsent c ctx pointID doc q =
     (case c of
        None \<Rightarrow> (Inl NilDereference, q)
      | Some (srv, cfg) \<Rightarrow>
          (case qd_Upsert srv (authContext cfg ctx) (qc_CollectionName cfg)
                  [\<lparr> pt_Id = pointID, pt_Payload = makePayload doc, pt_Vector = qd_Embedding doc \<rparr>] q of
             (Some e, q1) \<Rightarrow> (Inr (Some (''failed to index consent in Qdrant: '' @ e)), q1)
           | (None, q1) \<Rightarrow> (Inr None, q1)))"

definition findByConsentID ::
  "'q qdrant_client \<Rightarrow> ctx \<Rightarrow> string \<Rightarrow> ('q, goerr + point_id list) go" where
  "findByConsentID c ctx consentID q =
     (case c of
        None \<Rightarrow> (Inl NilDereference, q)
      | Some (srv, cfg) \<Rightarrow>
          (case qd_Scroll srv (authContext cfg ctx) (qc_CollectionName cfg)
                  [MatchText ''consent_id'' consentID] 100 q of
             (Inl e, q1) \<Rightarrow> (Inr (Inl (''failed to scroll points: '' @ e)), q1)
           | (Inr ids, q1) \<Rightarrow> (Inr (Inr ids), q1)))"

text \<open>The loop of \<^verbatim>\<open>UpdateConsentRevoked\<close>: one point at a time, until the first error.\<close>

fun set_revoked ::
  "'q qdrant_srv \<Rightarrow> ctx \<Rightarrow> string \<Rightarrow> bool \<Rightarrow> point_id list \<Rightarrow> 'q \<Rightarrow> goerr option \<times> 'q" where
  "set_revoked srv ctx coll revoked [] q = (None, q)"
| "set_revoked srv ctx coll revoked (i # ids) q =
     (case qd_SetPayload srv ctx coll [''revoked'' \<mapsto> BoolValue revoked] [i] q of
        (Some e, q1) \<Rightarrow> (Some (''failed to update consent payload: '' @ e), q1)
      | (None, q1) \<Rightarrow> set_revoked srv ctx coll revoked ids q1)"

text \<open>\<^verbatim>\<open>findByConsentID\<close> is called with the context that already carries the key.\<close>

definition UpdateConsentRevoked ::
  "'q qdrant_client \<Rightarrow> ctx \<Rightarrow> string \<Rightarrow> bool \<Rightarrow> ('q, goerr option) go" where
  "UpdateConsentRevoked c ctx0 consentID revoked q =
     (case c of
        None \<Rightarrow> (Inl NilDereference, q)
      | Some (srv, cfg) \<Rightarrow>
          (let ctx = authContext cfg ctx0 in
           case findByConsentID c ctx consentID q of
             (Inl p, q1) \<Rightarrow> (Inl p, q1)
           | (Inr (Inl e), q1) \<Rightarrow> (Inr (Some e), q1)
           | (Inr (Inr points), q1) \<Rightarrow>
               (case set_revoked srv ctx (qc_CollectionName cfg) revoked points q1 of
                  (x, q2) \<Rightarrow> (Inr x, q2))))"

definition search_conditions :: "SearchParams \<Rightarrow> condition list" where
  "search_conditions params =
     (if se_Chain params \<noteq> '''' then [MatchKeyword ''chain'' (se_Chain params)] else []) @
     (if se_Party params \<noteq> '''' then [MatchKeyword ''parties'' (se_Party params)] else []) @
     (if se_Scope params \<noteq> '''' then [MatchKeyword ''scopes'' (se_Scope params)] else [])"

definition search_request :: "QdrantConfig \<Rightarrow> SearchParams \<Rightarrow> search_points" where
  "search_request cfg params =
     (let conditions = search_conditions params;
          limit = (if se_Limit params \<le> 0 then 20 else se_Limit params)
      in \<lparr> sp_CollectionName = qc_CollectionName cfg,
           sp_Vector = replicate (nat (qc_VectorSize cfg)) 0,
           sp_Filter = (if conditions \<noteq> [] then Some conditions else None),
           sp_Limit = word_of_int limit,
           sp_Offset = None,
           sp_WithPayload = True \<rparr>)"

text \<open>\<^verbatim>\<open>make([]float32, VectorSize)\<close> panics on a negative or excessive size.\<close>

definition Search ::
  "'q qdrant_client \<Rightarrow> ctx \<Rightarrow> SearchParams \<Rightarrow> ('q, goerr + ConsentDocument list) go" where
  "Search c ctx params q =
     (case c of
        None \<Rightarrow> (Inl NilDereference, q)
      | Some (srv, cfg) \<Rightarrow>
          if qc_VectorSize cfg < 0 \<or> 2 ^ 48 < 4 * qc_VectorSize cfg then (Inl MakeSliceOutOfRange, q)
          else
            (case qd_Search srv (authContext cfg ctx) (search_request cfg params) q of
               (Inl e, q1) \<Rightarrow> (Inr (Inl (''failed to search points: '' @ e)), q1)
             | (Inr rs, q1) \<Rightarrow> (Inr (Inr (List.map_filter pointToDocument rs)), q1)))"

definition GetConsentsByParty ::
  "'q qdrant_client \<Rightarrow> ctx \<Rightarrow> string \<Rightarrow> ('q, goerr + ConsentDocument list) go" where
  "GetConsentsByParty c ctx party =
     Search c ctx \<lparr> se_Query = '''', se_Chain = '''', se_Party = party, se_Scope = '''',
                    se_Limit = 100, se_Offset = 0 \<rparr>"

text \<open>\<^verbatim>\<open>NewClient\<close>: a failing dial is an error, a failing \<^verbatim>\<open>ensureCollection\<close> is only logged.\<close>

definition qdrant_NewClient ::
  "(string \<Rightarrow> goerr + 'q qdrant_srv) \<Rightarrow> QdrantConfig \<Rightarrow> ('q, goerr + 'q qdrant_client) go" where
  "qdrant_NewClient dial cfg q =
     (case dial (qc_URL cfg) of
        Inl e \<Rightarrow> (Inr (Inl (''failed to connect to Qdrant: '' @ e)), q)
      | Inr srv \<Rightarrow>
          (let c = Some (srv, cfg) in
           case ensureCollection c [] q of
             (Inl p, q1) \<Rightarrow> (Inl p, q1)
           | (Inr x, q1) \<Rightarrow> (Inr (Inr c), q1)))"

text \<open>What a process holds open and closes at its end; \<^verbatim>\<open>Close\<close> itself is the library's.\<close>

datatype resource = QdrantConn | RedisConn | ChainConns "conn set"

section \<open>What a document keeps\<close>

lemma pointToDocument_makePayload:
  "pointToDocument (Some (makePayload d)) =
     Some (d\<lparr> qd_ValidFrom := 0, qd_ValidUntil := 0, qd_CreatedAt := 0, qd_Embedding := [] \<rparr>)"
  by (simp add: pointToDocument_def makePayload_def zero_document_def stringListValue_def comp_def)

lemma pointToDocument_None [simp]: "pointToDocument None = None"
  by (simp add: pointToDocument_def)

lemma search_request_paging:
  "search_request cfg (params\<lparr>se_Offset := off, se_Query := s\<rparr>) = search_request cfg params"
  by (simp add: search_request_def search_conditions_def)

lemma nil_index [simp]:
  "IndexConsent None ctx i d q = (Inl NilDereference, q)"
  "UpdateConsentRevoked None ctx s b q = (Inl NilDereference, q)"
  "Search None ctx params q = (Inl NilDereference, q)"
  "GetConsentsByParty None ctx party q = (Inl NilDereference, q)"
  by (simp_all add: IndexConsent_def UpdateConsentRevoked_def Search_def GetConsentsByParty_def)

section \<open>What the server promises\<close>

text \<open>
  \<open>view\<close> reads off the payload of every point of the collection. A payload update that succeeds
  merges the given members into the named points; a scroll changes nothing and, when it returns
  fewer points than its limit, misses no point whose payload equals the text it asks for.
\<close>

definition qdrant_ok :: "'q qdrant_srv \<Rightarrow> string \<Rightarrow> ('q \<Rightarrow> point_id \<rightharpoonup> payload) \<Rightarrow> bool" where
  "qdrant_ok srv coll view \<longleftrightarrow>
     (\<forall>ctx pl ids q q'. qd_SetPayload srv ctx coll pl ids q = (None, q') \<longrightarrow>
        view q' = (\<lambda>i. if i \<in> set ids then map_option (\<lambda>old. old ++ pl) (view q i) else view q i)) \<and>
     (\<forall>ctx key t limit q ids q'. qd_Scroll srv ctx coll [MatchText key t] limit q = (Inr ids, q') \<longrightarrow>
        view q' = view q \<and>
        (length ids < unat limit \<longrightarrow>
           (\<forall>i pl. view q i = Some pl \<longrightarrow> pl key = Some (StringValue t) \<longrightarrow> i \<in> set ids)))"

lemma set_revoked_marks:
  assumes "qdrant_ok srv coll view" "set_revoked srv ctx coll b ids q = (None, q')"
  shows "view q' = (\<lambda>i. if i \<in> set ids then map_option (\<lambda>old. old(''revoked'' \<mapsto> BoolValue b)) (view q i)
                        else view q i)"
  using assms(2)
proof (induction ids arbitrary: q)
  case Nil
  then show ?case by simp
next
  case (Cons j ids)
  then obtain q1 where s: "qd_SetPayload srv ctx coll [''revoked'' \<mapsto> BoolValue b] [j] q = (None, q1)"
    and r: "set_revoked srv ctx coll b ids q1 = (None, q')"
    by (auto split: prod.splits option.splits)
  have "view q1 = (\<lambda>i. if i \<in> set [j] then map_option (\<lambda>old. old ++ [''revoked'' \<mapsto> BoolValue b]) (view q i)
      else view q i)"
    using assms(1) s unfolding qdrant_ok_def by blast
  then show ?case
    using Cons.IH [OF r] by (auto simp: fun_eq_iff option.map_comp comp_def split: option.splits)
qed

text \<open>
  A client that revokes: it scrolls for the consent's points and sets the flag on each. Whoever works
  that way leaves every point of the consent marked, provided it found them all.
\<close>

locale revoker =
  fixes mark :: "ctx \<Rightarrow> string \<Rightarrow> bool \<Rightarrow> ('q, goerr option) go"
    and srv :: "'q qdrant_srv"
    and coll :: string
  assumes mark_steps: "mark ctx i b q = (Inr None, q') \<Longrightarrow>
    \<exists>c c' ids q1. qd_Scroll srv c coll [MatchText ''consent_id'' i] 100 q = (Inr ids, q1) \<and>
      set_revoked srv c' coll b ids q1 = (None, q')"
begin

lemma marks:
  assumes ok: "qdrant_ok srv coll view" and m: "mark ctx i b q = (Inr None, q')"
    and few: "\<And>c ids q1. qd_Scroll srv c coll [MatchText ''consent_id'' i] 100 q = (Inr ids, q1) \<Longrightarrow>
      length ids < 100"
    and here: "view q k = Some pl" "pl ''consent_id'' = Some (StringValue i)"
  shows "\<exists>pl'. view q' k = Some pl' \<and> pl' ''revoked'' = Some (BoolValue b)"
proof -
  obtain c c' ids q1 where sc: "qd_Scroll srv c coll [MatchText ''consent_id'' i] 100 q = (Inr ids, q1)"
    and sr: "set_revoked srv c' coll b ids q1 = (None, q')"
    using mark_steps [OF m] by blast
  have law: "view q1 = view q \<and> (length ids < unat (100 :: u32) \<longrightarrow>
      (\<forall>i' pl. view q i' = Some pl \<longrightarrow> pl ''consent_id'' = Some (StringValue i) \<longrightarrow> i' \<in> set ids))"
    using ok sc unfolding qdrant_ok_def by blast
  then have "k \<in> set ids" using few [OF sc] here by simp
  with law show ?thesis using set_revoked_marks [OF ok sr] here by simp
qed

end

interpretation api_revoker: revoker "UpdateConsentRevoked (Some (srv, cfg))" srv "qc_CollectionName cfg"
  for srv cfg
  by unfold_locales
    (auto simp: UpdateConsentRevoked_def findByConsentID_def Let_def split: prod.splits sum.splits)

text \<open>
  A search returns payloads of points of the collection, and when it is filtered, only of points
  that meet every condition: a keyword equals the member's text or one of its list's texts.
\<close>

definition pl_matches :: "payload \<Rightarrow> condition \<Rightarrow> bool" where
  "pl_matches pl c =
     (case c of
        MatchText k t \<Rightarrow> pl k = Some (StringValue t)
      | MatchKeyword k t \<Rightarrow>
          (case pl k of
             Some (StringValue s) \<Rightarrow> s = t
           | Some (ListValue vs) \<Rightarrow> StringValue t \<in> set vs
           | _ \<Rightarrow> False))"

definition search_ok :: "'q qdrant_srv \<Rightarrow> ('q \<Rightarrow> payload set) \<Rightarrow> bool" where
  "search_ok srv contents \<longleftrightarrow>
     (\<forall>ctx sp q rs q' pl. qd_Search srv ctx sp q = (Inr rs, q') \<longrightarrow> Some pl \<in> set rs \<longrightarrow>
        pl \<in> contents q \<and>
        (\<forall>cs. sp_Filter sp = Some cs \<longrightarrow> list_all (pl_matches pl) cs))"

text \<open>The points whose parties are stored as a list, as \<open>makePayload\<close> stores them.\<close>

definition parties_listed :: "payload set \<Rightarrow> bool" where
  "parties_listed A \<longleftrightarrow> (\<forall>pl\<in>A. \<exists>vs. pl ''parties'' = Some (ListValue vs))"

lemma search_by_party:
  assumes "search_ok srv contents" "parties_listed (contents q)"
    and "Search (Some (srv, cfg)) ctx params q = (Inr (Inr docs), q')"
    and "se_Party params \<noteq> ''''" "d \<in> set docs"
  shows "se_Party params \<in> set (qd_Parties d)"
proof -
  obtain rs where rs: "qd_Search srv (authContext cfg ctx) (search_request cfg params) q = (Inr rs, q')"
    "docs = List.map_filter pointToDocument rs"
    using assms(3) by (auto simp: Search_def split: if_splits prod.splits sum.splits)
  then obtain p where "p \<in> set rs" "pointToDocument p = Some d"
    using assms(5) by (auto simp: List.map_filter_def)
  then obtain pl where pl: "Some pl \<in> set rs" "pointToDocument (Some pl) = Some d"
    by (metis not_None_eq pointToDocument_None)
  obtain cs where cs: "sp_Filter (search_request cfg params) = Some cs"
    "MatchKeyword ''parties'' (se_Party params) \<in> set cs"
    using assms(4) by (auto simp: search_request_def search_conditions_def Let_def)
  have "pl_matches pl (MatchKeyword ''parties'' (se_Party params))" "pl \<in> contents q"
    using assms(1) rs(1) pl(1) cs unfolding search_ok_def list_all_iff by blast+
  moreover from this(2) assms(2) obtain vs where "pl ''parties'' = Some (ListValue vs)"
    by (auto simp: parties_listed_def)
  ultimately have "StringValue (se_Party params) \<in> set vs" "pl ''parties'' = Some (ListValue vs)"
    by (simp_all add: pl_matches_def)
  then have "se_Party params \<in> GetStringValue ` set vs" by force
  with pl(2) \<open>pl ''parties'' = Some (ListValue vs)\<close> show ?thesis
    by (auto simp: pointToDocument_def Let_def zero_document_def split: option.splits)
qed

end
