(* ===== verification/Middleware.thy ===== *)
theory Middleware
  imports Api_Types Float64 Cache Index
begin

text \<open>
  \<^verbatim>\<open>backend/go-api/internal/api/middleware.go\<close>: the token buckets of the rate limiter, the
  authentication of a request, and the handlers gin runs around an endpoint. The rest of a gin
  chain is a computation a middleware may run or leave out.
\<close>

section \<open>The rate limiter\<close>

text \<open>
  Times are nanoseconds after Go's zero time; a difference of times saturates at the 64-bit range.
\<close>

record TokenBucket =
  tb_tokens :: rat
  tb_lastCheck :: int
  tb_capacity :: rat
  tb_rate :: rat

record RateLimiter =
  rl_buckets :: "string \<rightharpoonup> TokenBucket"
  rl_rate :: int
  rl_burst :: int

definition NewRateLimiter :: "int \<Rightarrow> int \<Rightarrow> RateLimiter" where
  "NewRateLimiter rate burst = \<lparr> rl_buckets = Map.empty, rl_rate = rate, rl_burst = burst \<rparr>"

definition time_Sub :: "int \<Rightarrow> int \<Rightarrow> int" where
  "time_Sub t u = max (- (2 ^ 63)) (min (2 ^ 63 - 1) (t - u))"

text \<open>\<^verbatim>\<open>Duration.Seconds\<close>: whole seconds and nanoseconds are converted apart; division truncates.\<close>

definition duration_Seconds :: "int \<Rightarrow> rat" where
  "duration_Seconds d =
     (let sec = sgn d * (\<bar>d\<bar> div 1000000000); nsec = sgn d * (\<bar>d\<bar> mod 1000000000)
      in fl64 (fl64 (of_int sec) + fl64 (fl64 (of_int nsec) / 1000000000)))"

definition refill :: "int \<Rightarrow> TokenBucket \<Rightarrow> TokenBucket" where
  "refill now b =
     (let elapsed = duration_Seconds (time_Sub now (tb_lastCheck b));
          t = fl64 (tb_tokens b + fl64 (elapsed * tb_rate b))
      in b\<lparr>tb_tokens := (if tb_capacity b < t then tb_capacity b else t), tb_lastCheck := now\<rparr>)"

definition new_bucket :: "RateLimiter \<Rightarrow> TokenBucket" where
  "new_bucket rl =
     \<lparr> tb_tokens = fl64 (of_int (rl_burst rl)), tb_lastCheck = 0,
       tb_capacity = fl64 (of_int (rl_burst rl)), tb_rate = fl64 (of_int (rl_rate rl)) \<rparr>"

definition Allow :: "string \<Rightarrow> int \<Rightarrow> RateLimiter \<Rightarrow> bool \<times> RateLimiter" where
  "Allow key now rl =
     (let bucket0 = (case rl_buckets rl key of Some b \<Rightarrow> b | None \<Rightarrow> new_bucket rl);
          bucket = refill now bucket0;
          grant = (1 \<le> tb_tokens bucket);
          bucket' = (if grant then bucket\<lparr>tb_tokens := fl64 (tb_tokens bucket - 1)\<rparr> else bucket)
      in (grant, rl\<lparr>rl_buckets := (rl_buckets rl)(key \<mapsto> bucket')\<rparr>))"

section \<open>The state of the server, and a request\<close>

text \<open>
  \<open>as_headers\<close> and \<open>as_keys\<close> belong to the request being served: the headers of its response and
  the values gin's context carries. \<open>as_log\<close> collects what \<^verbatim>\<open>RequestLogger\<close> writes.
\<close>

datatype log_level = InfoLevel | WarnLevel | ErrorLevel

record log_entry =
  lg_level :: log_level
  lg_method :: string
  lg_path :: string
  lg_status :: int

datatype ctx_value = CText string | CClaim "json option"

record ('q, 'r) api_state =
  as_clients :: clients
  as_qdrant :: 'q
  as_redis :: 'r
  as_limiter :: RateLimiter
  as_headers :: "(string \<times> string) list"
  as_keys :: "string \<rightharpoonup> ctx_value"
  as_log :: "log_entry list"

record request =
  rq_Method :: string
  rq_Path :: string
  rq_RawQuery :: string
  rq_Authorization :: string
  rq_ClientIP :: string
  rq_Param :: "string \<Rightarrow> string"
  rq_Query :: "string \<Rightarrow> string"
  rq_Body :: "json option"

type_synonym ('q, 'r) chain_rest = "(('q, 'r) api_state, response) go"

section \<open>Authentication\<close>

text \<open>
  \<^verbatim>\<open>jwt.Parse\<close> is a parameter: it asks the key function for the key of the token's signing method.
\<close>

datatype sign_method = HMAC string | OtherMethod string

record jwt_token =
  jt_Valid :: bool
  jt_Claims :: "(string \<rightharpoonup> json) option"

type_synonym jwt_parser = "string \<Rightarrow> (sign_method \<Rightarrow> goerr + string) \<Rightarrow> goerr + jwt_token"

definition jwt_key :: "Config \<Rightarrow> sign_method \<Rightarrow> goerr + string" where
  "jwt_key cfg m =
     (case m of HMAC alg \<Rightarrow> Inr (JWTSecret cfg) | OtherMethod alg \<Rightarrow> Inl ''signature is invalid'')"

definition unauthorized :: "string \<Rightarrow> ('s, response) go" where
  "unauthorized msg = gret (error_body 401 msg '''')"

definition set_key ::
  "string \<Rightarrow> ctx_value \<Rightarrow> ('q, 'r) api_state \<Rightarrow> ('q, 'r) api_state" where
  "set_key k v s = s\<lparr>as_keys := (as_keys s)(k \<mapsto> v)\<rparr>"

definition AuthMiddleware ::
  "jwt_parser \<Rightarrow> Config \<Rightarrow> request \<Rightarrow> ('q, 'r) chain_rest \<Rightarrow> ('q, 'r) chain_rest" where
  "AuthMiddleware jwt cfg rq rest s =
     (let authHeader = rq_Authorization rq in
      if authHeader = '''' then unauthorized ''missing authorization header'' s
      else if strings_HasPrefix authHeader ''Bearer '' then
        (let tokenStr = strings_TrimPrefix authHeader ''Bearer '' in
         if tokenStr = APIKey cfg then
           rest (set_key ''api_key'' (CText tokenStr) (set_key ''auth_type'' (CText ''api_key'') s))
         else
           (case jwt tokenStr (jwt_key cfg) of
              Inl err \<Rightarrow> unauthorized ''invalid or expired token'' s
            | Inr token \<Rightarrow>
                if \<not> jt_Valid token then unauthorized ''invalid or expired token'' s
                else
                  (case jt_Claims token of
                     Some claims \<Rightarrow>
                       rest (set_key ''roles'' (CClaim (claims ''roles''))
                              (set_key ''sub'' (CClaim (claims ''sub''))
                                (set_key ''auth_type'' (CText ''jwt'') s)))
                   | None \<Rightarrow> rest s)))
      else if authHeader = APIKey cfg then rest (set_key ''auth_type'' (CText ''api_key'') s)
      else unauthorized ''invalid authorization'' s)"

section \<open>The other middlewares\<close>

definition RateLimitMiddleware ::
  "int \<Rightarrow> request \<Rightarrow> ('q, 'r) chain_rest \<Rightarrow> ('q, 'r) chain_rest" where
  "RateLimitMiddleware now rq rest s =
     (case Allow (rq_ClientIP rq) now (as_limiter s) of
        (ok, rl) \<Rightarrow>
          (if \<not> ok then gret (error_body 429 ''rate limit exceeded'' '''')
           else rest) (s\<lparr>as_limiter := rl\<rparr>))"

definition supportedChains :: "string list" where
  "supportedChains = [''sepolia'', ''bsc-testnet'', ''amoy'', ''palm-testnet'', ''base-sepolia'']"

definition ChainMiddleware :: "request \<Rightarrow> ('q, 'r) chain_rest \<Rightarrow> ('q, 'r) chain_rest" where
  "ChainMiddleware rq rest s =
     (let chain = rq_Param rq ''chain'' in
      if chain \<noteq> '''' then
        (if chain \<notin> set supportedChains
         then (Inr (error_body 400 ''unsupported chain''
                ''supported chains: sepolia, bsc-testnet, amoy, palm-testnet, base-sepolia''), s)
         else rest (set_key ''chain'' (CText chain) s))
      else rest s)"

definition cors_headers :: "(string \<times> string) list" where
  "cors_headers =
     [(''Access-Control-Allow-Origin'', ''*''),
      (''Access-Control-Allow-Credentials'', ''true''),
      (''Access-Control-Allow-Headers'', ''Content-Type, Content-Length, Accept-Encoding, X-CSRF-Token, Authorization, accept, origin, Cache-Control, X-Requested-With''),
      (''Access-Control-Allow-Methods'', ''POST, OPTIONS, GET, PUT, DELETE, PATCH'')]"

definition CORSMiddleware :: "request \<Rightarrow> ('q, 'r) chain_rest \<Rightarrow> ('q, 'r) chain_rest" where
  "CORSMiddleware rq rest s =
     (let s1 = s\<lparr>as_headers := as_headers s @ cors_headers\<rparr> in
      if rq_Method rq = ''OPTIONS'' then (Inr (204, NoBody), s1) else rest s1)"

definition log_for :: "request \<Rightarrow> int \<Rightarrow> log_entry" where
  "log_for rq status =
     \<lparr> lg_level = (if 500 \<le> status then ErrorLevel else if 400 \<le> status then WarnLevel else InfoLevel),
       lg_method = rq_Method rq,
       lg_path = (if rq_RawQuery rq \<noteq> '''' then rq_Path rq @ ''?'' @ rq_RawQuery rq else rq_Path rq),
       lg_status = status \<rparr>"

definition RequestLogger :: "request \<Rightarrow> ('q, 'r) chain_rest \<Rightarrow> ('q, 'r) chain_rest" where
  "RequestLogger rq rest =
     gbind rest (\<lambda>resp s. (Inr resp, s\<lparr>as_log := as_log s @ [log_for rq (fst resp)]\<rparr>))"

text \<open>\<^verbatim>\<open>gin.Recovery\<close> turns a panic of the chain into a bare 500.\<close>

definition Recovery :: "('q, 'r) chain_rest \<Rightarrow> ('q, 'r) api_state \<Rightarrow> response \<times> ('q, 'r) api_state" where
  "Recovery rest s =
     (case rest s of (Inl p, s') \<Rightarrow> ((500, NoBody), s') | (Inr resp, s') \<Rightarrow> (resp, s'))"

end
