(* ===== verification/Abi.thy ===== *)
theory Abi
  imports Codec Eth
begin

text \<open>
  The contract calls of \<^verbatim>\<open>backend/go-api/internal/contracts/client.go\<close> as bytes: the call data the
  client builds by hand, what it reads out of the bytes a call returns, and the conversions between
  scope names and 32-byte words.
\<close>

section \<open>Scope names\<close>

definition StringToBytes32 :: "string \<Rightarrow> bytes" where
  "StringToBytes32 s =
     (let b = bytes_of_string (take (min (length s) 32) s) in b @ replicate (32 - length b) 0)"

definition Bytes32ToString :: "bytes \<Rightarrow> string" where
  "Bytes32ToString b = trim_right_nul (string_of_bytes b)"

definition StringsToBytes32Array :: "string list \<Rightarrow> bytes list" where
  "StringsToBytes32Array strs = map StringToBytes32 strs"

definition Bytes32ArrayToStrings :: "bytes list \<Rightarrow> string list" where
  "Bytes32ArrayToStrings arr = map Bytes32ToString arr"

definition StringToHash :: "lib \<Rightarrow> string \<Rightarrow> bytes" where
  "StringToHash L s = Keccak256 L (bytes_of_string s)"

section \<open>Call data\<close>

definition selector :: "lib \<Rightarrow> string \<Rightarrow> bytes" where
  "selector L signature = take 4 (Keccak256 L (bytes_of_string signature))"

text \<open>\<^verbatim>\<open>big.NewInt(int64(v)).FillBytes(...)\<close> on a fresh 32-byte buffer.\<close>

definition word_of_u64 :: "u64 \<Rightarrow> bytes res" where
  "word_of_u64 v = big_FillBytes 32 (i64_of_u64 v)"

definition pad_address :: "address \<Rightarrow> bytes" where
  "pad_address p = replicate 12 0 @ p"

definition encodeRegisterConsent ::
  "lib \<Rightarrow> address list \<Rightarrow> bytes list \<Rightarrow> int \<Rightarrow> (goerr + bytes) res" where
  "encodeRegisterConsent L parties scopes duration =
     (let partiesLen = length parties; scopesLen = length scopes;
          sig = selector L ''registerConsent(address[],bytes32[],uint256)'';
          dynOffset = (32 + 32 + 32 :: u64);
          scopesDynamicOffset = dynOffset + 32 + word_of_nat (partiesLen * 32) + 32
      in rbind (word_of_u64 dynOffset) (\<lambda>partiesOffset.
         rbind (word_of_u64 scopesDynamicOffset) (\<lambda>scopesOffset.
         rbind (big_FillBytes 32 duration) (\<lambda>durationBytes.
         rbind (big_FillBytes 32 (int partiesLen)) (\<lambda>partiesLenBytes.
         rbind (big_FillBytes 32 (int scopesLen)) (\<lambda>scopesLenBytes.
           Inr (Inr (sig @ partiesOffset @ scopesOffset @ durationBytes @ partiesLenBytes @
                     concat (map pad_address parties) @ scopesLenBytes @ concat scopes))))))))"

definition encodeGetConsent :: "lib \<Rightarrow> bytes \<Rightarrow> goerr + bytes" where
  "encodeGetConsent L consentID = Inr (selector L ''getConsent(bytes32)'' @ consentID)"

definition encodeRevokeConsent :: "lib \<Rightarrow> bytes \<Rightarrow> goerr + bytes" where
  "encodeRevokeConsent L consentID = Inr (selector L ''revokeConsent(bytes32)'' @ consentID)"

definition encodeConsentExists :: "lib \<Rightarrow> bytes \<Rightarrow> goerr + bytes" where
  "encodeConsentExists L consentID = Inr (selector L ''consentExists(bytes32)'' @ consentID)"

definition encodeVerifyConsent :: "lib \<Rightarrow> bytes \<Rightarrow> goerr + bytes" where
  "encodeVerifyConsent L consentID = Inr (selector L ''verifyConsent(bytes32)'' @ consentID)"

section \<open>Returned data\<close>

record ConsentData =
  cd_Parties :: "address list"
  cd_Scopes :: "bytes list"
  cd_ValidFrom :: "int option"
  cd_ValidUntil :: "int option"
  cd_Revoked :: bool
  cd_Exists :: bool

text \<open>
  \<^verbatim>\<open>make([]T, n)\<close> panics when the array would exceed the largest allocation of the runtime,
  \<open>2 ^ 48\<close> bytes on the 64-bit platforms the service runs on.
\<close>

definition make_slice_ok :: "nat \<Rightarrow> u64 \<Rightarrow> bool" where
  "make_slice_ok esize n \<longleftrightarrow> esize * unat n \<le> 2 ^ 48"

text \<open>
  One round of the element loops: element \<open>i\<close> starts at \<^verbatim>\<open>32 + i*32\<close> in 64-bit arithmetic and is
  read when it lies inside the data; otherwise the slot keeps its zero value.
\<close>

definition decode_slot ::
  "(bytes \<Rightarrow> 'a) \<Rightarrow> 'a \<Rightarrow> u64 \<Rightarrow> bytes \<Rightarrow> nat \<Rightarrow> 'a res" where
  "decode_slot read zero skip tail i =
     (let start = 32 + word_of_nat i * 32 in
      if i64_of_u64 (start + 32) \<le> int (length tail)
      then rbind (slice (unat (start + skip)) (unat (start + 32)) tail) (\<lambda>b. Inr (read b))
      else Inr zero)"

definition decode_array ::
  "nat \<Rightarrow> (bytes \<Rightarrow> 'a) \<Rightarrow> 'a \<Rightarrow> u64 \<Rightarrow> bytes \<Rightarrow> u64 \<Rightarrow> 'a list res" where
  "decode_array esize read zero skip data offset =
     rbind (slice_from (unat offset) data) (\<lambda>tail.
       if 32 \<le> length tail
       then rbind (slice 0 32 tail) (\<lambda>w.
              let n = big_Uint64 (big_SetBytes w) in
              if make_slice_ok esize n
              then res_list (decode_slot read zero skip tail) [0..<unat n]
              else Inl MakeSliceOutOfRange)
       else Inr [])"

definition decodeConsentData :: "lib \<Rightarrow> bytes \<Rightarrow> ConsentData res" where
  "decodeConsentData L data =
     (if length data < 96
      then Inr \<lparr> cd_Parties = [], cd_Scopes = [], cd_ValidFrom = None, cd_ValidUntil = None,
                 cd_Revoked = False, cd_Exists = False \<rparr>
      else
        rbind (slice 0 32 data) (\<lambda>w0.
        rbind (slice 32 64 data) (\<lambda>w1.
        rbind (slice 64 96 data) (\<lambda>w2.
          let partiesOffset = big_Uint64 (big_SetBytes w0);
              scopesOffset = big_Uint64 (big_SetBytes w1);
              validFrom = Some (big_SetBytes w2);
              validUntil = (if 128 \<le> length data
                            then Some (big_SetBytes (take 32 (drop 96 data))) else None);
              revoked = (if 160 \<le> length data then data ! 128 \<noteq> 0 else False)
          in rbind (decode_array 20 (BytesToAddress L) zero_address 12 data partiesOffset) (\<lambda>parties.
             rbind (decode_array 32 (\<lambda>b. b) zero_hash 0 data scopesOffset) (\<lambda>scopes.
               Inr \<lparr> cd_Parties = parties, cd_Scopes = scopes, cd_ValidFrom = validFrom,
                     cd_ValidUntil = validUntil, cd_Revoked = revoked, cd_Exists = True \<rparr>))))))"

definition decodeBool :: "bytes \<Rightarrow> bool" where
  "decodeBool data = (if length data < 32 then False else 0 < big_SetBytes (take 32 data))"

definition decodeVerificationResult :: "bytes \<Rightarrow> bool \<times> int" where
  "decodeVerificationResult data =
     (if length data < 64 then (False, 0)
      else (0 < big_SetBytes (take 32 data), big_SetBytes (take 32 (drop 32 data))))"

section \<open>Scope names and words\<close>

definition scope_ok :: "string \<Rightarrow> bool" where
  "scope_ok s \<longleftrightarrow> length s \<le> 32 \<and> (s = [] \<or> last s \<noteq> CHR 0x00)"

lemma length_StringToBytes32 [simp, arr_simps]: "length (StringToBytes32 s) = 32"
  by (simp add: StringToBytes32_def Let_def)

lemma string_of_zero_bytes: "string_of_bytes (replicate n 0) = replicate n (CHR 0x00)"
  by (simp add: string_of_bytes_def char_of_def)

lemma Bytes32ToString_StringToBytes32:
  "Bytes32ToString (StringToBytes32 s) = trim_right_nul (take 32 s)"
  by (simp add: Bytes32ToString_def StringToBytes32_def Let_def string_of_zero_bytes min_def)

lemma trim_split: "\<exists>n. s = trim_right_nul s @ replicate n (CHR 0x00)"
proof -
  let ?z = "takeWhile (\<lambda>c. c = CHR 0x00) (rev s)"
  have "?z = replicate (length ?z) (CHR 0x00)"
    by (rule replicate_length_same [symmetric]) (auto dest: set_takeWhileD)
  then have "rev ?z = replicate (length ?z) (CHR 0x00)" by (metis rev_replicate)
  moreover have "s = trim_right_nul s @ rev ?z"
    unfolding trim_right_nul_def by (metis rev_append rev_rev_ident takeWhile_dropWhile_id)
  ultimately show ?thesis by metis
qed

lemma StringToBytes32_Bytes32ToString:
  assumes "length b = 32"
  shows "StringToBytes32 (Bytes32ToString b) = b"
proof -
  let ?t = "Bytes32ToString b"
  obtain n where n: "string_of_bytes b = ?t @ replicate n (CHR 0x00)"
    using trim_split [of "string_of_bytes b"] by (auto simp: Bytes32ToString_def)
  then have len: "length ?t + n = 32" using assms by (metis length_append length_replicate length_string_of_bytes)
  have "b = bytes_of_string ?t @ replicate n 0"
  proof -
    have "b = bytes_of_string (string_of_bytes b)" by simp
    also have "\<dots> = bytes_of_string ?t @ bytes_of_string (replicate n (CHR 0x00))"
      using n by (simp add: bytes_of_string_def)
    finally show ?thesis by (simp add: bytes_of_string_def)
  qed
  moreover have "StringToBytes32 ?t = bytes_of_string ?t @ replicate n 0"
    using len by (simp add: StringToBytes32_def Let_def min_def)
  ultimately show ?thesis by simp
qed

lemma scope_ok_Bytes32ToString: "length b = 32 \<Longrightarrow> scope_ok (Bytes32ToString b)"
proof -
  assume "length b = 32"
  obtain n where "string_of_bytes b = Bytes32ToString b @ replicate n (CHR 0x00)"
    using trim_split [of "string_of_bytes b"] by (auto simp: Bytes32ToString_def)
  then have "length (Bytes32ToString b) \<le> 32"
    using \<open>length b = 32\<close> by (metis le_add1 length_append length_string_of_bytes)
  then show ?thesis
    unfolding scope_ok_def Bytes32ToString_def using trim_right_nul_last_neq by blast
qed

interpretation scope_codec: canonical_codec StringToBytes32 "\<lambda>b. Some (Bytes32ToString b)" scope_ok
  "\<lambda>b. length b = 32"
proof
  show "scope_ok s \<Longrightarrow> Some (Bytes32ToString (StringToBytes32 s)) = Some s" for s
    by (simp add: Bytes32ToString_StringToBytes32 scope_ok_def trim_right_nul_last)
  show "scope_ok s \<Longrightarrow> length (StringToBytes32 s) = 32" for s by simp
  show "length b = 32 \<Longrightarrow> \<exists>s. scope_ok s \<and> Some (Bytes32ToString b) = Some s \<and> StringToBytes32 s = b" for b
    by (simp add: scope_ok_Bytes32ToString StringToBytes32_Bytes32ToString)
qed

interpretation uint_codec: canonical_codec "be_bytes 32" "\<lambda>b. Some (nat_of_be b)" "\<lambda>x. x < 256 ^ 32"
  "\<lambda>b. length b = 32"
proof
  show "x < 256 ^ 32 \<Longrightarrow> Some (nat_of_be (be_bytes 32 x)) = Some x" for x
    by (simp only: nat_of_be_be_bytes mod_less)
  show "length (be_bytes 32 x) = 32" for x by simp
  show "length b = 32 \<Longrightarrow> \<exists>x. x < 256 ^ 32 \<and> Some (nat_of_be b) = Some x \<and> be_bytes 32 x = b" for b
    using nat_of_be_less [of b] be_bytes_nat_of_be [of b] by (metis)
qed

end
