(* ===== verification/Abi_Layout.thy ===== *)
theory Abi_Layout
  imports Abi
begin

text \<open>
  What the hand-written encoder and decoder of contract data mean against the ABI's layout rules:
  a dynamic value is a 32-byte offset in the head and its length and elements in the tail. The
  layouts here are specifications; none of them is code of the repository.
\<close>

section \<open>Reading a layout\<close>

definition abi_word :: "bytes \<Rightarrow> nat \<Rightarrow> nat" where
  "abi_word args off = nat_of_be (take 32 (drop off args))"

definition abi_elem :: "bytes \<Rightarrow> nat \<Rightarrow> nat \<Rightarrow> bytes" where
  "abi_elem args off i = take 32 (drop (off + 32 + 32 * i) args)"

lemma length_concat_uniform: "list_all (\<lambda>x. length x = w) xs \<Longrightarrow> length (concat xs) = w * length xs"
  by (induction xs) simp_all

lemma take_drop_concat:
  "list_all (\<lambda>x. length x = w) xs \<Longrightarrow> i < length xs \<Longrightarrow> take w (drop (w * i) (concat xs @ r)) = xs ! i"
proof (induction xs arbitrary: i)
  case Nil
  then show ?case by simp
next
  case (Cons x xs)
  then show ?case by (cases i) simp_all
qed

lemma drop_prefix: "length p = k \<Longrightarrow> drop (k + n) (p @ s) = drop n s"
  by simp

lemma take_drop_prefix: "length p = k \<Longrightarrow> k \<le> off \<Longrightarrow> take n (drop off (p @ s)) = take n (drop (off - k) s)"
  by simp

lemma abi_word_here: "length p = off \<Longrightarrow> x < 256 ^ 32 \<Longrightarrow> abi_word (p @ be_bytes 32 x @ s) off = x"
  by (simp only: abi_word_def) simp

lemma length_pad_address [arr_simps]: "length p = 20 \<Longrightarrow> length (pad_address p) = 32"
  by (simp add: pad_address_def)

lemma pad_addresses_uniform:
  "list_all (\<lambda>p. length p = 20) ps \<Longrightarrow> list_all (\<lambda>x. length x = 32) (map pad_address ps)"
  by (induction ps) (simp_all add: length_pad_address)

lemma small_in_word: "x < 2 ^ 64 \<Longrightarrow> x < (256 :: nat) ^ 32"
proof -
  have "(2 :: nat) ^ 64 \<le> 256 ^ 32" by simp
  then show "x < 2 ^ 64 \<Longrightarrow> x < 256 ^ 32" by (rule order_less_le_trans [rotated])
qed

section \<open>The call data of a registration\<close>

text \<open>The arguments as laid out by the encoder: three head words, then both arrays.\<close>

definition register_args :: "address list \<Rightarrow> bytes list \<Rightarrow> nat \<Rightarrow> bytes" where
  "register_args parties scopes duration =
     be_bytes 32 96 @ be_bytes 32 (160 + 32 * length parties) @ be_bytes 32 duration @
     be_bytes 32 (length parties) @ concat (map pad_address parties) @
     be_bytes 32 (length scopes) @ concat scopes"

lemma word_of_u64_nat: "x < 2 ^ 63 \<Longrightarrow> word_of_u64 (word_of_nat x) = Inr (be_bytes 32 x)"
proof -
  assume x: "x < 2 ^ 63"
  have "unat (word_of_nat x :: u64) = x"
    using x by (simp add: unat_of_nat)
  then have "i64_of_u64 (word_of_nat x) = int x"
    using x by (simp only: i64_of_u64_small)
  moreover have "x < 256 ^ 32"
    using x by (intro small_in_word) simp
  ultimately show ?thesis
    by (simp only: word_of_u64_def big_FillBytes_nat)
qed

lemma encodeRegisterConsent_args:
  assumes "length parties < 2 ^ 32" "length scopes < 2 ^ 32" "0 \<le> duration" "duration < 256 ^ 32"
  shows "encodeRegisterConsent L parties scopes duration =
    Inr (Inr (selector L ''registerConsent(address[],bytes32[],uint256)'' @
              register_args parties scopes (nat duration)))"
proof -
  have w96: "word_of_u64 (32 + 32 + 32) = Inr (be_bytes 32 96)"
    using word_of_u64_nat [of 96] by simp
  have "(32 + 32 + 32 + 32 + word_of_nat (length parties * 32) + 32 :: u64) =
      word_of_nat (160 + 32 * length parties)"
    by simp
  then have woff: "word_of_u64 (32 + 32 + 32 + 32 + word_of_nat (length parties * 32) + 32) =
      Inr (be_bytes 32 (160 + 32 * length parties))"
    using assms(1) word_of_u64_nat [of "160 + 32 * length parties"] by (simp add: mult.commute)
  have dur: "big_FillBytes 32 duration = Inr (be_bytes 32 (nat duration))"
    using assms(3,4) by (simp add: big_FillBytes_def nat_less_iff)
  have cnt: "big_FillBytes 32 (int n) = Inr (be_bytes 32 n)" if "n < 2 ^ 32" for n
    using that by (intro big_FillBytes_nat small_in_word) simp
  show ?thesis
    unfolding encodeRegisterConsent_def Let_def register_args_def
    by (simp only: w96 woff dur cnt assms(1,2) rbind_simps)
qed

lemma register_args_words:
  assumes "length parties < 2 ^ 32" "duration < 256 ^ 32" "list_all (\<lambda>p. length p = 20) parties"
  shows "abi_word (register_args parties scopes duration) 0 = 96"
    "abi_word (register_args parties scopes duration) 32 = 160 + 32 * length parties"
    "abi_word (register_args parties scopes duration) 64 = duration"
    "abi_word (register_args parties scopes duration) 96 = length parties"
proof -
  note small = small_in_word [of 96] small_in_word [of "160 + 32 * length parties"]
    small_in_word [of "length parties"]
  show "abi_word (register_args parties scopes duration) 0 = 96"
    using small abi_word_here [of "[]" 0 96] by (simp add: register_args_def)
  show "abi_word (register_args parties scopes duration) 32 = 160 + 32 * length parties"
    using assms small abi_word_here [of "be_bytes 32 96" 32 "160 + 32 * length parties"]
    by (simp add: register_args_def)
  show "abi_word (register_args parties scopes duration) 64 = duration"
    using assms abi_word_here [of "be_bytes 32 96 @ be_bytes 32 (160 + 32 * length parties)" 64 duration]
    by (simp add: register_args_def)
  show "abi_word (register_args parties scopes duration) 96 = length parties"
    using assms small abi_word_here [of "be_bytes 32 96 @ be_bytes 32 (160 + 32 * length parties) @
      be_bytes 32 duration" 96 "length parties"]
    by (simp add: register_args_def)
qed

lemma register_args_party:
  assumes "list_all (\<lambda>p. length p = 20) parties" "i < length parties"
  shows "abi_elem (register_args parties scopes duration) 96 i = pad_address (parties ! i)"
proof -
  let ?head = "be_bytes 32 96 @ be_bytes 32 (160 + 32 * length parties) @ be_bytes 32 duration @
    be_bytes 32 (length parties)"
  let ?tail = "be_bytes 32 (length scopes) @ concat scopes"
  have "register_args parties scopes duration = ?head @ concat (map pad_address parties) @ ?tail"
    by (simp add: register_args_def)
  moreover have "drop (96 + 32 + 32 * i) (?head @ concat (map pad_address parties) @ ?tail) =
      drop (32 * i) (concat (map pad_address parties) @ ?tail)"
    using drop_prefix [of ?head 128 "32 * i"] by simp
  ultimately show ?thesis
    using take_drop_concat [OF pad_addresses_uniform [OF assms(1)], of i ?tail] assms(2)
    by (simp only: abi_elem_def length_map nth_map)
qed

lemma register_args_scopes:
  assumes "list_all (\<lambda>p. length p = 20) parties" "list_all (\<lambda>b. length b = 32) scopes"
    "length parties < 2 ^ 32" "length scopes < 2 ^ 32"
  shows "abi_word (register_args parties scopes duration) (128 + 32 * length parties) = length scopes"
    "scopes \<noteq> [] \<Longrightarrow>
     take 32 (drop (160 + 32 * length parties) (register_args parties scopes duration)) = hd scopes"
proof -
  let ?head = "be_bytes 32 96 @ be_bytes 32 (160 + 32 * length parties) @ be_bytes 32 duration @
    be_bytes 32 (length parties) @ concat (map pad_address parties)"
  have len: "length ?head = 128 + 32 * length parties"
    using length_concat_uniform [OF pad_addresses_uniform [OF assms(1)]] by simp
  have args: "register_args parties scopes duration =
      ?head @ be_bytes 32 (length scopes) @ concat scopes"
    by (simp add: register_args_def)
  show "abi_word (register_args parties scopes duration) (128 + 32 * length parties) = length scopes"
    unfolding args using len assms(4) by (intro abi_word_here small_in_word) simp_all
  assume "scopes \<noteq> []"
  then obtain b bs where sc: "scopes = b # bs" by (cases scopes) auto
  have "length (?head @ be_bytes 32 (length scopes)) = 160 + 32 * length parties"
    using len by simp
  then have "drop (160 + 32 * length parties) (register_args parties scopes duration) = concat scopes"
    unfolding args by (metis append.assoc append_eq_conv_conj)
  then show "take 32 (drop (160 + 32 * length parties) (register_args parties scopes duration)) = hd scopes"
    using assms(2) sc by simp
qed

section \<open>The tuple the decoder reads\<close>

text \<open>
  The flat tuple \<^verbatim>\<open>(address[], bytes32[], uint256, uint256, bool)\<close>: a head of five words, then
  both arrays. This is the layout the offsets and positions of \<open>decodeConsentData\<close> describe.
\<close>

definition consent_tuple :: "address list \<Rightarrow> bytes list \<Rightarrow> nat \<Rightarrow> nat \<Rightarrow> bool \<Rightarrow> bytes" where
  "consent_tuple parties scopes validFrom validUntil revoked =
     be_bytes 32 160 @ be_bytes 32 (192 + 32 * length parties) @ be_bytes 32 validFrom @
     be_bytes 32 validUntil @ be_bytes 32 (if revoked then 1 else 0) @
     be_bytes 32 (length parties) @ concat (map pad_address parties) @
     be_bytes 32 (length scopes) @ concat scopes"

text \<open>An array in a tail: its count and its padded elements, followed by anything.\<close>

lemma word_nat_small: "x < 2 ^ 64 \<Longrightarrow> unat (word_of_nat x :: u64) = x"
  by (simp add: unat_of_nat)

lemma decode_slot_elem:
  assumes "list_all (\<lambda>x. length x = 32) es" "i < length es" "length es < 2 ^ 40" "skip \<le> 32"
    "tail = be_bytes 32 (length es) @ concat es @ rest"
  shows "decode_slot read zero (word_of_nat skip) tail i = Inr (read (drop skip (es ! i)))"
proof -
  have i40: "i < 2 ^ 40" using assms(2,3) by simp
  have u1: "unat (32 + word_of_nat i * 32 + 32 :: u64) = 64 + 32 * i"
  proof -
    have "(32 + word_of_nat i * 32 + 32 :: u64) = word_of_nat (64 + 32 * i)" by (simp add: mult.commute)
    moreover have "64 + 32 * i < 2 ^ 64" using i40 by simp
    ultimately show ?thesis by (simp only: word_nat_small)
  qed
  have u2: "unat (32 + word_of_nat i * 32 + word_of_nat skip :: u64) = 32 + 32 * i + skip"
  proof -
    have "(32 + word_of_nat i * 32 + word_of_nat skip :: u64) = word_of_nat (32 + 32 * i + skip)"
      by (simp add: mult.commute)
    moreover have "32 + 32 * i + skip < 2 ^ 64" using i40 assms(4) by simp
    ultimately show ?thesis by (simp only: word_nat_small)
  qed
  have len: "64 + 32 * i \<le> length tail"
    using assms(2,5) length_concat_uniform [OF assms(1)] by simp
  have elem: "take 32 (drop (32 * i) (concat es @ rest)) = es ! i"
    using assms(1,2) by (rule take_drop_concat)
  have "slice (32 + 32 * i + skip) (64 + 32 * i) tail =
      Inr (take (32 - skip) (drop (32 + 32 * i + skip) tail))"
    using len assms(4) by simp
  also have "drop (32 + 32 * i + skip) tail = drop skip (drop (32 * i) (concat es @ rest))"
  proof -
    have "drop (32 + (32 * i + skip)) tail = drop (32 * i + skip) (concat es @ rest)"
      unfolding assms(5) by (rule drop_prefix) simp
    then show ?thesis by (simp only: drop_drop add.assoc add.commute [of skip])
  qed
  also have "take (32 - skip) \<dots> = drop skip (take 32 (drop (32 * i) (concat es @ rest)))"
    by (simp only: drop_take)
  finally have sl: "slice (32 + 32 * i + skip) (64 + 32 * i) tail = Inr (drop skip (es ! i))"
    by (simp only: elem)
  have "i64_of_u64 (32 + word_of_nat i * 32 + 32 :: u64) = int (64 + 32 * i)"
    using u1 i40 by (subst i64_of_u64_small) simp_all
  then show ?thesis
    using len by (simp only: decode_slot_def Let_def u1 u2 sl rbind_simps) simp
qed

lemma decode_array_elems:
  assumes "list_all (\<lambda>x. length x = 32) es" "length es < 2 ^ 40" "esize * length es \<le> 2 ^ 48" "skip \<le> 32"
    "unat offset = length pre" "data = pre @ be_bytes 32 (length es) @ concat es @ rest"
  shows "decode_array esize read zero (word_of_nat skip) data offset =
    Inr (map (\<lambda>e. read (drop skip e)) es)"
proof -
  let ?tail = "be_bytes 32 (length es) @ concat es @ rest"
  have fr: "slice_from (unat offset) data = Inr ?tail"
    using assms(5,6) by simp
  have head: "slice 0 32 ?tail = Inr (be_bytes 32 (length es))" and long: "32 \<le> length ?tail"
    by simp_all
  have "length es < 256 ^ 32" using assms(2) by (intro small_in_word) simp
  then have "unat (big_Uint64 (big_SetBytes (be_bytes 32 (length es)))) = unat (word_of_nat (length es) :: u64)"
    by (simp only: big_Uint64_SetBytes nat_of_be_be_bytes mod_less)
  also have "\<dots> = length es" using assms(2) by (intro word_nat_small) simp
  finally have n: "unat (big_Uint64 (big_SetBytes (be_bytes 32 (length es)))) = length es" .
  have "res_list (decode_slot read zero (word_of_nat skip) ?tail) [0..<length es] =
      Inr (map (\<lambda>i. read (drop skip (es ! i))) [0..<length es])"
  proof (rule res_list_Inr)
    fix i assume "i \<in> set [0..<length es]"
    then have "i < length es" by simp
    then show "decode_slot read zero (word_of_nat skip) ?tail i = Inr (read (drop skip (es ! i)))"
      using assms(1,2,4) by (intro decode_slot_elem [OF _ _ _ _ refl])
  qed
  also have "map (\<lambda>i. read (drop skip (es ! i))) [0..<length es] = map (\<lambda>e. read (drop skip e)) es"
    by (rule nth_equalityI) simp_all
  finally show ?thesis
    using assms(3) long
    by (simp only: decode_array_def make_slice_ok_def Let_def fr head n rbind_simps if_True)
qed

text \<open>The head of the tuple, seen as a prefix of its two arrays.\<close>

lemma tuple_parties_at:
  "consent_tuple parties scopes f u r =
     (be_bytes 32 160 @ be_bytes 32 (192 + 32 * length parties) @ be_bytes 32 f @ be_bytes 32 u @
      be_bytes 32 (if r then 1 else 0)) @
     be_bytes 32 (length (map pad_address parties)) @ concat (map pad_address parties) @
     (be_bytes 32 (length scopes) @ concat scopes)"
  by (simp add: consent_tuple_def)

lemma tuple_scopes_at:
  "consent_tuple parties scopes f u r =
     (be_bytes 32 160 @ be_bytes 32 (192 + 32 * length parties) @ be_bytes 32 f @ be_bytes 32 u @
      be_bytes 32 (if r then 1 else 0) @ be_bytes 32 (length parties) @ concat (map pad_address parties)) @
     be_bytes 32 (length scopes) @ concat scopes @ []"
  by (simp add: consent_tuple_def)

lemma tuple_head_word:
  assumes "length p = off" "data = p @ be_bytes 32 x @ s" "x < 256 ^ 32"
  shows "big_SetBytes (take 32 (drop off data)) = int x"
proof -
  have "take 32 (drop off data) = be_bytes 32 x" using assms(1,2) by simp
  then show ?thesis using assms(3) by (simp only: big_SetBytes_be_bytes)
qed

lemma be_bytes_top_zero: "x < 256 ^ n \<Longrightarrow> be_bytes (Suc n) x ! 0 = 0"
proof (induction n arbitrary: x)
  case 0
  then show ?case by simp
next
  case (Suc n)
  then have "x div 256 < 256 ^ n" by (simp add: less_mult_imp_div_less mult.commute)
  then have "be_bytes (Suc n) (x div 256) ! 0 = 0" by (rule Suc.IH)
  moreover have "be_bytes (Suc (Suc n)) x = be_bytes (Suc n) (x div 256) @ [word_of_nat (x mod 256)]"
    by (simp only: be_bytes.simps)
  ultimately show ?case by (simp only: nth_append length_be_bytes) simp
qed

lemma tuple_flag_byte: "consent_tuple parties scopes f u r ! 128 = 0"
proof -
  let ?p = "be_bytes 32 160 @ be_bytes 32 (192 + 32 * length parties) @ be_bytes 32 f @ be_bytes 32 u"
  let ?b = "be_bytes 32 (if r then 1 else 0)"
  let ?s = "be_bytes 32 (length parties) @ concat (map pad_address parties) @
        be_bytes 32 (length scopes) @ concat scopes"
  have "be_bytes (Suc 31) (if r then 1 else 0) ! 0 = 0"
    by (rule be_bytes_top_zero) simp
  then have top: "?b ! 0 = 0" by simp
  have "(?p @ ?b @ ?s) ! (length ?p + 0) = (?b @ ?s) ! 0" by (rule nth_append_length_plus)
  also have "\<dots> = 0" using top by (simp only: nth_append length_be_bytes) simp
  finally show ?thesis by (simp add: consent_tuple_def)
qed

lemma decode_parties:
  assumes "lib_bytes L" "list_all (\<lambda>p. length p = 20) parties" "length parties < 2 ^ 32"
  shows "decode_array 20 (BytesToAddress L) zero_address 12 (consent_tuple parties scopes f u r)
    (word_of_nat 160) = Inr parties"
proof -
  have "decode_array 20 (BytesToAddress L) zero_address (word_of_nat 12)
      (consent_tuple parties scopes f u r) (word_of_nat 160) =
      Inr (map (\<lambda>e. BytesToAddress L (drop 12 e)) (map pad_address parties))"
  proof (rule decode_array_elems [OF pad_addresses_uniform [OF assms(2)] _ _ _ _ tuple_parties_at])
    show "unat (word_of_nat 160 :: u64) = length (be_bytes 32 160 @ be_bytes 32 (192 + 32 * length parties) @
        be_bytes 32 f @ be_bytes 32 u @ be_bytes 32 (if r then 1 else 0))"
      by simp
  qed (use assms(3) in simp_all)
  also have "map (\<lambda>e. BytesToAddress L (drop 12 e)) (map pad_address parties) = parties"
    using assms(2) by (induction parties) (simp_all add: pad_address_def lib_bytesD [OF assms(1)])
  finally show ?thesis by simp
qed

lemma decode_scopes:
  assumes "list_all (\<lambda>p. length p = 20) parties" "length parties < 2 ^ 32"
    "list_all (\<lambda>b. length b = 32) scopes" "length scopes < 2 ^ 32"
  shows "decode_array 32 (\<lambda>b. b) zero_hash 0 (consent_tuple parties scopes f u r)
    (word_of_nat (192 + 32 * length parties)) = Inr scopes"
proof -
  have "decode_array 32 (\<lambda>b. b) zero_hash (word_of_nat 0) (consent_tuple parties scopes f u r)
      (word_of_nat (192 + 32 * length parties)) = Inr (map (\<lambda>e. drop 0 e) scopes)"
  proof (rule decode_array_elems [OF assms(3) _ _ _ _ tuple_scopes_at])
    have "unat (word_of_nat (192 + 32 * length parties) :: u64) = 192 + 32 * length parties"
      using assms(2) by (intro word_nat_small) simp
    then show "unat (word_of_nat (192 + 32 * length parties) :: u64) =
        length (be_bytes 32 160 @ be_bytes 32 (192 + 32 * length parties) @ be_bytes 32 f @ be_bytes 32 u @
          be_bytes 32 (if r then 1 else 0) @ be_bytes 32 (length parties) @ concat (map pad_address parties))"
      using length_concat_uniform [OF pad_addresses_uniform [OF assms(1)]] by simp
  qed (use assms(4) in simp_all)
  then show ?thesis by simp
qed

lemma decode_consent_tuple:
  assumes "lib_bytes L" "list_all (\<lambda>p. length p = 20) parties" "list_all (\<lambda>b. length b = 32) scopes"
    "length parties < 2 ^ 32" "length scopes < 2 ^ 32" "f < 256 ^ 32" "u < 256 ^ 32"
  shows "decodeConsentData L (consent_tuple parties scopes f u r) =
    Inr \<lparr> cd_Parties = parties, cd_Scopes = scopes, cd_ValidFrom = Some (int f),
          cd_ValidUntil = Some (int u), cd_Revoked = False, cd_Exists = True \<rparr>"
proof -
  let ?d = "consent_tuple parties scopes f u r"
  have len: "192 \<le> length ?d" by (simp add: consent_tuple_def)
  have w: "slice 0 32 ?d = Inr (take 32 (drop 0 ?d))" "slice 32 64 ?d = Inr (take 32 (drop 32 ?d))"
    "slice 64 96 ?d = Inr (take 32 (drop 64 ?d))"
    using len by simp_all
  have h0: "big_SetBytes (take 32 (drop 0 ?d)) = int 160"
    using tuple_head_word [of "[]" 0 ?d 160] by (simp add: consent_tuple_def)
  have "192 + 32 * length parties < 2 ^ 64" using assms(4) by simp
  then have off: "192 + 32 * length parties < 256 ^ 32" by (rule small_in_word)
  have h1: "big_SetBytes (take 32 (drop 32 ?d)) = int (192 + 32 * length parties)"
    by (rule tuple_head_word [of "be_bytes 32 160", OF _ _ off]) (simp_all add: consent_tuple_def)
  have h2: "big_SetBytes (take 32 (drop 64 ?d)) = int f"
    by (rule tuple_head_word [of "be_bytes 32 160 @ be_bytes 32 (192 + 32 * length parties)", OF _ _ assms(6)])
      (simp_all add: consent_tuple_def)
  have h3: "big_SetBytes (take 32 (drop 96 ?d)) = int u"
    by (rule tuple_head_word [of "be_bytes 32 160 @ be_bytes 32 (192 + 32 * length parties) @ be_bytes 32 f",
        OF _ _ assms(7)])
      (simp_all add: consent_tuple_def)
  have o: "big_Uint64 (int n) = word_of_nat n" for n by (simp add: big_Uint64_def)
  show ?thesis
    using len
    by (simp only: decodeConsentData_def Let_def w rbind_simps h0 h1 h2 h3 o
        decode_parties [OF assms(1,2,4)] decode_scopes [OF assms(2,4,3,5)] tuple_flag_byte) simp
qed

section \<open>What the registry contract returns\<close>

text \<open>
  \<^verbatim>\<open>ConsentRegistry.getConsent\<close> returns \<^verbatim>\<open>ConsentLib.Consent memory\<close>, a struct with dynamic
  members: the data begins with the offset of the struct, 32, and the struct begins with the
  32-byte consent id; \<open>rest\<close> stands for the struct's other words.
\<close>

definition contract_return :: "bytes \<Rightarrow> bytes \<Rightarrow> bytes" where
  "contract_return consentId rest = be_bytes 32 32 @ consentId @ rest"

lemma decode_array_beyond:
  "length data < unat offset \<Longrightarrow> decode_array esize read zero skip data offset = Inl SliceOutOfRange"
  by (simp add: decode_array_def slice_from_def)

lemma decode_contract_return:
  assumes "length consentId = 32" "32 \<le> length rest"
    "64 + length rest < nat_of_be consentId mod 2 ^ 64"
  shows "\<exists>p. decodeConsentData L (contract_return consentId rest) = Inl p"
proof -
  let ?d = "contract_return consentId rest"
  have len: "length ?d = 64 + length rest" using assms(1) by (simp add: contract_return_def)
  have w: "slice 0 32 ?d = Inr (be_bytes 32 32)" "slice 32 64 ?d = Inr consentId"
    "slice 64 96 ?d = Inr (take 32 rest)"
    using assms(1,2) by (simp_all add: contract_return_def)
  have "unat (big_Uint64 (big_SetBytes consentId)) = nat_of_be consentId mod 2 ^ 64"
    by (simp add: big_Uint64_SetBytes unat_of_nat)
  then have "decode_array 32 (\<lambda>b. b) zero_hash 0 ?d (big_Uint64 (big_SetBytes consentId)) =
      Inl SliceOutOfRange"
    using assms(3) len by (intro decode_array_beyond) simp
  moreover have "\<not> length ?d < 96" using len assms(2) by simp
  ultimately show ?thesis
    by (simp only: decodeConsentData_def Let_def w rbind_simps if_False)
      (cases "decode_array 20 (BytesToAddress L) zero_address 12 ?d (big_Uint64 (big_SetBytes (be_bytes 32 32)))";
       simp)
qed

end
