(* ===== verification/Contracts.thy ===== *)
theory Contracts
  imports Abi_Layout
begin

text \<open>
  The contract client of \<^verbatim>\<open>backend/go-api/internal/contracts/client.go\<close>: what it asks of the node
  for each operation, in the order it asks, and what it returns. It holds no state of its own: the
  node's answers are the argument \<open>net\<close>.
\<close>

section \<open>The client\<close>

record client =
  cl_conn :: conn
  cl_chain :: string
  cl_address :: address

definition NewClient :: "conn \<Rightarrow> string \<Rightarrow> address \<Rightarrow> client" where
  "NewClient c chain contractAddr = \<lparr> cl_conn = c, cl_chain = chain, cl_address = contractAddr \<rparr>"

definition DefaultGasLimit :: u64 where
  "DefaultGasLimit = 300000"

definition TxTimeout :: int where
  "TxTimeout = 120 * 1000000000"

text \<open>The error every prepared transaction is returned with.\<close>

definition needs_signing :: "lib \<Rightarrow> hash \<Rightarrow> goerr" where
  "needs_signing L txHash = ''transaction requires external signing, hash: '' @ HashHex L txHash"

text \<open>
  \<^verbatim>\<open>RegisterConsent\<close> and \<^verbatim>\<open>RevokeConsent\<close> return a hash, its text and an error that is never nil.
\<close>

definition RegisterConsent ::
  "lib \<Rightarrow> rpc \<Rightarrow> client \<Rightarrow> address list \<Rightarrow> bytes list \<Rightarrow> int \<Rightarrow> (hash \<times> string \<times> goerr) res" where
  "RegisterConsent L net c parties scopes duration =
     rbind (encodeRegisterConsent L parties scopes duration) (\<lambda>r. case r of
       Inl e \<Rightarrow> Inr (zero_hash, '''', ''failed to encode register consent: '' @ e)
     | Inr data \<Rightarrow>
         (case SuggestGasPrice net (cl_conn c) of
            Inl e \<Rightarrow> Inr (zero_hash, '''', ''failed to suggest gas price: '' @ e)
          | Inr gasPrice \<Rightarrow>
              (let callMsg = \<lparr> cm_To = cl_address c, cm_Data = data, cm_Gas = 0,
                               cm_GasPrice = Some gasPrice \<rparr>;
                   gasLimit = (case EstimateGas net (cl_conn c) callMsg of
                                 Inl e \<Rightarrow> DefaultGasLimit | Inr g \<Rightarrow> g)
               in case NonceAt net (cl_conn c) zero_address of
                    Inl e \<Rightarrow> Inr (zero_hash, '''', ''failed to get nonce: '' @ e)
                  | Inr nonce \<Rightarrow>
                      (case ChainID net (cl_conn c) of
                         Inl e \<Rightarrow> Inr (zero_hash, '''', ''failed to get chain ID: '' @ e)
                       | Inr chainID \<Rightarrow>
                           (let tx = \<lparr> tx_Nonce = nonce, tx_To = cl_address c, tx_Value = 0,
                                       tx_Gas = gasLimit, tx_GasPrice = gasPrice, tx_Data = data \<rparr>;
                                txHash = SignerHash L chainID tx
                            in Inr (txHash, HashHex L txHash, needs_signing L txHash))))))"

definition GetConsent :: "lib \<Rightarrow> rpc \<Rightarrow> client \<Rightarrow> bytes \<Rightarrow> (goerr + ConsentData) res" where
  "GetConsent L net c consentID =
     (case encodeGetConsent L consentID of
        Inl e \<Rightarrow> Inr (Inl (''failed to encode get consent: '' @ e))
      | Inr data \<Rightarrow>
          (case CallContract net (cl_conn c)
                  \<lparr> cm_To = cl_address c, cm_Data = data, cm_Gas = 0, cm_GasPrice = None \<rparr> of
             Inl e \<Rightarrow> Inr (Inl (''failed to call contract: '' @ e))
           | Inr result \<Rightarrow> rbind (decodeConsentData L result) (\<lambda>d. Inr (Inr d))))"

definition RevokeConsent ::
  "lib \<Rightarrow> rpc \<Rightarrow> client \<Rightarrow> bytes \<Rightarrow> hash \<times> string \<times> goerr" where
  "RevokeConsent L net c consentID =
     (case encodeRevokeConsent L consentID of
        Inl e \<Rightarrow> (zero_hash, '''', ''failed to encode revoke consent: '' @ e)
      | Inr data \<Rightarrow>
          (case SuggestGasPrice net (cl_conn c) of
             Inl e \<Rightarrow> (zero_hash, '''', ''failed to suggest gas price: '' @ e)
           | Inr gasPrice \<Rightarrow>
               (let callMsg = \<lparr> cm_To = cl_address c, cm_Data = data, cm_Gas = 0,
                                cm_GasPrice = Some gasPrice \<rparr>;
                    gasLimit = (case EstimateGas net (cl_conn c) callMsg of
                                  Inl e \<Rightarrow> DefaultGasLimit | Inr g \<Rightarrow> g)
                in case NonceAt net (cl_conn c) zero_address of
                     Inl e \<Rightarrow> (zero_hash, '''', ''failed to get nonce: '' @ e)
                   | Inr nonce \<Rightarrow>
                       (case ChainID net (cl_conn c) of
                          Inl e \<Rightarrow> (zero_hash, '''', ''failed to get chain ID: '' @ e)
                        | Inr chainID \<Rightarrow>
                            (let tx = \<lparr> tx_Nonce = nonce, tx_To = cl_address c, tx_Value = 0,
                                        tx_Gas = gasLimit, tx_GasPrice = gasPrice, tx_Data = data \<rparr>;
                                 txHash = SignerHash L chainID tx
                             in (txHash, HashHex L txHash, needs_signing L txHash))))))"

definition ConsentExists :: "lib \<Rightarrow> rpc \<Rightarrow> client \<Rightarrow> bytes \<Rightarrow> goerr + bool" where
  "ConsentExists L net c consentID =
     (case encodeConsentExists L consentID of
        Inl e \<Rightarrow> Inl (''failed to encode consent exists: '' @ e)
      | Inr data \<Rightarrow>
          (case CallContract net (cl_conn c)
                  \<lparr> cm_To = cl_address c, cm_Data = data, cm_Gas = 0, cm_GasPrice = None \<rparr> of
             Inl e \<Rightarrow> Inl (''failed to call contract: '' @ e)
           | Inr result \<Rightarrow> Inr (decodeBool result)))"

text \<open>On an error the expiry returned with it is a nil pointer, which the caller checks for.\<close>

definition VerifyConsentOnChain :: "lib \<Rightarrow> rpc \<Rightarrow> client \<Rightarrow> bytes \<Rightarrow> goerr + (bool \<times> int)" where
  "VerifyConsentOnChain L net c consentID =
     (case encodeVerifyConsent L consentID of
        Inl e \<Rightarrow> Inl (''failed to encode verify consent: '' @ e)
      | Inr data \<Rightarrow>
          (case CallContract net (cl_conn c)
                  \<lparr> cm_To = cl_address c, cm_Data = data, cm_Gas = 0, cm_GasPrice = None \<rparr> of
             Inl e \<Rightarrow> Inl (''failed to call contract: '' @ e)
           | Inr result \<Rightarrow> Inr (decodeVerificationResult result)))"

section \<open>Prepared, never sent\<close>

text \<open>
  The handlers treat an error whose text contains \<^verbatim>\<open>requires external signing\<close> as success. A
  prepared transaction carries it; a failing step carries it only when the node's own error text
  does.
\<close>

definition signing_error :: "goerr \<Rightarrow> bool" where
  "signing_error e = strings_Contains e ''requires external signing''"

text \<open>The node answers each of the four preparatory calls.\<close>

definition node_ready :: "rpc \<Rightarrow> conn \<Rightarrow> bool" where
  "node_ready net c \<longleftrightarrow>
     (\<exists>g. SuggestGasPrice net c = Inr g) \<and> (\<exists>n. NonceAt net c zero_address = Inr n) \<and>
     (\<exists>i. ChainID net c = Inr i)"

lemma needs_signing_error [simp]: "signing_error (needs_signing L h)"
proof -
  have "needs_signing L h = ''transaction '' @ ''requires external signing'' @ '', hash: '' @ HashHex L h"
    by (simp add: needs_signing_def)
  then show ?thesis by (simp only: signing_error_def Contains_infix)
qed

text \<open>
  The transaction a preparation is about, as a specification: a nonce and a gas price, to the contract,
  no value, and the gas the node estimates for the call, or 300000 when it cannot. The nonce is that
  of the zero address and the price the one the node suggests.
\<close>

definition unsigned_call :: "rpc \<Rightarrow> client \<Rightarrow> u64 \<Rightarrow> int \<Rightarrow> bytes \<Rightarrow> legacy_tx" where
  "unsigned_call net c nonce price data =
     \<lparr> tx_Nonce = nonce, tx_To = cl_address c, tx_Value = 0,
       tx_Gas = (case EstimateGas net (cl_conn c)
           \<lparr> cm_To = cl_address c, cm_Data = data, cm_Gas = 0, cm_GasPrice = Some price \<rparr> of
         Inl e \<Rightarrow> 300000 | Inr g \<Rightarrow> g),
       tx_GasPrice = price, tx_Data = data \<rparr>"

definition prepares :: "rpc \<Rightarrow> client \<Rightarrow> bytes \<Rightarrow> int \<Rightarrow> legacy_tx \<Rightarrow> bool" where
  "prepares net c data chainID tx \<longleftrightarrow>
     (\<exists>nonce price. ChainID net (cl_conn c) = Inr chainID \<and> NonceAt net (cl_conn c) zero_address = Inr nonce \<and>
        SuggestGasPrice net (cl_conn c) = Inr price \<and> tx = unsigned_call net c nonce price data)"

lemma node_ready_prepares:
  assumes "node_ready net (cl_conn c)"
  obtains chainID tx where "prepares net c data chainID tx"
  using assms by (auto simp: node_ready_def prepares_def)

text \<open>The node's answers determine it.\<close>

lemma prepares_unique:
  assumes "prepares net c data chainID tx"
  shows "prepares net c data chainID' tx' \<longleftrightarrow> chainID' = chainID \<and> tx' = tx"
  using assms by (auto simp: prepares_def)

definition register_data :: "lib \<Rightarrow> address list \<Rightarrow> bytes list \<Rightarrow> nat \<Rightarrow> bytes" where
  "register_data L parties scopes duration =
     selector L ''registerConsent(address[],bytes32[],uint256)'' @ register_args parties scopes duration"

definition revoke_data :: "lib \<Rightarrow> bytes \<Rightarrow> bytes" where
  "revoke_data L consentID = selector L ''revokeConsent(bytes32)'' @ consentID"

lemma unsigned_call_default:
  "unsigned_call net c nonce price data =
     \<lparr> tx_Nonce = nonce, tx_To = cl_address c, tx_Value = 0,
       tx_Gas = (case EstimateGas net (cl_conn c)
           \<lparr> cm_To = cl_address c, cm_Data = data, cm_Gas = 0, cm_GasPrice = Some price \<rparr> of
         Inl e \<Rightarrow> DefaultGasLimit | Inr g \<Rightarrow> g),
       tx_GasPrice = price, tx_Data = data \<rparr>"
  by (simp add: unsigned_call_def DefaultGasLimit_def cong: sum.case_cong)

lemma RevokeConsent_prepares:
  assumes "prepares net c (revoke_data L i) chainID tx"
  shows "RevokeConsent L net c i =
    (SignerHash L chainID tx, HashHex L (SignerHash L chainID tx), needs_signing L (SignerHash L chainID tx))"
  using assms
  by (auto simp: RevokeConsent_def encodeRevokeConsent_def revoke_data_def Let_def prepares_def unsigned_call_default)

lemma RegisterConsent_prepares:
  assumes "prepares net c (register_data L parties scopes (nat duration)) chainID tx"
    and "length parties < 2 ^ 32" "length scopes < 2 ^ 32" "0 \<le> duration" "duration < 256 ^ 32"
  shows "RegisterConsent L net c parties scopes duration = Inr
    (SignerHash L chainID tx, HashHex L (SignerHash L chainID tx), needs_signing L (SignerHash L chainID tx))"
  using assms(1)
  by (auto simp: RegisterConsent_def encodeRegisterConsent_args [OF assms(2-5)] register_data_def Let_def
      prepares_def unsigned_call_default)

end
