(* ===== verification/Handlers.thy ===== *)
theory Handlers
  imports Middleware Contracts
begin

text \<open>
  The endpoints of the API, \<^verbatim>\<open>backend/go-api/internal/api/handler.go\<close> and
  \<^verbatim>\<open>consent_handler.go\<close>. A handler is a computation on the state of the server that ends with one
  response; it asks the node, the vector store, the cache and the proof service in the order of
  the code. What it logs besides \<^verbatim>\<open>RequestLogger\<close> is left out.
\<close>

section \<open>The handler and its surroundings\<close>

record ('q, 'r) Handler =
  h_cfg :: Config
  h_qdrant :: "'q qdrant_client"
  h_redis :: "'r redis_srv option"
  h_privateKey :: "bytes option"

definition NewHandler ::
  "(string \<Rightarrow> bytes option) \<Rightarrow> Config \<Rightarrow> 'q qdrant_client \<Rightarrow> 'r redis_srv option \<Rightarrow> ('q, 'r) Handler"
where
  "NewHandler hexToECDSA cfg qdrant redis =
     \<lparr> h_cfg = cfg, h_qdrant = qdrant, h_redis = redis,
       h_privateKey = (let keyHex = JWTSecret cfg in
          if 64 \<le> length keyHex then hexToECDSA (take 64 keyHex) else None) \<rparr>"

text \<open>One exchange with the proof service, and where it failed if it did.\<close>

datatype http_outcome =
    NotCreated goerr
  | CallFailed goerr
  | ReadFailed goerr
  | Answered int string "json option"

text \<open>
  What a request finds outside the program: the libraries, the node, the proof service, the clock
  (\<^verbatim>\<open>Unix\<close> and \<^verbatim>\<open>UnixNano\<close>), a fresh UUID, and the text of the decoder's error, if there is one.
\<close>

record world =
  w_lib :: lib
  w_net :: rpc
  w_http :: "string \<Rightarrow> json \<Rightarrow> http_outcome"
  w_unix :: int
  w_nano :: int
  w_uuid :: point_id
  w_bindError :: goerr
  w_parseError :: goerr

definition on_clients :: "(clients, 'a) go \<Rightarrow> (('q, 'r) api_state, 'a) go" where
  "on_clients = gzoom as_clients (\<lambda>t s. s\<lparr>as_clients := t\<rparr>)"

definition on_qdrant :: "('q, 'a) go \<Rightarrow> (('q, 'r) api_state, 'a) go" where
  "on_qdrant = gzoom as_qdrant (\<lambda>t s. s\<lparr>as_qdrant := t\<rparr>)"

definition on_redis :: "('r, 'a) go \<Rightarrow> (('q, 'r) api_state, 'a) go" where
  "on_redis = gzoom as_redis (\<lambda>t s. s\<lparr>as_redis := t\<rparr>)"

definition handleError :: "int \<Rightarrow> string \<Rightarrow> goerr \<Rightarrow> ('s, response) go" where
  "handleError status msg err = gret (error_body status msg err)"

definition getContractClient ::
  "lib \<Rightarrow> rpc \<Rightarrow> Config \<Rightarrow> string \<Rightarrow> (('q, 'r) api_state, goerr + client) go" where
  "getContractClient L net cfg chain =
     gbind (on_clients (GetClient L (Chains cfg) net chain)) (\<lambda>r. case r of
       Inl e \<Rightarrow> gret (Inl e)
     | Inr conn \<Rightarrow>
         (case GetRegistryAddress L (Chains cfg) chain of
            Inl e \<Rightarrow> gret (Inl e)
          | Inr addr \<Rightarrow> gret (Inr (NewClient conn chain addr))))"

definition validateChain :: "lib \<Rightarrow> Config \<Rightarrow> string \<Rightarrow> goerr option" where
  "validateChain L cfg chain =
     (if \<not> IsChainSupported L (Chains cfg) chain then Some (unsupported chain) else None)"

definition generateConsentID :: "world \<Rightarrow> string list \<Rightarrow> string list \<Rightarrow> string" where
  "generateConsentID w parties scopes =
     (let input = strings_Join parties '','' @ ''|'' @ strings_Join scopes '','' @ ''|'' @
                  show_int (w_nano w)
      in HashHex (w_lib w) (Keccak256 (w_lib w) (bytes_of_string input)))"

text \<open>A byte over 256 is exact as a \<^verbatim>\<open>float32\<close>.\<close>

definition generateEmbedding :: "string \<Rightarrow> string list \<Rightarrow> string list \<Rightarrow> rat list" where
  "generateEmbedding consentID parties scopes =
     (let input = consentID @ strings_Join parties '' '' @ strings_Join scopes '' ''
      in map (\<lambda>c. of_nat (of_char c) / 256) (take 384 input) @ replicate (384 - length input) 0)"

definition createConsentCache ::
  "string \<Rightarrow> string \<Rightarrow> string \<Rightarrow> string list \<Rightarrow> string list \<Rightarrow> u64 \<Rightarrow> u64 \<Rightarrow> u64 \<Rightarrow> bool \<Rightarrow> ConsentCache" where
  "createConsentCache consentID chain txHash parties scopes validFrom validUntil createdAt revoked =
     \<lparr> cc_ConsentID = consentID, cc_Parties = parties, cc_Scopes = scopes, cc_ValidFrom = validFrom,
       cc_ValidUntil = validUntil, cc_Revoked = revoked, cc_Chain = chain, cc_TxHash = txHash,
       cc_CreatedAt = createdAt \<rparr>"

definition toConsentResponse :: "ConsentCache \<Rightarrow> ConsentResponse" where
  "toConsentResponse c =
     \<lparr> co_ConsentID = cc_ConsentID c, co_Parties = cc_Parties c, co_Scopes = cc_Scopes c,
       co_ValidFrom = cc_ValidFrom c, co_ValidUntil = cc_ValidUntil c, co_Revoked = cc_Revoked c,
       co_Chain = cc_Chain c, co_TxHash = cc_TxHash c, co_CreatedAt = cc_CreatedAt c \<rparr>"

definition doc_response :: "ConsentDocument \<Rightarrow> ConsentResponse" where
  "doc_response d =
     \<lparr> co_ConsentID = qd_ConsentID d, co_Parties = qd_Parties d, co_Scopes = qd_Scopes d,
       co_ValidFrom = qd_ValidFrom d, co_ValidUntil = qd_ValidUntil d, co_Revoked = qd_Revoked d,
       co_Chain = qd_Chain d, co_TxHash = qd_TxHash d, co_CreatedAt = qd_CreatedAt d \<rparr>"

definition bytesToAddresses :: "lib \<Rightarrow> string list \<Rightarrow> address list" where
  "bytesToAddresses L addrs = map (HexToAddress L) addrs"

definition addressesToStrings :: "lib \<Rightarrow> address list \<Rightarrow> string list" where
  "addressesToStrings L addrs = map (\<lambda>a. strings_ToLower (unicode_lower L) (AddressHex L a)) addrs"

definition scopesToBytes32 :: "string list \<Rightarrow> bytes list" where
  "scopesToBytes32 scopes = map StringToBytes32 scopes"

definition bigIntPtr :: "u64 \<Rightarrow> int" where
  "bigIntPtr v = int (unat v)"

text \<open>The first party that is not an address, with its index.\<close>

fun bad_party :: "lib \<Rightarrow> nat \<Rightarrow> string list \<Rightarrow> (nat \<times> string) option" where
  "bad_party L i [] = None"
| "bad_party L i (p # ps) = (if \<not> IsHexAddress L p then Some (i, p) else bad_party L (Suc i) ps)"

definition day :: int where "day = 24 * 3600 * 1000000000"
definition five_minutes :: int where "five_minutes = 5 * 60 * 1000000000"

section \<open>Creating a consent\<close>

text \<open>From the moment the registration is prepared.\<close>

definition store_consent ::
  "('q, 'r) Handler \<Rightarrow> world \<Rightarrow> CreateConsentRequest \<Rightarrow> string \<Rightarrow> string \<Rightarrow> ('q, 'r) chain_rest" where
  "store_consent h w req consentID txHashStr =
     (let now = word_of_int (w_unix w) :: u64;
          validUntil = now + cr_Duration req;
          qdrantDoc = \<lparr> qd_ConsentID = consentID, qd_Parties = cr_Parties req,
                        qd_Scopes = cr_Scopes req, qd_ValidFrom = now, qd_ValidUntil = validUntil,
                        qd_Revoked = False, qd_Chain = cr_Chain req, qd_TxHash = txHashStr,
                        qd_CreatedAt = now,
                        qd_Embedding = generateEmbedding consentID (cr_Parties req) (cr_Scopes req) \<rparr>;
          cache = createConsentCache consentID (cr_Chain req) txHashStr (cr_Parties req)
                    (cr_Scopes req) now validUntil now False
      in gbind (on_qdrant (IndexConsent (h_qdrant h) [] (w_uuid w) qdrantDoc)) (\<lambda>_.
         gbind (on_redis (CacheConsent (h_redis h) cache day)) (\<lambda>_.
           gret (201, CreateBody \<lparr> cp_ConsentID = consentID, cp_Chain = cr_Chain req,
                                   cp_TxHash = txHashStr, cp_Status = ''pending'' \<rparr>))))"

definition CreateConsent ::
  "('q, 'r) Handler \<Rightarrow> world \<Rightarrow> request \<Rightarrow> ('q, 'r) chain_rest" where
  "CreateConsent h w rq =
     (case bind_create (rq_Body rq) of
        None \<Rightarrow> handleError 400 ''invalid request body'' (w_bindError w)
      | Some req \<Rightarrow>
          if length (cr_Parties req) < 2
          then handleError 400 ''minimum 2 parties required''
                 (''got '' @ show_nat (length (cr_Parties req)) @ '' parties'')
          else if length (cr_Scopes req) < 1
          then handleError 400 ''minimum 1 scope required''
                 (''got '' @ show_nat (length (cr_Scopes req)) @ '' scopes'')
          else if cr_Duration req = 0
          then handleError 400 ''duration must be greater than 0''
                 (''duration: '' @ show_nat (unat (cr_Duration req)))
          else
            (case validateChain (w_lib w) (h_cfg h) (cr_Chain req) of
               Some e \<Rightarrow> handleError 400 ''invalid chain'' e
             | None \<Rightarrow>
            (case bad_party (w_lib w) 0 (cr_Parties req) of
               Some (i, party) \<Rightarrow>
                 handleError 400 (''invalid party address at index '' @ show_nat i)
                   (''invalid address: '' @ party)
             | None \<Rightarrow>
                 (let consentID = generateConsentID w (cr_Parties req) (cr_Scopes req) in
                  gbind (getContractClient (w_lib w) (w_net w) (h_cfg h) (cr_Chain req)) (\<lambda>cl. case cl of
                    Inl e \<Rightarrow> handleError 500 ''failed to get contract client'' e
                  | Inr contractCli \<Rightarrow>
                      gbind (glift (RegisterConsent (w_lib w) (w_net w) contractCli
                               (bytesToAddresses (w_lib w) (cr_Parties req))
                               (scopesToBytes32 (cr_Scopes req)) (bigIntPtr (cr_Duration req))))
                        (\<lambda>(txHash, txHashStr, err).
                           if \<not> signing_error err
                           then handleError 500 ''failed to register consent on chain'' err
                           else store_consent h w req consentID txHashStr))))))"

section \<open>Reading a consent\<close>

text \<open>A nil \<^verbatim>\<open>*big.Int\<close> panics in \<^verbatim>\<open>Uint64\<close>.\<close>

definition deref_Uint64 :: "int option \<Rightarrow> ('s, u64) go" where
  "deref_Uint64 p = (case p of None \<Rightarrow> gpanic NilDereference | Some x \<Rightarrow> gret (big_Uint64 x))"

definition not_found :: response where
  "not_found = error_body 404 ''consent not found'' ''''"

definition fetched_consent ::
  "('q, 'r) Handler \<Rightarrow> world \<Rightarrow> string \<Rightarrow> string \<Rightarrow> ConsentData \<Rightarrow> ('q, 'r) chain_rest" where
  "fetched_consent h w chain consentID d =
     (let parties = addressesToStrings (w_lib w) (cd_Parties d);
          scopes = map (\<lambda>s. trim_right_nul (string_of_bytes s)) (cd_Scopes d)
      in gbind (deref_Uint64 (cd_ValidFrom d)) (\<lambda>validFrom.
         gbind (deref_Uint64 (cd_ValidUntil d)) (\<lambda>validUntil.
           let response = \<lparr> co_ConsentID = consentID, co_Parties = parties, co_Scopes = scopes,
                            co_ValidFrom = validFrom, co_ValidUntil = validUntil,
                            co_Revoked = cd_Revoked d, co_Chain = chain, co_TxHash = '''',
                            co_CreatedAt = validFrom \<rparr>;
               cacheEntry = createConsentCache consentID chain '''' parties scopes validFrom
                              validUntil validFrom (cd_Revoked d)
           in gbind (on_redis (CacheConsent (h_redis h) cacheEntry five_minutes)) (\<lambda>_.
              gret (200, ConsentBody response)))))"

definition GetConsent_handler ::
  "('q, 'r) Handler \<Rightarrow> world \<Rightarrow> request \<Rightarrow> ('q, 'r) chain_rest" where
  "GetConsent_handler h w rq =
     (let consentID = rq_Param rq ''id'';
          chain = (if rq_Query rq ''chain'' = '''' then ''sepolia'' else rq_Query rq ''chain'')
      in if consentID = '''' then handleError 400 ''consent id is required'' ''missing consent id''
         else
           (case validateChain (w_lib w) (h_cfg h) chain of
              Some e \<Rightarrow> handleError 400 ''invalid chain'' e
            | None \<Rightarrow>
                gbind (on_redis (GetCachedConsent (h_redis h) chain consentID)) (\<lambda>c. case c of
                  Inr (Some hit) \<Rightarrow> gret (200, ConsentBody (toConsentResponse hit))
                | _ \<Rightarrow>
                    gbind (getContractClient (w_lib w) (w_net w) (h_cfg h) chain) (\<lambda>cl. case cl of
                      Inl e \<Rightarrow> handleError 500 ''failed to get contract client'' e
                    | Inr contractCli \<Rightarrow>
                        gbind (glift (GetConsent (w_lib w) (w_net w) contractCli
                                        (HexToHash (w_lib w) consentID))) (\<lambda>r. case r of
                          Inl e \<Rightarrow> handleError 500 ''failed to fetch consent from chain'' e
                        | Inr d \<Rightarrow>
                            if \<not> cd_Exists d then gret not_found
                            else fetched_consent h w chain consentID d)))))"

section \<open>The proof service\<close>

text \<open>
  A \<^verbatim>\<open>map[string]string\<close> is marshalled with its keys in order; strings always marshal. The text of
  a parse error is the decoder's.
\<close>

definition string_map_json :: "(string \<times> string) list \<Rightarrow> json" where
  "string_map_json kvs = JObj (map (\<lambda>(k, v). (k, json_string v)) kvs)"

record ZKProofResult =
  zk_Proof :: string
  zk_ProofType :: string
  zk_PublicInputs :: "string list"

definition set_zk :: "string \<Rightarrow> json \<Rightarrow> ZKProofResult \<Rightarrow> ZKProofResult option" where
  "set_zk k v r =
     (if names_field ''proof'' k then map_option (\<lambda>x. r\<lparr>zk_Proof := x\<rparr>) (set_string v (zk_Proof r))
      else if names_field ''proof_type'' k
      then map_option (\<lambda>x. r\<lparr>zk_ProofType := x\<rparr>) (set_string v (zk_ProofType r))
      else if names_field ''public_inputs'' k
      then map_option (\<lambda>x. r\<lparr>zk_PublicInputs := x\<rparr>) (set_strings v (zk_PublicInputs r))
      else Some r)"

definition set_valid :: "string \<Rightarrow> json \<Rightarrow> bool \<Rightarrow> bool option" where
  "set_valid k v b = (if names_field ''valid'' k then set_bool v b else Some b)"

definition parse_response :: "(json \<Rightarrow> 'a option) \<Rightarrow> json option \<Rightarrow> 'a option" where
  "parse_response f body = (case body of None \<Rightarrow> None | Some j \<Rightarrow> f j)"

definition callZKProofService ::
  "Config \<Rightarrow> world \<Rightarrow> string \<Rightarrow> string \<Rightarrow> string \<Rightarrow> goerr + ZKProofResult" where
  "callZKProofService cfg w consentID proofType chain =
     (let body = string_map_json
                   [(''chain'', chain), (''consent_id'', consentID), (''proof_type'', proofType)]
      in case w_http w (RustZKURL cfg @ ''/api/v1/prove'') body of
           NotCreated e \<Rightarrow> Inl (''failed to create proof request: '' @ e)
         | CallFailed e \<Rightarrow> Inl (''failed to call ZK proof service: '' @ e)
         | ReadFailed e \<Rightarrow> Inl (''failed to read proof response: '' @ e)
         | Answered status txt tree \<Rightarrow>
             if status \<noteq> 200
             then Inl (''ZK proof service returned status '' @ show_int status @ '': '' @ txt)
             else (case parse_response
                     (json_Unmarshal set_zk \<lparr> zk_Proof = '''', zk_ProofType = '''', zk_PublicInputs = [] \<rparr>)
                     tree of
                     None \<Rightarrow> Inl (''failed to parse proof response: '' @ w_parseError w)
                   | Some r \<Rightarrow> Inr r))"

definition verifyZKProof :: "Config \<Rightarrow> world \<Rightarrow> VerifyConsentRequest \<Rightarrow> goerr + bool" where
  "verifyZKProof cfg w req =
     (let body = string_map_json
                   [(''chain'', vr_Chain req), (''consent_id'', vr_ConsentID req),
                    (''proof'', vr_Proof req), (''proof_type'', vr_ProofType req)]
      in case w_http w (RustZKURL cfg @ ''/api/v1/verify'') body of
           NotCreated e \<Rightarrow> Inl (''failed to create verify request: '' @ e)
         | CallFailed e \<Rightarrow> Inl (''failed to call ZK verify service: '' @ e)
         | ReadFailed e \<Rightarrow> Inl (''failed to read verify response: '' @ e)
         | Answered status txt tree \<Rightarrow>
             if status \<noteq> 200
             then Inl (''ZK verify service returned status '' @ show_int status @ '': '' @ txt)
             else (case parse_response (json_Unmarshal set_valid False) tree of
                     None \<Rightarrow> Inl (''failed to parse verify response: '' @ w_parseError w)
                   | Some b \<Rightarrow> Inr b))"

section \<open>Verifying a consent\<close>

definition expires_Uint64 :: "goerr + (bool \<times> int) \<Rightarrow> u64" where
  "expires_Uint64 r = (case r of Inl e \<Rightarrow> 0 | Inr (valid, expiresAt) \<Rightarrow> big_Uint64 expiresAt)"

definition verify_body :: "bool \<Rightarrow> u64 \<Rightarrow> string \<Rightarrow> response" where
  "verify_body valid expiresAt verifiedBy =
     (200, VerifyBody \<lparr> vp_Valid = valid, vp_ExpiresAt = expiresAt, vp_VerifiedBy = verifiedBy \<rparr>)"

text \<open>With a proof: the service decides, the chain only supplies the expiry.\<close>

definition verify_with_proof ::
  "('q, 'r) Handler \<Rightarrow> world \<Rightarrow> VerifyConsentRequest \<Rightarrow> ('q, 'r) chain_rest" where
  "verify_with_proof h w req =
     (case verifyZKProof (h_cfg h) w req of
        Inl e \<Rightarrow> handleError 500 ''failed to verify ZK proof'' e
      | Inr valid \<Rightarrow>
          gbind (getContractClient (w_lib w) (w_net w) (h_cfg h) (vr_Chain req)) (\<lambda>cl. case cl of
            Inl e \<Rightarrow> handleError 500 ''failed to get contract client'' e
          | Inr contractCli \<Rightarrow>
              gret (verify_body valid
                (expires_Uint64 (VerifyConsentOnChain (w_lib w) (w_net w) contractCli
                   (HexToHash (w_lib w) (vr_ConsentID req)))) ''zk-proof'')))"

text \<open>Without one: the contract decides, then the clock, then the cached revocation.\<close>

definition verify_on_chain ::
  "('q, 'r) Handler \<Rightarrow> world \<Rightarrow> VerifyConsentRequest \<Rightarrow> ('q, 'r) chain_rest" where
  "verify_on_chain h w req =
     gbind (getContractClient (w_lib w) (w_net w) (h_cfg h) (vr_Chain req)) (\<lambda>cl. case cl of
       Inl e \<Rightarrow> handleError 500 ''failed to get contract client'' e
     | Inr contractCli \<Rightarrow>
         (let r = VerifyConsentOnChain (w_lib w) (w_net w) contractCli
                    (HexToHash (w_lib w) (vr_ConsentID req))
          in case r of
               Inl e \<Rightarrow> handleError 500 ''failed to verify consent on chain'' e
             | Inr (valid0, expiresAt) \<Rightarrow>
                 (let expiresAtUint = expires_Uint64 r;
                      valid = (if i64_of_u64 expiresAtUint < w_unix w then False else valid0)
                  in if valid
                     then gbind (on_redis (GetCachedConsent (h_redis h) (vr_Chain req) (vr_ConsentID req)))
                            (\<lambda>c. gret (verify_body
                               (case c of Inr (Some hit) \<Rightarrow> \<not> cc_Revoked hit | _ \<Rightarrow> True)
                               expiresAtUint ''on-chain''))
                     else gret (verify_body False expiresAtUint ''on-chain''))))"

definition VerifyConsent ::
  "('q, 'r) Handler \<Rightarrow> world \<Rightarrow> request \<Rightarrow> ('q, 'r) chain_rest" where
  "VerifyConsent h w rq =
     (let consentID = rq_Param rq ''id'' in
      if consentID = '''' then handleError 400 ''consent id is required'' ''missing consent id''
      else
        (case bind_verify (rq_Body rq) of
           None \<Rightarrow> handleError 400 ''invalid request body'' (w_bindError w)
         | Some req0 \<Rightarrow>
             (let req = req0\<lparr>vr_ConsentID := consentID\<rparr> in
              case validateChain (w_lib w) (h_cfg h) (vr_Chain req) of
                Some e \<Rightarrow> handleError 400 ''invalid chain'' e
              | None \<Rightarrow>
                  if vr_Proof req \<noteq> '''' then verify_with_proof h w req
                  else verify_on_chain h w req)))"

section \<open>Revoking a consent\<close>

definition revoke_stored ::
  "('q, 'r) Handler \<Rightarrow> RevokeConsentRequest \<Rightarrow> string \<Rightarrow> ('q, 'r) chain_rest" where
  "revoke_stored h req txHashStr =
     gbind (on_qdrant (UpdateConsentRevoked (h_qdrant h) [] (rr_ConsentID req) True)) (\<lambda>_.
     gbind (on_redis (InvalidateConsent (h_redis h) (rr_Chain req) (rr_ConsentID req))) (\<lambda>_.
       gret (200, RevokedBody txHashStr True)))"

definition RevokeConsent_handler ::
  "('q, 'r) Handler \<Rightarrow> world \<Rightarrow> request \<Rightarrow> ('q, 'r) chain_rest" where
  "RevokeConsent_handler h w rq =
     (let consentID = rq_Param rq ''id'' in
      if consentID = '''' then handleError 400 ''consent id is required'' ''missing consent id''
      else
        (case bind_revoke (rq_Body rq) of
           None \<Rightarrow> handleError 400 ''invalid request body'' (w_bindError w)
         | Some req0 \<Rightarrow>
             (let req = req0\<lparr>rr_ConsentID := consentID\<rparr> in
              case validateChain (w_lib w) (h_cfg h) (rr_Chain req) of
                Some e \<Rightarrow> handleError 400 ''invalid chain'' e
              | None \<Rightarrow>
                  gbind (getContractClient (w_lib w) (w_net w) (h_cfg h) (rr_Chain req)) (\<lambda>cl. case cl of
                    Inl e \<Rightarrow> handleError 500 ''failed to get contract client'' e
                  | Inr contractCli \<Rightarrow>
                      (case RevokeConsent (w_lib w) (w_net w) contractCli
                              (HexToHash (w_lib w) (rr_ConsentID req)) of
                         (txHash, txHashStr, err) \<Rightarrow>
                           if \<not> signing_error err
                           then handleError 500 ''failed to revoke consent on chain'' err
                           else revoke_stored h req txHashStr)))))"

section \<open>Proofs, searches and chains\<close>

definition GenerateProof ::
  "('q, 'r) Handler \<Rightarrow> world \<Rightarrow> request \<Rightarrow> ('q, 'r) chain_rest" where
  "GenerateProof h w rq =
     (let consentID = rq_Param rq ''id'' in
      if consentID = '''' then handleError 400 ''consent id is required'' ''missing consent id''
      else
        (case bind_generate (rq_Body rq) of
           None \<Rightarrow> handleError 400 ''invalid request body'' (w_bindError w)
         | Some req0 \<Rightarrow>
             (let req = req0\<lparr>gr_ConsentID := consentID\<rparr> in
              case validateChain (w_lib w) (h_cfg h) (gr_Chain req) of
                Some e \<Rightarrow> handleError 400 ''invalid chain'' e
              | None \<Rightarrow>
                  gbind (getContractClient (w_lib w) (w_net w) (h_cfg h) (gr_Chain req)) (\<lambda>cl. case cl of
                    Inl e \<Rightarrow> handleError 500 ''failed to get contract client'' e
                  | Inr contractCli \<Rightarrow>
                      gbind (glift (GetConsent (w_lib w) (w_net w) contractCli
                                      (HexToHash (w_lib w) (gr_ConsentID req)))) (\<lambda>r. case r of
                        Inl e \<Rightarrow> handleError 500 ''failed to get consent data'' e
                      | Inr d \<Rightarrow>
                          if \<not> cd_Exists d then gret not_found
                          else
                            (case callZKProofService (h_cfg h) w (gr_ConsentID req)
                                    (gr_ProofType req) (gr_Chain req) of
                               Inl e \<Rightarrow> handleError 500 ''failed to generate proof'' e
                             | Inr p \<Rightarrow>
                                 gret (200, ProofBody \<lparr> gp_Proof = zk_Proof p,
                                         gp_ProofType = gr_ProofType req,
                                         gp_PublicInputs = zk_PublicInputs p \<rparr>)))))))"

definition search_body :: "ConsentResponse list \<Rightarrow> int \<Rightarrow> int \<Rightarrow> response" where
  "search_body results page pageSize =
     (200, SearchBody \<lparr> sr_Results = results, sr_Total = int (length results), sr_Page = page,
                        sr_PageSize = pageSize \<rparr>)"

definition GetPartyConsents ::
  "('q, 'r) Handler \<Rightarrow> world \<Rightarrow> request \<Rightarrow> ('q, 'r) chain_rest" where
  "GetPartyConsents h w rq =
     (let addr = rq_Param rq ''addr'' in
      if addr = '''' \<or> \<not> IsHexAddress (w_lib w) addr
      then handleError 400 ''valid address is required'' (''invalid address: '' @ addr)
      else gbind (on_qdrant (GetConsentsByParty (h_qdrant h) []
                    (strings_ToLower (unicode_lower (w_lib w)) addr))) (\<lambda>r.
             let results = (case r of Inl e \<Rightarrow> [] | Inr docs \<Rightarrow> map doc_response docs)
             in gret (search_body results 1 (int (length results)))))"

definition search_page :: "string \<Rightarrow> int" where
  "search_page pageStr = (case strconv_Atoi pageStr of Some p \<Rightarrow> if 0 < p then p else 1 | None \<Rightarrow> 1)"

definition search_limit :: "string \<Rightarrow> int" where
  "search_limit limitStr =
     (case strconv_Atoi limitStr of Some l \<Rightarrow> if 0 < l \<and> l \<le> 100 then l else 20 | None \<Rightarrow> 20)"

definition SearchConsents ::
  "('q, 'r) Handler \<Rightarrow> world \<Rightarrow> request \<Rightarrow> ('q, 'r) chain_rest" where
  "SearchConsents h w rq =
     (let page = search_page (rq_Query rq ''page'');
          limit = search_limit (rq_Query rq ''limit'');
          searchParams = \<lparr> se_Query = rq_Query rq ''q'', se_Chain = rq_Query rq ''chain'',
                           se_Party = rq_Query rq ''party'', se_Scope = rq_Query rq ''scope'',
                           se_Limit = limit, se_Offset = i64 ((page - 1) * limit) \<rparr>
      in gbind (on_qdrant (Search (h_qdrant h) [] searchParams)) (\<lambda>r. case r of
           Inl e \<Rightarrow> gret (200, SearchBody \<lparr> sr_Results = [], sr_Total = 0, sr_Page = page,
                                            sr_PageSize = limit \<rparr>)
         | Inr docs \<Rightarrow> gret (search_body (map doc_response docs) page limit)))"

text \<open>The loop of \<^verbatim>\<open>GetChains\<close>, one chain after the other.\<close>

fun chain_statuses ::
  "lib \<Rightarrow> rpc \<Rightarrow> Config \<Rightarrow> string list \<Rightarrow> (clients, ChainInfo list) go" where
  "chain_statuses L net cfg [] = gret []"
| "chain_statuses L net cfg (name # names) =
     gbind (GetChainStatus L (Chains cfg) net name) (\<lambda>r.
     gbind (chain_statuses L net cfg names) (\<lambda>rest.
       gret ((case r of Inl e \<Rightarrow> not_ready name | Inr status \<Rightarrow> status) # rest)))"

definition GetChains ::
  "('q, 'r) Handler \<Rightarrow> world \<Rightarrow> request \<Rightarrow> ('q, 'r) chain_rest" where
  "GetChains h w rq =
     gbind (on_clients (chain_statuses (w_lib w) (w_net w) (h_cfg h)
              [''sepolia'', ''bsc-testnet'', ''amoy'', ''palm-testnet'', ''base-sepolia'']))
       (\<lambda>chains. gret (200, ChainsBody chains))"

definition GetChainStatus_handler ::
  "('q, 'r) Handler \<Rightarrow> world \<Rightarrow> request \<Rightarrow> ('q, 'r) chain_rest" where
  "GetChainStatus_handler h w rq =
     (let chain = rq_Param rq ''chain'' in
      if chain = '''' then handleError 400 ''chain parameter is required'' ''missing chain''
      else
        (case validateChain (w_lib w) (h_cfg h) chain of
           Some e \<Rightarrow> handleError 400 ''unsupported chain'' e
         | None \<Rightarrow>
             gbind (on_clients (GetChainStatus (w_lib w) (Chains (h_cfg h)) (w_net w) chain)) (\<lambda>r. case r of
               Inl e \<Rightarrow> handleError 500 ''failed to get chain status'' e
             | Inr status \<Rightarrow> gret (200, ChainBody status))))"

definition CloseChainClients :: "(('q, 'r) api_state, conn set) go" where
  "CloseChainClients = on_clients CloseAll"

end
