(* ===== verification/Handler_Facts.thy ===== *)
theory Handler_Facts
  imports Handlers
begin

text \<open>
  Facts the properties of the endpoints share: how the parts of the state are reached, what an
  endpoint leaves alone, and what the client table and the preparation of transactions contribute.
\<close>

section \<open>Running on a part of the state\<close>

lemma on_clients_apply [go_simps]:
  "m (as_clients s) = (r, t) \<Longrightarrow> on_clients m s = (r, s\<lparr>as_clients := t\<rparr>)"
  by (simp add: on_clients_def gzoom_def)

lemma on_qdrant_apply [go_simps]:
  "m (as_qdrant s) = (r, t) \<Longrightarrow> on_qdrant m s = (r, s\<lparr>as_qdrant := t\<rparr>)"
  by (simp add: on_qdrant_def gzoom_def)

lemma on_redis_apply [go_simps]:
  "m (as_redis s) = (r, t) \<Longrightarrow> on_redis m s = (r, s\<lparr>as_redis := t\<rparr>)"
  by (simp add: on_redis_def gzoom_def)

lemma gbind_cases:
  assumes "gbind m f s = (r, s')"
  obtains p where "m s = (Inl p, s')" "r = Inl p"
  | x s1 where "m s = (Inr x, s1)" "f x s1 = (r, s')"
  using assms by (cases "m s") (auto simp: gbind_def split: sum.splits)

lemma on_redis_cases:
  assumes "on_redis m s = (r, s')"
  obtains t where "m (as_redis s) = (r, t)" "s' = s\<lparr>as_redis := t\<rparr>"
  using assms by (cases "m (as_redis s)") (simp add: on_redis_apply)

lemma on_qdrant_cases:
  assumes "on_qdrant m s = (r, s')"
  obtains t where "m (as_qdrant s) = (r, t)" "s' = s\<lparr>as_qdrant := t\<rparr>"
  using assms by (cases "m (as_qdrant s)") (simp add: on_qdrant_apply)

lemma on_clients_cases:
  assumes "on_clients m s = (r, s')"
  obtains t where "m (as_clients s) = (r, t)" "s' = s\<lparr>as_clients := t\<rparr>"
  using assms by (cases "m (as_clients s)") (simp add: on_clients_apply)

section \<open>What an endpoint leaves alone\<close>

text \<open>The parts of the state that belong to the middlewares.\<close>

definition outside :: "('q, 'r) api_state \<Rightarrow> RateLimiter \<times> (string \<times> string) list \<times> log_entry list" where
  "outside s = (as_limiter s, as_headers s, as_log s)"

definition keeps :: "(('q, 'r) api_state, 'a) go \<Rightarrow> bool" where
  "keeps m \<longleftrightarrow> (\<forall>s. outside (snd (m s)) = outside s)"

named_theorems keeps_intros "computations that leave the middlewares' state alone"

lemma keeps_gret [keeps_intros]: "keeps (gret x)"
  by (simp add: keeps_def)

lemma keeps_gpanic [keeps_intros]: "keeps (gpanic p)"
  by (simp add: keeps_def)

lemma keeps_glift [keeps_intros]: "keeps (glift r)"
  by (simp add: keeps_def)

lemma keeps_gbind [keeps_intros]:
  assumes "keeps m" "\<And>x. keeps (f x)"
  shows "keeps (gbind m f)"
  unfolding keeps_def
proof
  fix s
  show "outside (snd (gbind m f s)) = outside s"
  proof (cases "m s")
    case (Pair r s1)
    then have "outside s1 = outside s" using assms(1) by (metis keeps_def snd_conv)
    with Pair assms(2) show ?thesis by (cases r) (simp_all add: keeps_def)
  qed
qed

lemma keeps_on [keeps_intros]: "keeps (on_clients m)" "keeps (on_qdrant m')" "keeps (on_redis m'')"
  by (simp_all add: keeps_def outside_def on_clients_def on_qdrant_def on_redis_def gzoom_def split_beta)

lemma keeps_handleError [keeps_intros]: "keeps (handleError status msg err)"
  by (simp add: handleError_def keeps_gret)

lemma keeps_if [keeps_intros]: "keeps m \<Longrightarrow> keeps m' \<Longrightarrow> keeps (if b then m else m')"
  by simp

lemma keeps_option [keeps_intros]:
  "keeps m \<Longrightarrow> (\<And>x. keeps (f x)) \<Longrightarrow> keeps (case v of None \<Rightarrow> m | Some x \<Rightarrow> f x)"
  by (cases v) simp_all

lemma keeps_sum [keeps_intros]:
  "(\<And>x. keeps (f x)) \<Longrightarrow> (\<And>x. keeps (g x)) \<Longrightarrow> keeps (case v of Inl x \<Rightarrow> f x | Inr x \<Rightarrow> g x)"
  by (cases v) simp_all

lemma keeps_prod [keeps_intros]: "(\<And>x y. keeps (f x y)) \<Longrightarrow> keeps (case v of (x, y) \<Rightarrow> f x y)"
  by (cases v) simp

lemma keeps_getContractClient [keeps_intros]: "keeps (getContractClient L net cfg chain)"
  unfolding getContractClient_def by (intro keeps_intros)

lemma keeps_handlers [keeps_intros]:
  "keeps (CreateConsent h w rq)" "keeps (GetConsent_handler h w rq)" "keeps (VerifyConsent h w rq)"
  "keeps (RevokeConsent_handler h w rq)" "keeps (GenerateProof h w rq)"
  "keeps (GetPartyConsents h w rq)" "keeps (SearchConsents h w rq)" "keeps (GetChains h w rq)"
  "keeps (GetChainStatus_handler h w rq)"
  unfolding CreateConsent_def store_consent_def GetConsent_handler_def fetched_consent_def
    deref_Uint64_def VerifyConsent_def verify_with_proof_def verify_on_chain_def
    RevokeConsent_handler_def revoke_stored_def GenerateProof_def GetPartyConsents_def
    SearchConsents_def GetChains_def GetChainStatus_handler_def Let_def
  by (intro keeps_intros)+

section \<open>The contract client\<close>

lemma validateChain_iff: "validateChain L cfg chain = None \<longleftrightarrow> canon_chain L chain \<noteq> None"
  by (simp add: validateChain_def supported_iff)

lemma getContractClient_frame:
  assumes "getContractClient L net cfg chain s = (r, s')"
  shows "\<exists>t. s' = s\<lparr>as_clients := t\<rparr>" "\<exists>x. r = Inr x"
proof -
  have "\<exists>t. s' = s\<lparr>as_clients := t\<rparr> \<and> (\<exists>x. r = Inr x)"
  proof (cases rule: GetClient_cases [of L "Chains cfg" net chain "as_clients s"])
    case (1 e)
    with assms show ?thesis
      by (intro exI [of _ "as_clients s"]) (auto simp: getContractClient_def on_clients_apply gbind_def)
  next
    case (2 c)
    with assms show ?thesis
      by (auto simp: getContractClient_def on_clients_apply gbind_def split: sum.splits)
  qed
  then show "\<exists>t. s' = s\<lparr>as_clients := t\<rparr>" "\<exists>x. r = Inr x" by blast+
qed

text \<open>A chain the manager has a client for, with its registry configured.\<close>

definition chain_ready :: "lib \<Rightarrow> rpc \<Rightarrow> Config \<Rightarrow> string \<Rightarrow> clients \<Rightarrow> conn \<Rightarrow> address \<Rightarrow> bool" where
  "chain_ready L net cfg chain cl conn addr \<longleftrightarrow>
     fst (GetClient L (Chains cfg) net chain cl) = Inr (Inr conn) \<and>
     GetRegistryAddress L (Chains cfg) chain = Inr addr"

lemma getContractClient_ready:
  assumes "chain_ready L net cfg chain (as_clients s) conn addr"
  shows "\<exists>t. getContractClient L net cfg chain s =
    (Inr (Inr (NewClient conn chain addr)), s\<lparr>as_clients := t\<rparr>)"
proof -
  obtain t where "GetClient L (Chains cfg) net chain (as_clients s) = (Inr (Inr conn), t)"
    using assms by (metis chain_ready_def prod.collapse)
  with assms show ?thesis
    by (auto simp: getContractClient_def on_clients_apply gbind_def chain_ready_def)
qed

end
