(* ===== verification/Limiter.thy ===== *)
theory Limiter
  imports Middleware
begin

text \<open>
  What the rate limiter guarantees, float rounding included: buckets stay between empty and full,
  a client is granted at most the burst plus the refill of the elapsed time, and a client that has
  waited a second is granted.
\<close>

section \<open>The error of a rounding\<close>

lemma rne_le: "of_int (rne y) \<le> y + 1 / 2"
proof -
  have "of_int \<lfloor>y\<rfloor> \<le> y" by simp
  then show ?thesis by (auto simp: rne_def Let_def) linarith+
qed

text \<open>Half a unit is at most 2^-53 of the number.\<close>

definition delta :: rat where
  "delta = 1 / 2 ^ 53"

lemma fl64_le:
  assumes "0 \<le> x"
  shows "fl64 x \<le> x * (1 + delta)"
proof (cases "x = 0")
  case False
  with assms have x: "0 < x" by simp
  let ?u = "(2 :: rat) powi (expo x - 52)"
  have "of_int (rne (x / ?u)) * ?u \<le> (x / ?u + 1 / 2) * ?u"
    by (intro mult_right_mono rne_le) simp
  also have "\<dots> = x + ?u / 2" by (simp add: field_simps)
  also have "?u / 2 = 2 powi expo x * delta"
    by (simp add: delta_def power_int_diff)
  also have "x + 2 powi expo x * delta \<le> x + x * delta"
    using expo_bounds [OF x] by (simp add: delta_def)
  finally show ?thesis by (simp add: fl64_pos [OF x] algebra_simps)
qed simp

section \<open>The invariant\<close>

definition bucket_ok :: "RateLimiter \<Rightarrow> TokenBucket \<Rightarrow> bool" where
  "bucket_ok rl b \<longleftrightarrow>
     0 \<le> tb_tokens b \<and> tb_tokens b \<le> of_int (rl_burst rl) \<and>
     tb_capacity b = of_int (rl_burst rl) \<and> tb_rate b = of_int (rl_rate rl)"

definition limiter_ok :: "RateLimiter \<Rightarrow> bool" where
  "limiter_ok rl \<longleftrightarrow>
     0 \<le> rl_rate rl \<and> rl_rate rl < 2 ^ 53 \<and> 0 \<le> rl_burst rl \<and> rl_burst rl < 2 ^ 53 \<and>
     (\<forall>key b. rl_buckets rl key = Some b \<longrightarrow> bucket_ok rl b)"

text \<open>The clock has not gone back since any bucket was checked.\<close>

definition clock_ok :: "int \<Rightarrow> RateLimiter \<Rightarrow> bool" where
  "clock_ok now rl \<longleftrightarrow> 0 \<le> now \<and> (\<forall>key b. rl_buckets rl key = Some b \<longrightarrow> tb_lastCheck b \<le> now)"

lemma fl64_of_int: "0 \<le> n \<Longrightarrow> n < 2 ^ 53 \<Longrightarrow> fl64 (of_int n) = of_int n"
proof -
  assume n: "0 \<le> n" "n < 2 ^ 53"
  then have "nat n < 2 ^ 53" by (simp add: nat_less_iff)
  from fl64_of_nat [OF this] n(1) show ?thesis by simp
qed

lemma new_bucket_ok: "limiter_ok rl \<Longrightarrow> bucket_ok rl (new_bucket rl)"
  by (simp add: limiter_ok_def bucket_ok_def new_bucket_def fl64_of_int)

lemma Seconds_nonneg: "0 \<le> d \<Longrightarrow> 0 \<le> duration_Seconds d"
  unfolding duration_Seconds_def Let_def
  by (intro fl64_nonneg add_nonneg_nonneg divide_nonneg_nonneg)
     (auto simp: sgn_if intro!: mult_nonneg_nonneg div_int_pos_iff [THEN iffD2])

lemma refill_ok:
  assumes "bucket_ok rl b" "tb_lastCheck b \<le> now" "limiter_ok rl"
  shows "bucket_ok rl (refill now b)"
proof -
  have "0 \<le> duration_Seconds (time_Sub now (tb_lastCheck b))"
    using assms(2) by (intro Seconds_nonneg) (simp add: time_Sub_def max_def min_def)
  then have "0 \<le> fl64 (tb_tokens b + fl64 (duration_Seconds (time_Sub now (tb_lastCheck b)) * tb_rate b))"
    using assms(1,3) by (intro fl64_nonneg add_nonneg_nonneg mult_nonneg_nonneg)
      (simp_all add: bucket_ok_def limiter_ok_def)
  with assms show ?thesis
    by (auto simp: bucket_ok_def refill_def Let_def limiter_ok_def)
qed

definition bucket_of :: "string \<Rightarrow> RateLimiter \<Rightarrow> TokenBucket" where
  "bucket_of key rl = (case rl_buckets rl key of Some b \<Rightarrow> b | None \<Rightarrow> new_bucket rl)"

lemma bucket_of_ok:
  "limiter_ok rl \<Longrightarrow> bucket_ok rl (bucket_of key rl)"
  "clock_ok now rl \<Longrightarrow> tb_lastCheck (bucket_of key rl) \<le> now"
  by (auto simp: bucket_of_def limiter_ok_def clock_ok_def new_bucket_ok [unfolded limiter_ok_def]
      split: option.split) (simp add: new_bucket_def)

definition taken :: "TokenBucket \<Rightarrow> TokenBucket" where
  "taken b = (if 1 \<le> tb_tokens b then b\<lparr>tb_tokens := fl64 (tb_tokens b - 1)\<rparr> else b)"

lemma Allow_taken:
  "Allow key now rl =
     (1 \<le> tb_tokens (refill now (bucket_of key rl)),
      rl\<lparr>rl_buckets := (rl_buckets rl)(key \<mapsto> taken (refill now (bucket_of key rl)))\<rparr>)"
  by (simp add: Allow_def bucket_of_def taken_def Let_def)

lemma taken_ok:
  assumes "bucket_ok rl b" "limiter_ok rl"
  shows "bucket_ok rl (taken b)"
proof (cases "1 \<le> tb_tokens b")
  case True
  then have "0 \<le> fl64 (tb_tokens b - 1)" by (intro fl64_nonneg) simp
  moreover have "fl64 (tb_tokens b - 1) \<le> fl64 (of_int (rl_burst rl))"
    using True assms(1) by (intro fl64_mono) (simp_all add: bucket_ok_def)
  ultimately show ?thesis
    using assms True by (simp add: bucket_ok_def taken_def limiter_ok_def fl64_of_int)
qed (use assms in \<open>simp add: taken_def\<close>)

lemma Allow_ok:
  assumes "limiter_ok rl" "clock_ok now rl"
  shows "limiter_ok (snd (Allow key now rl)) \<and> clock_ok now (snd (Allow key now rl))"
proof -
  have "bucket_ok rl (taken (refill now (bucket_of key rl)))"
    using assms bucket_of_ok by (intro taken_ok refill_ok) auto
  moreover have "tb_lastCheck (taken (refill now (bucket_of key rl))) = now"
    by (simp add: taken_def refill_def Let_def)
  ultimately show ?thesis
    using assms by (auto simp: Allow_taken limiter_ok_def clock_ok_def bucket_ok_def)
qed

lemma limiter_ok_New: "0 \<le> rate \<Longrightarrow> rate < 2 ^ 53 \<Longrightarrow> 0 \<le> burst \<Longrightarrow> burst < 2 ^ 53 \<Longrightarrow>
    limiter_ok (NewRateLimiter rate burst)"
  by (simp add: limiter_ok_def NewRateLimiter_def)

section \<open>How fast a bucket fills\<close>

lemma delta_pos [simp]: "0 < delta" "0 \<le> delta"
  by (simp_all add: delta_def)

lemma round_up:
  assumes "0 \<le> x" "x \<le> y * (1 + delta) ^ k"
  shows "fl64 x \<le> y * (1 + delta) ^ Suc k"
proof -
  have "fl64 x \<le> x * (1 + delta)" by (rule fl64_le [OF assms(1)])
  also have "\<dots> \<le> y * (1 + delta) ^ k * (1 + delta)"
    using assms(2) by (rule mult_right_mono) (simp add: add_nonneg_nonneg)
  finally show ?thesis by (simp add: ac_simps)
qed

lemma Seconds_le:
  assumes "0 \<le> d"
  shows "duration_Seconds d \<le> of_int d / 1000000000 * (1 + delta) ^ 3"
proof -
  define s n where "s = d div 1000000000" and "n = d mod 1000000000"
  have sn: "0 \<le> s" "0 \<le> n" "d = s * 1000000000 + n"
    using assms by (simp_all add: s_def n_def pos_imp_zdiv_nonneg_iff)
  then have d: "(of_int d :: rat) / 1000000000 = of_int s + of_int n / 1000000000"
    by (simp add: add_divide_distrib)
  have e: "duration_Seconds d = fl64 (fl64 (of_int s) + fl64 (fl64 (of_int n) / 1000000000))"
    using assms by (cases "d = 0") (simp_all add: duration_Seconds_def Let_def s_def n_def)
  have p: "0 \<le> fl64 (of_int s)" "0 \<le> fl64 (fl64 (of_int n) / 1000000000)"
    using sn by (simp_all add: fl64_nonneg)
  have "fl64 (of_int s) \<le> of_int s * (1 + delta) ^ Suc 0"
    using sn by (intro round_up) simp_all
  also have "\<dots> \<le> of_int s * (1 + delta) ^ 2"
    using sn by (intro mult_left_mono power_increasing) simp_all
  finally have 1: "fl64 (of_int s) \<le> of_int s * (1 + delta) ^ 2" .
  have "fl64 (of_int n) \<le> of_int n * (1 + delta) ^ Suc 0"
    using sn by (intro round_up) simp_all
  then have "fl64 (of_int n) / 1000000000 \<le> (of_int n / 1000000000) * (1 + delta) ^ 1"
    by (simp add: divide_right_mono)
  then have "fl64 (fl64 (of_int n) / 1000000000) \<le> of_int n / 1000000000 * (1 + delta) ^ Suc 1"
    using sn by (intro round_up) (simp_all add: fl64_nonneg)
  then have 2: "fl64 (fl64 (of_int n) / 1000000000) \<le> of_int n / 1000000000 * (1 + delta) ^ 2"
    by (simp only: Suc_1)
  from add_mono [OF 1 2] have
    "fl64 (of_int s) + fl64 (fl64 (of_int n) / 1000000000) \<le> of_int d / 1000000000 * (1 + delta) ^ 2"
    by (simp only: d distrib_right)
  then have "duration_Seconds d \<le> of_int d / 1000000000 * (1 + delta) ^ Suc 2"
    unfolding e using p by (intro round_up) simp_all
  then show ?thesis by (simp only: numeral_2_eq_2 numeral_3_eq_3)
qed

text \<open>What the bucket gains exactly in a time, and a bound on what the float operations make of it.\<close>

definition gain :: "int \<Rightarrow> int \<Rightarrow> rat" where
  "gain rate d = of_int d / 1000000000 * of_int rate"

definition slack :: rat where
  "slack = 1 + 1 / 2 ^ 50"

lemma five_roundings: "(1 + delta) ^ 5 \<le> slack"
  by (simp add: delta_def slack_def power_divide)

lemma refill_le:
  assumes b: "bucket_ok rl b" and t: "tb_lastCheck b \<le> now" and l: "limiter_ok rl"
  shows "tb_tokens (refill now b) \<le>
    tb_tokens b + gain (rl_rate rl) (now - tb_lastCheck b) * slack + of_int (rl_burst rl) * delta"
proof -
  let ?d = "time_Sub now (tb_lastCheck b)" and ?D = "now - tb_lastCheck b"
  let ?r = "of_int (rl_rate rl) :: rat"
  have d: "0 \<le> ?d" "?d \<le> ?D" using t by (simp_all add: time_Sub_def max_def min_def)
  have r: "0 \<le> ?r" "tb_rate b = ?r" using l b by (simp_all add: limiter_ok_def bucket_ok_def)
  have k: "0 \<le> tb_tokens b" "tb_tokens b \<le> of_int (rl_burst rl)" using b by (simp_all add: bucket_ok_def)
  have sec: "0 \<le> duration_Seconds ?d" by (rule Seconds_nonneg [OF d(1)])
  have "duration_Seconds ?d \<le> of_int ?d / 1000000000 * (1 + delta) ^ 3" by (rule Seconds_le [OF d(1)])
  also have "\<dots> \<le> of_int ?D / 1000000000 * (1 + delta) ^ 3"
    using d(2) by (intro mult_right_mono divide_right_mono) (simp_all add: add_nonneg_nonneg)
  finally have "duration_Seconds ?d * ?r \<le> of_int ?D / 1000000000 * (1 + delta) ^ 3 * ?r"
    using r(1) by (rule mult_right_mono)
  then have "duration_Seconds ?d * ?r \<le> gain (rl_rate rl) ?D * (1 + delta) ^ 3"
    by (simp add: gain_def ac_simps)
  then have x: "fl64 (duration_Seconds ?d * ?r) \<le> gain (rl_rate rl) ?D * (1 + delta) ^ Suc 3"
    using sec r(1) by (intro round_up) simp_all
  let ?t = "tb_tokens b + fl64 (duration_Seconds ?d * ?r)"
  have x0: "0 \<le> fl64 (duration_Seconds ?d * ?r)" using sec r(1) by (intro fl64_nonneg) simp
  have "tb_tokens (refill now b) \<le> fl64 ?t"
    by (simp add: refill_def Let_def r(2))
  also have "\<dots> \<le> ?t * (1 + delta)" using k(1) x0 by (intro fl64_le) simp
  also have "\<dots> = tb_tokens b + tb_tokens b * delta + fl64 (duration_Seconds ?d * ?r) * (1 + delta)"
    by (simp add: algebra_simps)
  also have "\<dots> \<le> tb_tokens b + of_int (rl_burst rl) * delta + gain (rl_rate rl) ?D * (1 + delta) ^ Suc 3 * (1 + delta)"
    using k(2) x by (intro add_mono mult_right_mono) (simp_all add: add_nonneg_nonneg)
  also have "gain (rl_rate rl) ?D * (1 + delta) ^ Suc 3 * (1 + delta) = gain (rl_rate rl) ?D * (1 + delta) ^ 5"
    by (simp add: eval_nat_numeral ac_simps)
  also have "\<dots> \<le> gain (rl_rate rl) ?D * slack"
    using five_roundings r(1) t by (intro mult_left_mono) (simp_all add: gain_def)
  finally show ?thesis by simp
qed

lemma taken_le:
  assumes "bucket_ok rl b" "1 \<le> tb_tokens b"
  shows "tb_tokens (taken b) \<le> tb_tokens b - 1 + of_int (rl_burst rl) * delta"
proof -
  have "fl64 (tb_tokens b - 1) \<le> (tb_tokens b - 1) * (1 + delta)" using assms(2) by (intro fl64_le) simp
  also have "\<dots> = tb_tokens b - 1 + (tb_tokens b - 1) * delta" by (simp add: algebra_simps)
  also have "\<dots> \<le> tb_tokens b - 1 + of_int (rl_burst rl) * delta"
    using assms(1) by (intro add_left_mono mult_right_mono) (simp_all add: bucket_ok_def)
  finally show ?thesis using assms(2) by (simp add: taken_def)
qed

section \<open>Sequences of requests\<close>

text \<open>The requests a client \<open>key\<close> is granted among requests of any clients at given times.\<close>

fun granted :: "string \<Rightarrow> (string \<times> int) list \<Rightarrow> RateLimiter \<Rightarrow> nat" where
  "granted key [] rl = 0"
| "granted key ((k, now) # calls) rl =
     (case Allow k now rl of (ok, rl') \<Rightarrow> (if ok \<and> k = key then 1 else 0) + granted key calls rl')"

fun in_order :: "int \<Rightarrow> (string \<times> int) list \<Rightarrow> int \<Rightarrow> bool" where
  "in_order t0 [] t1 \<longleftrightarrow> t0 \<le> t1"
| "in_order t0 ((k, now) # calls) t1 \<longleftrightarrow> t0 \<le> now \<and> in_order now calls t1"

lemma in_order_le: "in_order t0 calls t1 \<Longrightarrow> t0 \<le> t1"
  by (induction t0 calls t1 rule: in_order.induct) simp_all

lemma clock_ok_mono: "clock_ok t rl \<Longrightarrow> t \<le> t' \<Longrightarrow> clock_ok t' rl"
  by (fastforce simp: clock_ok_def)

text \<open>From a bucket checked at \<open>t0\<close>: its tokens, the gain of the time, and the rounding errors.\<close>

text \<open>A call takes a token out of its own bucket, up to the rounding, if it is granted.\<close>

lemma Allow_spends:
  fixes key :: string
  assumes "limiter_ok rl" "clock_ok now rl"
  defines "b1 \<equiv> refill now (bucket_of key rl)"
  shows "bucket_ok rl b1" "rl_buckets (snd (Allow key now rl)) key = Some (taken b1)" "tb_lastCheck (taken b1) = now"
    and "tb_tokens (taken b1) + of_nat (if fst (Allow key now rl) then 1 else 0) \<le>
      tb_tokens b1 + of_int (rl_burst rl) * delta"
proof -
  show b1: "bucket_ok rl b1"
    unfolding b1_def using assms(1,2) bucket_of_ok by (intro refill_ok) auto
  show "rl_buckets (snd (Allow key now rl)) key = Some (taken b1)" by (simp add: Allow_taken b1_def)
  show "tb_lastCheck (taken b1) = now" by (simp add: b1_def taken_def refill_def Let_def)
  show "tb_tokens (taken b1) + of_nat (if fst (Allow key now rl) then 1 else 0) \<le>
      tb_tokens b1 + of_int (rl_burst rl) * delta"
  proof (cases "1 \<le> tb_tokens b1")
    case True
    with taken_le [OF b1] show ?thesis by (simp add: Allow_taken b1_def)
  next
    case False
    have "0 \<le> of_int (rl_burst rl) * delta" using assms(1) by (simp add: limiter_ok_def)
    with False show ?thesis by (simp add: Allow_taken taken_def b1_def)
  qed
qed

lemma granted_from:
  assumes "limiter_ok rl" "clock_ok t0 rl" "in_order t0 calls t1" "rl_buckets rl key = Some b"
  shows "of_nat (granted key calls rl) \<le>
    tb_tokens b + gain (rl_rate rl) (t1 - tb_lastCheck b) * slack +
    of_nat (length calls) * (2 * of_int (rl_burst rl) * delta)"
  using assms
proof (induction calls arbitrary: rl b t0)
  case Nil
  then have b: "bucket_ok rl b" and le: "tb_lastCheck b \<le> t1" "0 \<le> rl_rate rl"
    by (auto simp: limiter_ok_def clock_ok_def intro: order_trans)
  have "0 \<le> gain (rl_rate rl) (t1 - tb_lastCheck b) * slack"
    using le by (simp add: gain_def slack_def)
  moreover have "0 \<le> tb_tokens b" using b by (simp add: bucket_ok_def)
  ultimately show ?case by simp
next
  case (Cons c calls)
  obtain k now where c: "c = (k, now)" by force
  let ?rl' = "snd (Allow k now rl)"
  have t: "t0 \<le> now" "in_order now calls t1" using Cons.prems(3) by (simp_all add: c)
  have ck: "clock_ok now rl" using Cons.prems(2) t(1) by (rule clock_ok_mono)
  have ok': "limiter_ok ?rl'" "clock_ok now ?rl'" using Allow_ok [OF Cons.prems(1) ck] by simp_all
  have same: "rl_rate ?rl' = rl_rate rl" "rl_burst ?rl' = rl_burst rl" by (simp_all add: Allow_taken)
  have e0: "0 \<le> of_int (rl_burst rl) * delta" using Cons.prems(1) by (simp add: limiter_ok_def)
  show ?case
  proof (cases "k = key")
    case False
    then have "rl_buckets ?rl' key = Some b" using Cons.prems(4) by (simp add: Allow_taken)
    from Cons.IH [OF ok' t(2) this] False e0 show ?thesis
      by (simp add: c same split_beta distrib_right del: of_nat_Suc) (simp add: algebra_simps)
  next
    case True
    let ?b1 = "refill now b"
    have b: "bucket_ok rl b" "tb_lastCheck b \<le> now"
      using Cons.prems(1,4) ck by (auto simp: limiter_ok_def clock_ok_def)
    have of: "bucket_of key rl = b" using Cons.prems(4) by (simp add: bucket_of_def)
    note spent = Allow_spends [OF Cons.prems(1) ck, of key, unfolded of]
    have nb: "rl_buckets ?rl' key = Some (taken ?b1)" using spent(2) True by simp
    let ?g = "if fst (Allow k now rl) then 1 else 0 :: nat"
    have split: "gain (rl_rate rl) (t1 - tb_lastCheck b) =
        gain (rl_rate rl) (now - tb_lastCheck b) + gain (rl_rate rl) (t1 - now)"
      by (simp add: gain_def field_simps)
    have "of_nat (granted key (c # calls) rl) =
        of_nat ?g + (of_nat (granted key calls ?rl') :: rat)"
      using True by (simp add: c split_beta)
    also have "\<dots> \<le> of_nat ?g + (tb_tokens (taken ?b1) + gain (rl_rate rl) (t1 - now) * slack +
        of_nat (length calls) * (2 * of_int (rl_burst rl) * delta))"
      using Cons.IH [OF ok' t(2) nb] by (simp only: same spent(3) add_left_mono)
    also have "\<dots> \<le> tb_tokens b + gain (rl_rate rl) (t1 - tb_lastCheck b) * slack +
        (of_nat (length calls) + 1) * (2 * of_int (rl_burst rl) * delta)"
      using spent(4) True refill_le [OF b Cons.prems(1)] unfolding split by (simp add: algebra_simps)
    finally show ?thesis by (simp add: add.commute)
  qed
qed

lemma gain_mono: "0 \<le> rate \<Longrightarrow> d \<le> d' \<Longrightarrow> gain rate d \<le> gain rate d'"
  by (simp add: gain_def mult_right_mono divide_right_mono)

lemma slack_pos [simp]: "0 \<le> slack"
  by (simp add: slack_def)

lemma granted_window:
  assumes "limiter_ok rl" "clock_ok t0 rl" "in_order t0 calls t1"
  shows "of_nat (granted key calls rl) \<le>
    of_int (rl_burst rl) + gain (rl_rate rl) (t1 - t0) * slack +
    of_nat (length calls) * (2 * of_int (rl_burst rl) * delta)"
  using assms
proof (induction calls arbitrary: rl t0)
  case Nil
  then show ?case by (simp add: limiter_ok_def gain_def)
next
  case (Cons c calls)
  obtain k now where c: "c = (k, now)" by force
  let ?rl' = "snd (Allow k now rl)"
  have t: "t0 \<le> now" "in_order now calls t1" using Cons.prems(3) by (simp_all add: c)
  have ck: "clock_ok now rl" using Cons.prems(2) t(1) by (rule clock_ok_mono)
  have ok': "limiter_ok ?rl'" "clock_ok now ?rl'" using Allow_ok [OF Cons.prems(1) ck] by simp_all
  have same: "rl_rate ?rl' = rl_rate rl" "rl_burst ?rl' = rl_burst rl" by (simp_all add: Allow_taken)
  have e0: "0 \<le> of_int (rl_burst rl) * delta" using Cons.prems(1) by (simp add: limiter_ok_def)
  have g: "gain (rl_rate rl) (t1 - now) * slack \<le> gain (rl_rate rl) (t1 - t0) * slack"
    using Cons.prems(1) t(1) by (intro mult_right_mono gain_mono) (simp_all add: limiter_ok_def)
  show ?case
  proof (cases "k = key")
    case False
    with Cons.IH [OF ok' t(2)] g e0 show ?thesis
      by (simp add: c same split_beta distrib_right del: of_nat_Suc) (simp add: algebra_simps)
  next
    case True
    let ?b1 = "refill now (bucket_of key rl)"
    note spent = Allow_spends [OF Cons.prems(1) ck, of key]
    have nb: "rl_buckets ?rl' key = Some (taken ?b1)" using spent(2) True by simp
    let ?g = "if fst (Allow k now rl) then 1 else 0 :: nat"
    have tk: "tb_tokens (taken ?b1) + of_nat ?g \<le> of_int (rl_burst rl) + of_int (rl_burst rl) * delta"
      using spent(1,4) True by (simp add: bucket_ok_def)
    have "of_nat (granted key (c # calls) rl) =
        of_nat ?g + (of_nat (granted key calls ?rl') :: rat)"
      using True by (simp add: c split_beta)
    also have "\<dots> \<le> of_nat ?g + (tb_tokens (taken ?b1) + gain (rl_rate rl) (t1 - now) * slack +
        of_nat (length calls) * (2 * of_int (rl_burst rl) * delta))"
      using granted_from [OF ok' t(2) nb] by (simp only: same spent(3) add_left_mono)
    also have "\<dots> \<le> of_int (rl_burst rl) + gain (rl_rate rl) (t1 - t0) * slack +
        (of_nat (length calls) + 1) * (2 * of_int (rl_burst rl) * delta)"
      using tk g e0 by (simp add: algebra_simps)
    finally show ?thesis by (simp add: add.commute)
  qed
qed

lemma Seconds_ge:
  assumes "1000000000 \<le> d"
  shows "1 \<le> duration_Seconds d"
proof -
  have "1 \<le> d div 1000000000" using assms zdiv_mono1 [of 1000000000 d 1000000000] by simp
  then have "of_nat 1 \<le> (of_int (d div 1000000000) :: rat)" by simp
  then have "of_nat 1 \<le> fl64 (of_int (d div 1000000000))" by (rule fl64_ge_nat) simp
  moreover have "0 \<le> fl64 (fl64 (of_int (d mod 1000000000)) / 1000000000)"
    by (intro fl64_nonneg divide_nonneg_nonneg) simp_all
  ultimately have "of_nat 1 \<le> fl64 (fl64 (of_int (d div 1000000000)) +
      fl64 (fl64 (of_int (d mod 1000000000)) / 1000000000))"
    by (intro fl64_ge_nat) simp_all
  with assms show ?thesis by (simp add: duration_Seconds_def)
qed

section \<open>The properties of the limiter\<close>

text \<open>
  C10: The rate limit holds. Whatever requests of whatever clients arrive, in the order of the
  clock, from \<open>t0\<close> to \<open>t1\<close>, one client is granted at most the burst, plus the rate times the seconds
  passed, plus a rounding error of at most the burst times 2^-52 per request (the rate part is
  exact up to 2^-50). The float64 operations are rounded as the hardware rounds them.
\<close>
theorem rate_limit_window:
  assumes "limiter_ok rl" "clock_ok t0 rl" "in_order t0 calls t1"
  shows "of_nat (granted key calls rl) \<le>
    of_int (rl_burst rl) + of_int (t1 - t0) / 1000000000 * of_int (rl_rate rl) * (1 + 1 / 2 ^ 50) +
    of_nat (length calls) * (of_int (rl_burst rl) / 2 ^ 52 :: rat)"
proof -
  have "2 * of_int (rl_burst rl) * delta = of_int (rl_burst rl) / 2 ^ 52"
    by (simp add: delta_def)
  with granted_window [OF assms] show ?thesis by (simp only: gain_def slack_def)
qed

theorem rate_limit_window_witness:
  "(of_nat (granted ''a'' [(''a'', 5), (''b'', 6), (''a'', 7)] (NewRateLimiter 100 200)) :: rat) < 201"
proof -
  have l: "limiter_ok (NewRateLimiter 100 200)" by (rule limiter_ok_New) simp_all
  have "clock_ok 5 (NewRateLimiter 100 200)" by (simp add: clock_ok_def NewRateLimiter_def)
  from rate_limit_window [OF l this, of "[(''a'', 5), (''b'', 6), (''a'', 7)]" 7 "''a''"]
  show ?thesis by (simp add: NewRateLimiter_def)
qed

text \<open>
  C39: Nobody starves. A client whose last request is at least a second old is granted, when rate and
  burst are at least one and the clock has not passed the range of a duration.
\<close>
theorem rate_limit_waits_at_most_a_second:
  assumes "limiter_ok rl" "1 \<le> rl_rate rl" "1 \<le> rl_burst rl"
    and "rl_buckets rl key = Some b" "tb_lastCheck b + 1000000000 \<le> now"
  shows "fst (Allow key now rl)"
proof -
  let ?d = "time_Sub now (tb_lastCheck b)"
  have b: "bucket_ok rl b" using assms(1,4) by (auto simp: limiter_ok_def)
  have "1000000000 \<le> ?d" using assms(5) by (simp add: time_Sub_def max_def min_def)
  then have "1 \<le> duration_Seconds ?d" by (rule Seconds_ge)
  then have "1 * 1 \<le> duration_Seconds ?d * of_int (rl_rate rl)"
    using assms(2) by (intro mult_mono) simp_all
  then have "of_nat 1 \<le> fl64 (duration_Seconds ?d * of_int (rl_rate rl))"
    by (intro fl64_ge_nat) simp_all
  then have "of_nat 1 \<le> fl64 (tb_tokens b + fl64 (duration_Seconds ?d * of_int (rl_rate rl)))"
    using b by (intro fl64_ge_nat) (simp_all add: bucket_ok_def)
  then have "1 \<le> tb_tokens (refill now b)"
    using b assms(3) by (simp add: refill_def Let_def bucket_ok_def)
  with assms(4) show ?thesis by (simp add: Allow_taken bucket_of_def)
qed

theorem rate_limit_waits_at_most_a_second_witness:
  "fst (Allow ''a'' 1000000005
     ((NewRateLimiter 100 200)\<lparr>rl_buckets := [''a'' \<mapsto>
        \<lparr> tb_tokens = 0, tb_lastCheck = 5, tb_capacity = 200, tb_rate = 100 \<rparr>]\<rparr>))"
  by (rule rate_limit_waits_at_most_a_second)
     (auto simp: limiter_ok_def bucket_ok_def NewRateLimiter_def)

end
