(* ===== verification/Routes.thy ===== *)
theory Routes
  imports Handler_Facts Limiter
begin

text \<open>
  The composition of \<^verbatim>\<open>backend/go-api/internal/api/routes.go\<close>: which handlers gin runs for a request,
  in which order. Matching a path against a pattern is gin's: \<open>path_match\<close> gives the parameters,
  and \<open>no_route\<close> is gin's own answer to a request without a route.
\<close>

datatype endpoint =
    E_CreateConsent | E_GetConsent | E_VerifyConsent | E_RevokeConsent | E_GenerateProof
  | E_GetPartyConsents | E_SearchConsents | E_GetChains | E_GetChainStatus

definition api_routes :: "(string \<times> string \<times> endpoint) list" where
  "api_routes =
     [(''POST'', ''/api/v1/consent'', E_CreateConsent),
      (''GET'', ''/api/v1/consent/:id'', E_GetConsent),
      (''POST'', ''/api/v1/consent/:id/verify'', E_VerifyConsent),
      (''POST'', ''/api/v1/consent/:id/revoke'', E_RevokeConsent),
      (''POST'', ''/api/v1/consent/:id/proof'', E_GenerateProof),
      (''GET'', ''/api/v1/parties/:addr/consents'', E_GetPartyConsents),
      (''GET'', ''/api/v1/search'', E_SearchConsents),
      (''GET'', ''/api/v1/chains'', E_GetChains),
      (''GET'', ''/api/v1/chains/:chain/status'', E_GetChainStatus)]"

record router =
  path_match :: "string \<Rightarrow> string \<Rightarrow> (string \<Rightarrow> string) option"
  no_route :: "request \<Rightarrow> response"

fun find_route ::
  "router \<Rightarrow> request \<Rightarrow> (string \<times> string \<times> endpoint) list \<Rightarrow> (endpoint \<times> (string \<Rightarrow> string)) option" where
  "find_route R rq [] = None"
| "find_route R rq ((meth, pattern, e) # rest) =
     (if rq_Method rq = meth
      then (case path_match R pattern (rq_Path rq) of
              Some params \<Rightarrow> Some (e, params)
            | None \<Rightarrow> find_route R rq rest)
      else find_route R rq rest)"

definition run_endpoint ::
  "('q, 'r) Handler \<Rightarrow> world \<Rightarrow> endpoint \<Rightarrow> request \<Rightarrow> ('q, 'r) chain_rest" where
  "run_endpoint h w e rq =
     (case e of
        E_CreateConsent \<Rightarrow> CreateConsent h w rq
      | E_GetConsent \<Rightarrow> GetConsent_handler h w rq
      | E_VerifyConsent \<Rightarrow> VerifyConsent h w rq
      | E_RevokeConsent \<Rightarrow> RevokeConsent_handler h w rq
      | E_GenerateProof \<Rightarrow> GenerateProof h w rq
      | E_GetPartyConsents \<Rightarrow> GetPartyConsents h w rq
      | E_SearchConsents \<Rightarrow> SearchConsents h w rq
      | E_GetChains \<Rightarrow> GetChains h w rq
      | E_GetChainStatus \<Rightarrow> ChainMiddleware rq (GetChainStatus_handler h w rq))"

definition api_group ::
  "jwt_parser \<Rightarrow> router \<Rightarrow> ('q, 'r) Handler \<Rightarrow> world \<Rightarrow> request \<Rightarrow> ('q, 'r) chain_rest" where
  "api_group jwt R h w rq =
     (case find_route R rq api_routes of
        None \<Rightarrow> gret (no_route R rq)
      | Some (e, params) \<Rightarrow>
          (let rq' = rq\<lparr>rq_Param := params\<rparr> in
           AuthMiddleware jwt (h_cfg h) rq' (run_endpoint h w e rq')))"

text \<open>Everything the engine runs for one request that arrives at time \<open>now\<close>.\<close>

definition serve ::
  "jwt_parser \<Rightarrow> router \<Rightarrow> ('q, 'r) Handler \<Rightarrow> world \<Rightarrow> int \<Rightarrow> request \<Rightarrow> ('q, 'r) api_state \<Rightarrow>
    response \<times> ('q, 'r) api_state" where
  "serve jwt R h w now rq s =
     Recovery (CORSMiddleware rq (RequestLogger rq (RateLimitMiddleware now rq
       (api_group jwt R h w rq)))) (s\<lparr>as_headers := [], as_keys := Map.empty\<rparr>)"

definition RegisterRoutes :: "('q, 'r) api_state \<Rightarrow> ('q, 'r) api_state" where
  "RegisterRoutes s = s\<lparr>as_limiter := NewRateLimiter 100 200\<rparr>"

section \<open>Authorisation\<close>

definition bearer_token :: "request \<Rightarrow> string option" where
  "bearer_token rq =
     (if strings_HasPrefix (rq_Authorization rq) ''Bearer ''
      then Some (strings_TrimPrefix (rq_Authorization rq) ''Bearer '') else None)"

text \<open>The middleware lets a request pass, and with which credential.\<close>

definition presents_key :: "Config \<Rightarrow> request \<Rightarrow> bool" where
  "presents_key cfg rq \<longleftrightarrow> rq_Authorization rq \<noteq> '''' \<and>
     (case bearer_token rq of Some t \<Rightarrow> t = APIKey cfg | None \<Rightarrow> rq_Authorization rq = APIKey cfg)"

definition presents_jwt :: "jwt_parser \<Rightarrow> Config \<Rightarrow> request \<Rightarrow> bool" where
  "presents_jwt jwt cfg rq \<longleftrightarrow>
     (\<exists>t token. bearer_token rq = Some t \<and> jwt t (jwt_key cfg) = Inr token \<and> jt_Valid token)"

lemma Auth_refuses:
  assumes "\<not> presents_key cfg rq" "\<not> presents_jwt jwt cfg rq"
  shows "\<exists>msg. AuthMiddleware jwt cfg rq rest s = (Inr (error_body 401 msg ''''), s)"
  using assms
  by (cases "jwt (strings_TrimPrefix (rq_Authorization rq) ''Bearer '') (jwt_key cfg)")
     (auto simp: AuthMiddleware_def unauthorized_def presents_key_def presents_jwt_def bearer_token_def
        Let_def split: option.splits if_splits)

text \<open>
  What \<^verbatim>\<open>jwt.Parse\<close> promises: a valid token carries a signature that verifies, for its method, under
  the key the key function gave for that method.
\<close>

definition jwt_ok :: "jwt_parser \<Rightarrow> (string \<Rightarrow> sign_method \<Rightarrow> string \<Rightarrow> bool) \<Rightarrow> bool" where
  "jwt_ok jwt verifies \<longleftrightarrow>
     (\<forall>t kf token. jwt t kf = Inr token \<longrightarrow> jt_Valid token \<longrightarrow>
        (\<exists>m key. kf m = Inr key \<and> verifies t m key))"

lemma presents_jwt_signed:
  assumes "jwt_ok jwt verifies" "presents_jwt jwt cfg rq"
  shows "\<exists>t alg. bearer_token rq = Some t \<and> verifies t (HMAC alg) (JWTSecret cfg)"
proof -
  from assms(2) obtain t token where t: "bearer_token rq = Some t"
    "jwt t (jwt_key cfg) = Inr token" "jt_Valid token"
    by (auto simp: presents_jwt_def)
  with assms(1) obtain m key where "jwt_key cfg m = Inr key" "verifies t m key"
    unfolding jwt_ok_def by blast
  with t(1) show ?thesis by (cases m) (auto simp: jwt_key_def)
qed

section \<open>What reaches the stores\<close>

text \<open>The parts of the state an endpoint may change.\<close>

definition stores :: "('q, 'r) api_state \<Rightarrow> clients \<times> 'q \<times> 'r" where
  "stores s = (as_clients s, as_qdrant s, as_redis s)"

lemma Recovery_stores:
  assumes "\<And>r s1. m s = (r, s1) \<Longrightarrow> stores s1 = stores s"
  shows "stores (snd (Recovery m s)) = stores s"
proof (cases "m s")
  case (Pair r s1)
  with assms [OF this] show ?thesis by (cases r) (simp_all add: Recovery_def)
qed

lemma serve_cases:
  obtains (preflight) "rq_Method rq = ''OPTIONS''"
      "serve jwt R h w now rq s = ((204, NoBody), s\<lparr>as_keys := Map.empty, as_headers := cors_headers\<rparr>)"
  | (limited) s1 where "rq_Method rq \<noteq> ''OPTIONS''" "\<not> fst (Allow (rq_ClientIP rq) now (as_limiter s))"
      "serve jwt R h w now rq s = (error_body 429 ''rate limit exceeded'' '''', s1)" "stores s1 = stores s"
      "as_limiter s1 = snd (Allow (rq_ClientIP rq) now (as_limiter s))"
  | (passed) "rq_Method rq \<noteq> ''OPTIONS''" "fst (Allow (rq_ClientIP rq) now (as_limiter s))"
      "serve jwt R h w now rq s =
        Recovery (RequestLogger rq (api_group jwt R h w rq))
          (s\<lparr>as_keys := Map.empty, as_headers := cors_headers,
             as_limiter := snd (Allow (rq_ClientIP rq) now (as_limiter s))\<rparr>)"
proof (cases "rq_Method rq = ''OPTIONS''")
  case True
  then show ?thesis by (rule preflight) (simp add: serve_def CORSMiddleware_def Recovery_def True Let_def)
next
  case f: False
  obtain ok rl where a: "Allow (rq_ClientIP rq) now (as_limiter s) = (ok, rl)" by force
  show ?thesis
  proof (cases ok)
    case True
    with a f show ?thesis
      by (intro passed) (simp_all add: serve_def CORSMiddleware_def Recovery_def RequestLogger_def
          RateLimitMiddleware_def gbind_def Let_def)
  next
    case False
    with a f show ?thesis
      by (intro limited [of "(s\<lparr>as_keys := Map.empty, as_headers := cors_headers, as_limiter := rl\<rparr>)
            \<lparr>as_log := as_log s @ [log_for rq 429]\<rparr>"])
        (simp_all add: serve_def CORSMiddleware_def Recovery_def RequestLogger_def stores_def
          RateLimitMiddleware_def gbind_def Let_def error_body_def)
  qed
qed

end
