(* ===== verification/Sample_Lib.thy ===== *)
theory Sample_Lib
  imports Eth Codec
begin

text \<open>
  One concrete set of library functions that meets the named hypotheses about go-ethereum: real
  hexadecimal conversions and array copies, and a stand-in for the hash function. The witnesses of
  the properties run on it.
\<close>

section \<open>Hexadecimal text\<close>

definition hex_digit :: "nat \<Rightarrow> char" where
  "hex_digit n = ''0123456789abcdef'' ! (n mod 16)"

definition hex_value :: "char \<Rightarrow> nat option" where
  "hex_value c =
     (let n = (of_char c :: nat) in
      if 48 \<le> n \<and> n \<le> 57 then Some (n - 48)
      else if 97 \<le> n \<and> n \<le> 102 then Some (n - 87)
      else if 65 \<le> n \<and> n \<le> 70 then Some (n - 55) else None)"

primrec hex_encode :: "bytes \<Rightarrow> string" where
  "hex_encode [] = ''''"
| "hex_encode (b # bs) = hex_digit (unat b div 16) # hex_digit (unat b mod 16) # hex_encode bs"

fun hex_decode :: "string \<Rightarrow> bytes option" where
  "hex_decode [] = Some []"
| "hex_decode [c] = None"
| "hex_decode (c # d # s) =
     (case (hex_value c, hex_value d, hex_decode s) of
        (Some x, Some y, Some bs) \<Rightarrow> Some (word_of_nat (16 * x + y) # bs)
      | _ \<Rightarrow> None)"

lemma hex_digit_all:
  "list_all (\<lambda>n. hex_value (hex_digit n) = Some n \<and> (of_char (hex_digit n) :: nat) < 128) [0..<16]"
  by code_simp

lemma hex_digit_lt: "n < 16 \<Longrightarrow> hex_value (hex_digit n) = Some n \<and> (of_char (hex_digit n) :: nat) < 128"
  using hex_digit_all by (simp add: list_all_iff)

lemma hex_decode_encode: "hex_decode (hex_encode bs) = Some bs"
proof (induction bs)
  case Nil
  then show ?case by simp
next
  case (Cons b bs)
  have "unat b div 16 < 16" using unat_u8_less [of b] by (simp add: div_less_iff_less_mult)
  then have "hex_value (hex_digit (unat b div 16)) = Some (unat b div 16)"
    "hex_value (hex_digit (unat b mod 16)) = Some (unat b mod 16)"
    using hex_digit_lt by simp_all
  moreover have "(word_of_nat (16 * (unat b div 16) + unat b mod 16) :: u8) = b"
    by (simp only: mult_div_mod_eq) simp
  ultimately show ?case using Cons by (simp only: hex_encode.simps hex_decode.simps) simp
qed

lemma hex_encode_ascii: "is_ascii (hex_encode bs)"
proof (induction bs)
  case Nil
  then show ?case by (simp add: is_ascii_def)
next
  case (Cons b bs)
  have "unat b div 16 < 16" using unat_u8_less [of b] by (simp add: div_less_iff_less_mult)
  then show ?case using Cons hex_digit_lt by (simp add: is_ascii_def)
qed

interpretation hex_codec: codec hex_encode hex_decode "\<lambda>_. True"
  by unfold_locales (rule hex_decode_encode)

section \<open>The sample library\<close>

definition fit :: "nat \<Rightarrow> bytes \<Rightarrow> bytes" where
  "fit n b = (if length b \<le> n then replicate (n - length b) 0 @ b else drop (length b - n) b)"

lemma length_fit [simp]: "length (fit n b) = n"
  by (simp add: fit_def)

lemma fit_same [simp]: "length b = n \<Longrightarrow> fit n b = b"
  by (simp add: fit_def)

definition from_hex :: "string \<Rightarrow> bytes" where
  "from_hex s =
     (case hex_decode (if strings_HasPrefix s ''0x'' then drop 2 s else s) of None \<Rightarrow> [] | Some b \<Rightarrow> b)"

definition sample_hash :: "bytes \<Rightarrow> hash" where
  "sample_hash b = fit 32 (be_bytes 4 (7 + 31 * nat_of_be b) @ b)"

definition sample_lib :: lib where
  "sample_lib =
     \<lparr> unicode_lower = (\<lambda>s. s),
       IsHexAddress = (\<lambda>s. let h = (if strings_HasPrefix s ''0x'' then drop 2 s else s)
                           in length h = 40 \<and> hex_decode h \<noteq> None),
       HexToAddress = (\<lambda>s. fit 20 (from_hex s)),
       BytesToAddress = fit 20,
       AddressHex = (\<lambda>a. ''0x'' @ hex_encode a),
       HexToHash = (\<lambda>s. fit 32 (from_hex s)),
       BytesToHash = fit 32,
       HashHex = (\<lambda>h. ''0x'' @ hex_encode h),
       Keccak256 = sample_hash,
       SignerHash = (\<lambda>c t. sample_hash (tx_Data t)),
       DynamicTxHash = (\<lambda>t. sample_hash (dtx_Data t)) \<rparr>"

lemma sample_arrays: "lib_arrays sample_lib"
  by (simp add: lib_arrays_def sample_lib_def sample_hash_def)

lemma sample_bytes: "lib_bytes sample_lib"
  by (simp add: lib_bytes_def sample_lib_def)

lemma from_hex_encode: "from_hex (''0x'' @ hex_encode b) = b"
  by (simp add: from_hex_def hex_decode_encode)

lemma is_ascii_append [simp]: "is_ascii (s @ t) \<longleftrightarrow> is_ascii s \<and> is_ascii t"
  by (simp add: is_ascii_def)

lemma sample_hex: "lib_hex sample_lib"
proof -
  have "is_ascii (''0x'' @ hex_encode h)" for h
    unfolding is_ascii_append by (simp add: hex_encode_ascii) (simp add: is_ascii_def)
  then show ?thesis
    using from_hex_encode by (simp add: lib_hex_def sample_lib_def)
qed

end
