(* ===== verification/Sample_World.thy ===== *)
theory Sample_World
  imports Routes Sample_Lib
begin

text \<open>
  Concrete servers, a node, a configuration and requests on which the properties are evaluated: a
  key-value store that never fails, a point store, and a node that always gives one answer.
\<close>

section \<open>A key-value store\<close>

type_synonym kv = "string \<rightharpoonup> rval"

definition sample_redis :: "kv redis_srv" where
  "sample_redis =
     \<lparr> rd_Set = (\<lambda>k v t r. (None, r(k \<mapsto> v))), rd_Get = (\<lambda>k r. (Inr (r k), r)),
       rd_Del = (\<lambda>k r. (None, r(k := None))), rd_Incr = (\<lambda>k r. (Inr 1, r)),
       rd_Expire = (\<lambda>k t r. r), rd_TTL = (\<lambda>k r. (Inr 60, r)) \<rparr>"

lemma sample_redis_ok: "redis_ok sample_redis (\<lambda>r. r)"
  by (auto simp: redis_ok_def sample_redis_def)

lemma sample_redis_up: "redis_up sample_redis"
  by (simp add: redis_up_def sample_redis_def)

section \<open>A point store\<close>

type_synonym points = "(point_id \<times> payload) list"

definition sample_qdrant :: "points qdrant_srv" where
  "sample_qdrant =
     \<lparr> qd_List = (\<lambda>ctx q. (Inr [''consent_agreements''], q)), qd_Create = (\<lambda>ctx c n q. (None, q)),
       qd_Upsert = (\<lambda>ctx c ps q. (None, map (\<lambda>p. (pt_Id p, pt_Payload p)) ps @ q)),
       qd_SetPayload = (\<lambda>ctx c pl ids q.
         (None, map (\<lambda>(i, old). (i, if i \<in> set ids then old ++ pl else old)) q)),
       qd_Scroll = (\<lambda>ctx c conds limit q.
         (Inr (take (unat limit) (map fst (filter (\<lambda>(i, pl). list_all (\<lambda>cond. case cond of
            MatchText k t \<Rightarrow> pl k = Some (StringValue t) | MatchKeyword k t \<Rightarrow> True) conds) q))), q)),
       qd_Search = (\<lambda>ctx sp q.
         (Inr (take (unat (sp_Limit sp)) (map (\<lambda>(i, pl). Some pl) (filter (\<lambda>(i, pl).
            case sp_Filter sp of None \<Rightarrow> True | Some cs \<Rightarrow> list_all (pl_matches pl) cs) q))), q)) \<rparr>"

lemma map_of_update:
  "map_of (map (\<lambda>(i, old). (i, if i \<in> A then f old else old)) q) =
     (\<lambda>i. if i \<in> A then map_option f (map_of q i) else map_of q i)"
  by (induction q) auto

lemma sample_qdrant_ok: "qdrant_ok sample_qdrant coll map_of"
proof -
  have "i \<in> fst ` {x \<in> set q. case x of (i, pl) \<Rightarrow> pl key = Some (StringValue t)}"
    if "map_of q i = Some pl" "pl key = Some (StringValue t)" for i q pl key t
    using that map_of_SomeD [OF that(1)] by force
  then show ?thesis
    by (auto simp: qdrant_ok_def sample_qdrant_def map_of_update)
qed

lemma sample_search_ok: "search_ok sample_qdrant (\<lambda>q. snd ` set q)"
proof -
  have "pl \<in> snd ` set q \<and> P pl"
    if "Some pl \<in> set (take n (map (\<lambda>(i, pl). Some pl) (filter (\<lambda>(i, pl). P pl) q)))" for n q P and pl :: payload
    using set_take_subset that by force
  then show ?thesis
    by (fastforce simp: search_ok_def sample_qdrant_def)
qed

section \<open>A node, a configuration, a request\<close>

definition sample_net :: "bytes \<Rightarrow> rpc" where
  "sample_net answer =
     \<lparr> DialContext = (\<lambda>url. Inr 1), ChainID = (\<lambda>c. Inr 11155111), BlockNumber = (\<lambda>c. Inr 100),
       SuggestGasPrice = (\<lambda>c. Inr 5), EstimateGas = (\<lambda>c m. Inr 21000), NonceAt = (\<lambda>c a. Inr 0),
       CallContract = (\<lambda>c m. Inr answer) \<rparr>"

definition sample_env :: environ where
  "sample_env k = (if k = ''SEPOLIA_REGISTRY'' \<or> k = ''BSC_TESTNET_REGISTRY'' then ''0x01'' else '''')"

definition sample_cfg :: Config where
  "sample_cfg = Load sample_env"

definition sample_world :: "bytes \<Rightarrow> int \<Rightarrow> world" where
  "sample_world answer now =
     \<lparr> w_lib = sample_lib, w_net = sample_net answer,
       w_http = (\<lambda>url body. Answered 200 '''' (Some (JObj [(''valid'', JBool True)]))),
       w_unix = now, w_nano = now * 1000000000, w_uuid = ''p'', w_bindError = ''EOF'',
       w_parseError = '''' \<rparr>"

definition sample_handler :: "(points, kv) Handler" where
  "sample_handler =
     NewHandler (\<lambda>s. None) sample_cfg (Some (sample_qdrant, Qdrant sample_cfg)) (Some sample_redis)"

definition nil_handler :: "(points, kv) Handler" where
  "nil_handler = NewHandler (\<lambda>s. None) sample_cfg None None"

definition sample_state :: "(points, kv) api_state" where
  "sample_state =
     RegisterRoutes \<lparr> as_clients = Map.empty, as_qdrant = [], as_redis = Map.empty,
       as_limiter = NewRateLimiter 0 0, as_headers = [], as_keys = Map.empty, as_log = [] \<rparr>"

definition sample_router :: router where
  "sample_router =
     \<lparr> path_match = (\<lambda>pattern path. if pattern = path then Some (\<lambda>k. '''') else None),
       no_route = (\<lambda>rq. (404, NoBody)) \<rparr>"

definition no_jwt :: jwt_parser where
  "no_jwt t kf = Inl ''token is malformed''"

definition get_request :: "string \<Rightarrow> string \<Rightarrow> string \<Rightarrow> request" where
  "get_request path ident chain =
     \<lparr> rq_Method = ''GET'', rq_Path = path, rq_RawQuery = '''', rq_Authorization = '''',
       rq_ClientIP = ''10.0.0.1'', rq_Param = (\<lambda>k. if k = ''id'' then ident else ''''),
       rq_Query = (\<lambda>k. if k = ''chain'' then chain else ''''), rq_Body = None \<rparr>"

definition post_request :: "string \<Rightarrow> json \<Rightarrow> request" where
  "post_request ident body = (get_request '''' ident '''')\<lparr>rq_Method := ''POST'', rq_Body := Some body\<rparr>"

lemma sample_cfg_simps [simp]:
  "APIKey sample_cfg = ''dev-key-change-in-production''"
  "JWTSecret sample_cfg = ''dev-secret-change-in-production''"
  "h_cfg sample_handler = sample_cfg" "h_redis sample_handler = Some sample_redis"
  "h_qdrant sample_handler = Some (sample_qdrant, Qdrant sample_cfg)"
  "h_cfg nil_handler = sample_cfg" "h_redis nil_handler = None" "h_qdrant nil_handler = None"
  by (simp_all add: sample_cfg_def sample_env_def Load_def getEnv_def sample_handler_def nil_handler_def
      NewHandler_def)

end
