(* ===== verification/Pool.thy ===== *)
theory Pool
  imports Prelude "HOL-Library.Multiset"
begin

text \<open>
  The worker pool of \<^verbatim>\<open>backend/go-api/internal/worker/pool.go\<close>. Workers, the two bounded channels,
  the timers of pending retries and the cancelled context are one state; what a goroutine does
  between two blocking points is one step, so every interleaving of the goroutines is a sequence
  of steps. Tasks are shared through pointers: the pool holds a store of the tasks it was given and
  the channels hold pointers into it.
\<close>

section \<open>Tasks\<close>

definition TaskProofGeneration :: int where "TaskProofGeneration = 0"
definition TaskQdrantIndexing :: int where "TaskQdrantIndexing = 1"
definition TaskNotificationDispatch :: int where "TaskNotificationDispatch = 2"
definition TaskEventIndexing :: int where "TaskEventIndexing = 3"

lemmas task_types = TaskProofGeneration_def TaskQdrantIndexing_def TaskNotificationDispatch_def
  TaskEventIndexing_def

definition TaskType_String :: "int \<Rightarrow> string" where
  "TaskType_String t =
     (if t = TaskProofGeneration then ''proof_generation''
      else if t = TaskQdrantIndexing then ''qdrant_indexing''
      else if t = TaskNotificationDispatch then ''notification_dispatch''
      else if t = TaskEventIndexing then ''event_indexing''
      else ''unknown'')"

datatype TaskStatus = TaskPending | TaskRunning | TaskCompleted | TaskFailed | TaskRetry

text \<open>The constants are numbered by \<^verbatim>\<open>iota\<close>, so they are ordered as they are declared.\<close>

primrec iota :: "TaskStatus \<Rightarrow> nat" where
  "iota TaskPending = 0"
| "iota TaskRunning = 1"
| "iota TaskCompleted = 2"
| "iota TaskFailed = 3"
| "iota TaskRetry = 4"

lemma iota_inj: "iota a = iota b \<Longrightarrow> a = b"
  by (cases a; cases b) simp_all

instantiation TaskStatus :: linorder
begin
definition less_eq_TaskStatus :: "TaskStatus \<Rightarrow> TaskStatus \<Rightarrow> bool" where
  "less_eq_TaskStatus a b \<longleftrightarrow> iota a \<le> iota b"
definition less_TaskStatus :: "TaskStatus \<Rightarrow> TaskStatus \<Rightarrow> bool" where
  "less_TaskStatus a b \<longleftrightarrow> iota a < iota b"
instance
  by standard (auto simp: less_eq_TaskStatus_def less_TaskStatus_def intro: iota_inj)
end

record 'd Task =
  tk_ID :: string
  tk_Type :: int
  tk_Data :: 'd
  tk_Status :: TaskStatus
  tk_Error :: "goerr option"
  tk_Retries :: int
  tk_MaxRetries :: int
  tk_CreatedAt :: int
  tk_UpdatedAt :: int

text \<open>The delay before a retry: \<^verbatim>\<open>1 << (Retries - 1)\<close> seconds in 64 bits, at most 30 seconds.\<close>

definition backoff :: "int \<Rightarrow> int" where
  "backoff retries =
     (let d = i64 (i64 (push_bit (nat (retries - 1)) 1) * 1000000000) in
      if 30 * 1000000000 < d then 30 * 1000000000 else d)"

section \<open>The pool\<close>

type_synonym ptr = nat

datatype worker = Idle | Busy ptr | Stopped

text \<open>A handler is seen through the results it may return.\<close>

type_synonym 'd task_handler = "'d Task \<Rightarrow> goerr option \<Rightarrow> bool"

record 'd pool =
  p_store :: "ptr \<rightharpoonup> 'd Task"
  p_cap :: nat
  p_tasks :: "ptr list"
  p_retry :: "ptr list"
  p_timers :: "(int \<times> ptr) list"
  p_workers :: "worker list"
  p_handlers :: "int \<rightharpoonup> 'd task_handler"
  p_cancelled :: bool
  p_done :: bool
  p_active :: u32
  p_queued :: u32
  p_completed :: u32
  p_failed :: u32

text \<open>\<^verbatim>\<open>make(chan *Task, queueSize)\<close> panics on a negative size.\<close>

definition NewPool :: "int \<Rightarrow> int \<Rightarrow> 'd pool res" where
  "NewPool numWorkers queueSize =
     (if queueSize < 0 then Inl MakeSliceOutOfRange
      else Inr \<lparr> p_store = Map.empty, p_cap = nat queueSize, p_tasks = [], p_retry = [],
                 p_timers = [], p_workers = replicate (nat numWorkers) Idle,
                 p_handlers = Map.empty, p_cancelled = False, p_done = False,
                 p_active = 0, p_queued = 0, p_completed = 0, p_failed = 0 \<rparr>)"

definition RegisterHandler :: "int \<Rightarrow> 'd task_handler \<Rightarrow> 'd pool \<Rightarrow> 'd pool" where
  "RegisterHandler t h p = p\<lparr>p_handlers := (p_handlers p)(t \<mapsto> h)\<rparr>"

text \<open>
  \<^verbatim>\<open>processTask\<close> up to the call of the handler, by worker \<open>i\<close> at time \<open>now\<close>. Without a handler it
  is already over. The store always holds a pointer that was received.
\<close>

definition task_at :: "'d pool \<Rightarrow> ptr \<Rightarrow> 'd Task" where
  "task_at p t = the (p_store p t)"

definition no_handler_error :: "int \<Rightarrow> goerr" where
  "no_handler_error ty = ''no handler registered for task type '' @ TaskType_String ty"

definition process_start :: "nat \<Rightarrow> ptr \<Rightarrow> int \<Rightarrow> 'd pool \<Rightarrow> 'd pool" where
  "process_start i t now p =
     (let k = (task_at p t)\<lparr>tk_Status := TaskRunning, tk_UpdatedAt := now\<rparr>;
          p1 = p\<lparr>p_active := p_active p + 1\<rparr>
      in case p_handlers p (tk_Type k) of
           None \<Rightarrow>
             p1\<lparr>p_store := (p_store p)(t \<mapsto> k\<lparr>tk_Status := TaskFailed,
                                             tk_Error := Some (no_handler_error (tk_Type k))\<rparr>),
                p_failed := p_failed p + 1, p_active := p_active p1 - 1\<rparr>
         | Some h \<Rightarrow>
             p1\<lparr>p_store := (p_store p)(t \<mapsto> k), p_workers := (p_workers p)[i := Busy t]\<rparr>)"

text \<open>\<^verbatim>\<open>processTask\<close> from the return of the handler, with the result it returned, to its end.\<close>

definition process_finish :: "nat \<Rightarrow> ptr \<Rightarrow> goerr option \<Rightarrow> int \<Rightarrow> 'd pool \<Rightarrow> 'd pool" where
  "process_finish i t result now p0 =
     (let p = p0\<lparr>p_active := p_active p0 - 1, p_workers := (p_workers p0)[i := Idle]\<rparr>;
          k = task_at p0 t
      in case result of
           Some err \<Rightarrow>
             (let k1 = k\<lparr>tk_Retries := i64 (tk_Retries k + 1)\<rparr> in
              if tk_Retries k1 \<le> tk_MaxRetries k1
              then p\<lparr>p_store := (p_store p)(t \<mapsto> k1\<lparr>tk_Status := TaskRetry, tk_Error := Some err,
                                                   tk_UpdatedAt := now\<rparr>),
                     p_timers := p_timers p @ [(backoff (tk_Retries k1), t)]\<rparr>
              else p\<lparr>p_store := (p_store p)(t \<mapsto> k1\<lparr>tk_Status := TaskFailed, tk_Error := Some err\<rparr>),
                     p_failed := p_failed p + 1\<rparr>)
         | None \<Rightarrow>
             p\<lparr>p_store := (p_store p)(t \<mapsto> k\<lparr>tk_Status := TaskCompleted, tk_UpdatedAt := now\<rparr>),
               p_completed := p_completed p + 1\<rparr>)"

text \<open>
  \<^verbatim>\<open>Submit\<close> selects among the cases that are ready, in any order, and falls to its default only
  when none is; \<open>submit_choice\<close> is the case it took. A queue of length 0 is an unbuffered channel: a
  send goes straight to a worker that waits (\<open>HandTo\<close> worker \<open>i\<close>, which starts at time \<open>now\<close>). An idle
  worker may not have reached its select yet, so the default may be taken although one is idle.
\<close>

datatype submit_choice = SendTask | HandTo nat int | SeeDone | Default

definition submit_ready :: "submit_choice \<Rightarrow> 'd pool \<Rightarrow> bool" where
  "submit_ready ch p =
     (case ch of
        SendTask \<Rightarrow> length (p_tasks p) < p_cap p
      | HandTo i now \<Rightarrow> p_cap p = 0 \<and> i < length (p_workers p) \<and> p_workers p ! i = Idle
      | SeeDone \<Rightarrow> p_cancelled p
      | Default \<Rightarrow> \<not> length (p_tasks p) < p_cap p \<and> \<not> p_cancelled p)"

definition Submit :: "submit_choice \<Rightarrow> ptr \<Rightarrow> 'd Task \<Rightarrow> 'd pool \<Rightarrow> goerr option \<times> 'd pool" where
  "Submit ch t k p =
     (let q = p\<lparr>p_store := (p_store p)(t \<mapsto> k), p_queued := p_queued p + 1\<rparr> in
      case ch of
        SendTask \<Rightarrow> (None, q\<lparr>p_tasks := p_tasks q @ [t]\<rparr>)
      | HandTo i now \<Rightarrow> (None, process_start i t now q)
      | SeeDone \<Rightarrow> (Some ''pool is shutting down'', p)
      | Default \<Rightarrow> (Some ''task queue is full'', p))"

definition SubmitWithRetry ::
  "submit_choice \<Rightarrow> ptr \<Rightarrow> 'd Task \<Rightarrow> int \<Rightarrow> 'd pool \<Rightarrow> goerr option \<times> 'd pool" where
  "SubmitWithRetry ch t k maxRetries p = Submit ch t (k\<lparr>tk_MaxRetries := maxRetries\<rparr>) p"

record PoolStats =
  st_Active :: u32
  st_Queued :: u32
  st_Completed :: u32
  st_Failed :: u32

definition Stats :: "'d pool \<Rightarrow> PoolStats" where
  "Stats p = \<lparr> st_Active = p_active p, st_Queued = p_queued p, st_Completed = p_completed p,
               st_Failed = p_failed p \<rparr>"

section \<open>The steps of the goroutines\<close>

text \<open>
  A worker's select takes from \<^verbatim>\<open>tasks\<close>, takes from \<^verbatim>\<open>retry\<close>, or sees the context done; a timer's
  goroutine sends to \<^verbatim>\<open>retry\<close> when there is room (to a waiting worker when the channel is unbuffered)
  or gives up once the context is done; \<^verbatim>\<open>Shutdown\<close> cancels, and closes \<^verbatim>\<open>done\<close> when every worker has stopped.
\<close>

inductive works :: "'d pool \<Rightarrow> 'd pool \<Rightarrow> bool" where
  take_task: "i < length (p_workers p) \<Longrightarrow> p_workers p ! i = Idle \<Longrightarrow> p_tasks p = t # ts \<Longrightarrow>
     works p (process_start i t now (p\<lparr>p_tasks := ts\<rparr>))"
| take_retry: "i < length (p_workers p) \<Longrightarrow> p_workers p ! i = Idle \<Longrightarrow> p_retry p = t # ts \<Longrightarrow>
     works p (process_start i t now (p\<lparr>p_retry := ts\<rparr>))"
| finish: "i < length (p_workers p) \<Longrightarrow> p_workers p ! i = Busy t \<Longrightarrow>
     p_handlers p (tk_Type (task_at p t)) = Some h \<Longrightarrow> h (task_at p t) result \<Longrightarrow>
     works p (process_finish i t result now p)"
| fire: "p_timers p = xs @ (d, t) # ys \<Longrightarrow> length (p_retry p) < p_cap p \<Longrightarrow>
     works p (p\<lparr>p_timers := xs @ ys, p_retry := p_retry p @ [t]\<rparr>)"
| hand_back: "p_timers p = xs @ (d, t) # ys \<Longrightarrow> p_cap p = 0 \<Longrightarrow> i < length (p_workers p) \<Longrightarrow>
     p_workers p ! i = Idle \<Longrightarrow> works p (process_start i t now (p\<lparr>p_timers := xs @ ys\<rparr>))"
| give_up: "p_timers p = xs @ (d, t) # ys \<Longrightarrow> p_cancelled p \<Longrightarrow>
     works p (p\<lparr>p_timers := xs @ ys\<rparr>)"
| stop: "i < length (p_workers p) \<Longrightarrow> p_workers p ! i = Idle \<Longrightarrow> p_cancelled p \<Longrightarrow>
     works p (p\<lparr>p_workers := (p_workers p)[i := Stopped]\<rparr>)"
| close: "p_cancelled p \<Longrightarrow> \<not> p_done p \<Longrightarrow> set (p_workers p) \<subseteq> {Stopped} \<Longrightarrow>
     works p (p\<lparr>p_done := True\<rparr>)"

definition new_task :: "'d Task \<Rightarrow> bool" where
  "new_task k \<longleftrightarrow> tk_Status k = TaskPending \<and> tk_Retries k = 0 \<and> tk_MaxRetries k < 2 ^ 63 - 1"

text \<open>What the pool's clients do: submit a new task, or shut the pool down.\<close>

inductive pool_step :: "'d pool \<Rightarrow> 'd pool \<Rightarrow> bool" where
  work: "works p p' \<Longrightarrow> pool_step p p'"
| submit: "submit_ready ch p \<Longrightarrow> p_store p t = None \<Longrightarrow> new_task k \<Longrightarrow>
     pool_step p (snd (Submit ch t k p))"
| cancel: "pool_step p (p\<lparr>p_cancelled := True\<rparr>)"

inductive_cases worksE: "works p p'"
inductive_cases pool_stepE: "pool_step p p'"

inductive reach :: "'d pool \<Rightarrow> 'd pool \<Rightarrow> bool" for p0 where
  here: "reach p0 p0"
| more: "reach p0 p \<Longrightarrow> pool_step p p' \<Longrightarrow> reach p0 p'"

inductive run :: "nat \<Rightarrow> 'd pool \<Rightarrow> 'd pool \<Rightarrow> bool" where
  run0: "run 0 p p"
| runS: "works p p' \<Longrightarrow> run n p' p'' \<Longrightarrow> run (Suc n) p p''"

end
