(* ===== verification/Pool_Facts.thy ===== *)
theory Pool_Facts
  imports Pool
begin

text \<open>
  What the steps of the worker pool keep: every accepted task is in exactly one place, the channels
  keep their bounds, the counters count, and without new submissions the pool comes to rest.
\<close>

section \<open>Where the tasks are\<close>

primrec held :: "worker \<Rightarrow> ptr multiset" where
  "held Idle = {#}"
| "held (Busy t) = {#t#}"
| "held Stopped = {#}"

definition busy :: "worker list \<Rightarrow> ptr multiset" where
  "busy ws = sum_list (map held ws)"

definition locs :: "'d pool \<Rightarrow> ptr multiset" where
  "locs p = mset (p_tasks p) + mset (p_retry p) + busy (p_workers p) + mset (map snd (p_timers p))"

lemma busy_simps [simp]:
  "busy [] = {#}" "busy (w # ws) = held w + busy ws" "busy (xs @ ys) = busy xs + busy ys"
  by (simp_all add: busy_def)

lemma busy_split: "i < length ws \<Longrightarrow> busy ws = held (ws ! i) + busy (take i ws @ drop (Suc i) ws)"
  by (subst id_take_nth_drop [of i ws]) (simp_all add: ac_simps)

lemma busy_update:
  "i < length ws \<Longrightarrow> busy (ws[i := w]) = held w + busy (take i ws @ drop (Suc i) ws)"
  by (simp add: upd_conv_take_nth_drop ac_simps)

lemma busy_replicate_Idle [simp]: "busy (replicate n Idle) = {#}"
  by (induction n) simp_all

lemma busy_stopped: "set ws \<subseteq> {Idle, Stopped} \<Longrightarrow> busy ws = {#}"
  by (induction ws) auto

lemma in_busy: "t \<in># busy ws \<longleftrightarrow> Busy t \<in> set ws"
proof (induction ws)
  case (Cons w ws)
  then show ?case by (cases w) auto
qed simp

section \<open>The invariant\<close>

definition settled :: "'d Task \<Rightarrow> bool" where
  "settled k \<longleftrightarrow> tk_Status k = TaskCompleted \<or> tk_Status k = TaskFailed"

text \<open>What holds of a task by the place it is in.\<close>

definition task_fits :: "'d pool \<Rightarrow> ptr \<Rightarrow> 'd Task \<Rightarrow> bool" where
  "task_fits p t k \<longleftrightarrow>
     0 \<le> tk_Retries k \<and> tk_Retries k \<le> max 0 (tk_MaxRetries k) + 1 \<and> tk_MaxRetries k < 2 ^ 63 - 1 \<and>
     (t \<in> set (p_tasks p) \<longrightarrow> tk_Status k = TaskPending \<and> tk_Retries k = 0) \<and>
     (t \<in> set (p_retry p) \<or> t \<in> snd ` set (p_timers p) \<longrightarrow>
        tk_Status k = TaskRetry \<and> tk_Retries k \<le> tk_MaxRetries k) \<and>
     (t \<in># busy (p_workers p) \<longrightarrow>
        tk_Status k = TaskRunning \<and> tk_Retries k \<le> max 0 (tk_MaxRetries k) \<and>
        tk_Type k \<in> dom (p_handlers p)) \<and>
     (t \<notin># locs p \<longrightarrow> settled k \<or> p_cancelled p \<and> tk_Status k = TaskRetry)"

definition finished :: "'d pool \<Rightarrow> TaskStatus \<Rightarrow> ptr set" where
  "finished p s = {t. \<exists>k. p_store p t = Some k \<and> tk_Status k = s}"

definition chan_ok :: "'d pool \<Rightarrow> bool" where
  "chan_ok p \<longleftrightarrow> length (p_tasks p) \<le> p_cap p \<and> length (p_retry p) \<le> p_cap p"

definition locs_ok :: "'d pool \<Rightarrow> bool" where
  "locs_ok p \<longleftrightarrow>
     (\<forall>t. count (locs p) t \<le> 1) \<and> set_mset (locs p) \<subseteq> dom (p_store p) \<and> finite (dom (p_store p))"

definition counts_ok :: "'d pool \<Rightarrow> bool" where
  "counts_ok p \<longleftrightarrow>
     p_active p = word_of_nat (size (busy (p_workers p))) \<and>
     p_queued p = word_of_nat (card (dom (p_store p))) \<and>
     p_completed p = word_of_nat (card (finished p TaskCompleted)) \<and>
     p_failed p = word_of_nat (card (finished p TaskFailed))"

definition stop_ok :: "'d pool \<Rightarrow> bool" where
  "stop_ok p \<longleftrightarrow>
     (Stopped \<in> set (p_workers p) \<longrightarrow> p_cancelled p) \<and>
     (p_done p \<longrightarrow> set (p_workers p) \<subseteq> {Stopped})"

definition pool_ok :: "'d pool \<Rightarrow> bool" where
  "pool_ok p \<longleftrightarrow>
     chan_ok p \<and> locs_ok p \<and> counts_ok p \<and> stop_ok p \<and>
     (\<forall>t k. p_store p t = Some k \<longrightarrow> task_fits p t k)"

text \<open>A step takes one task up and puts it down elsewhere; between the two it is in no place.\<close>

definition in_hand :: "'d pool \<Rightarrow> ptr \<Rightarrow> 'd Task \<Rightarrow> bool" where
  "in_hand p t k \<longleftrightarrow>
     chan_ok p \<and> locs_ok p \<and> counts_ok p \<and> stop_ok p \<and> t \<notin># locs p \<and> p_store p t = Some k \<and>
     0 \<le> tk_Retries k \<and> tk_Retries k \<le> max 0 (tk_MaxRetries k) \<and> tk_MaxRetries k < 2 ^ 63 - 1 \<and>
     \<not> settled k \<and> (\<forall>t' k'. t' \<noteq> t \<longrightarrow> p_store p t' = Some k' \<longrightarrow> task_fits p t' k')"

lemmas pool_parts = chan_ok_def locs_ok_def counts_ok_def stop_ok_def

lemma pool_ok_NewPool: "NewPool n q = Inr p \<Longrightarrow> pool_ok p"
  by (auto simp: NewPool_def pool_ok_def pool_parts locs_def finished_def split: if_splits)

lemma pool_ok_RegisterHandler: "pool_ok p \<Longrightarrow> pool_ok (RegisterHandler t h p)"
  by (auto simp: pool_ok_def RegisterHandler_def task_fits_def pool_parts locs_def finished_def)

lemma finished_upd:
  "finished (p\<lparr>p_store := (p_store p)(t \<mapsto> k)\<rparr>) s =
     (if tk_Status k = s then insert t (finished p s) else finished p s - {t})"
  by (auto simp: finished_def)

lemma finite_finished: "finite (dom (p_store p)) \<Longrightarrow> finite (finished p s)"
  by (rule finite_subset [of _ "dom (p_store p)"]) (auto simp: finished_def)

lemma in_locs:
  "t \<in># locs p \<longleftrightarrow>
     t \<in> set (p_tasks p) \<or> t \<in> set (p_retry p) \<or> t \<in># busy (p_workers p) \<or> t \<in> snd ` set (p_timers p)"
  by (auto simp: locs_def)

text \<open>A task whose places and record a step leaves alone still fits.\<close>

lemma task_fits_frame:
  assumes "task_fits p t k"
    and "t \<in> set (p_tasks p') \<longleftrightarrow> t \<in> set (p_tasks p)"
    and "t \<in> set (p_retry p') \<or> t \<in> snd ` set (p_timers p') \<longleftrightarrow>
         t \<in> set (p_retry p) \<or> t \<in> snd ` set (p_timers p)"
    and "t \<in># busy (p_workers p') \<longleftrightarrow> t \<in># busy (p_workers p)"
    and "p_cancelled p \<Longrightarrow> p_cancelled p'" and "p_handlers p' = p_handlers p"
  shows "task_fits p' t k"
proof -
  have "t \<in># locs p' \<longleftrightarrow> t \<in># locs p"
    using assms(2-4) by (auto simp: in_locs)
  with assms show ?thesis
    unfolding task_fits_def by simp blast
qed

section \<open>Taking a task up\<close>

lemma count_add_le:
  assumes "\<forall>x. count (add_mset t A) x \<le> 1"
  shows "t \<notin># A" and "\<forall>x. count A x \<le> 1"
proof -
  show "t \<notin># A"
    using spec [OF assms, of t] by (simp add: not_in_iff)
  show "\<forall>x. count A x \<le> 1"
  proof
    fix x
    show "count A x \<le> 1"
      using spec [OF assms, of x] by (simp split: if_splits)
  qed
qed

text \<open>
  The pool \<open>q\<close> is \<open>p\<close> with \<open>t\<close> taken out of one place: a queue, the timers, or a worker's hands.
\<close>

lemma take_up:
  assumes ok: "pool_ok p" and st: "p_store p t = Some k" and un: "\<not> settled k"
    and le: "tk_Retries k \<le> max 0 (tk_MaxRetries k)"
    and locs: "locs p = add_mset t (locs q)"
    and same: "p_store q = p_store p" "p_cap q = p_cap p" "p_cancelled q = p_cancelled p"
      "p_handlers q = p_handlers p" "p_done q = p_done p" "p_queued q = p_queued p"
      "p_completed q = p_completed p" "p_failed q = p_failed p"
    and len: "length (p_tasks q) \<le> length (p_tasks p)" "length (p_retry q) \<le> length (p_retry p)"
    and act: "p_active q = word_of_nat (size (busy (p_workers q)))" and stop: "stop_ok q"
    and elsewhere: "\<And>x. x \<noteq> t \<Longrightarrow> x \<in> set (p_tasks q) \<longleftrightarrow> x \<in> set (p_tasks p)"
      "\<And>x. x \<noteq> t \<Longrightarrow> x \<in> set (p_retry q) \<or> x \<in> snd ` set (p_timers q) \<longleftrightarrow>
         x \<in> set (p_retry p) \<or> x \<in> snd ` set (p_timers p)"
      "\<And>x. x \<noteq> t \<Longrightarrow> x \<in># busy (p_workers q) \<longleftrightarrow> x \<in># busy (p_workers p)"
  shows "in_hand q t k"
proof -
  have lo: "locs_ok p" and ch: "chan_ok p" and co: "counts_ok p"
    and fit: "\<And>x j. p_store p x = Some j \<Longrightarrow> task_fits p x j"
    using ok by (simp_all add: pool_ok_def)
  have "\<forall>x. count (add_mset t (locs q)) x \<le> 1"
    using lo unfolding locs_ok_def locs by (rule conjunct1)
  note cnt = count_add_le [OF this]
  have "locs_ok q"
    using lo cnt(2) unfolding locs_ok_def locs same(1) by simp
  moreover have "chan_ok q"
    using ch len by (simp add: chan_ok_def same)
  moreover have "counts_ok q"
    using co act by (simp add: counts_ok_def same finished_def)
  moreover have "task_fits q x j" if "x \<noteq> t" "p_store q x = Some j" for x j
  proof (rule task_fits_frame)
    show "task_fits p x j" using fit that(2) by (simp only: same(1))
  qed (use same(3,4) elsewhere [OF that(1)] in simp_all)
  moreover have "0 \<le> tk_Retries k \<and> tk_MaxRetries k < 2 ^ 63 - 1"
    using fit [OF st] by (simp add: task_fits_def)
  ultimately show ?thesis
    using st un le cnt(1) stop by (simp add: in_hand_def same)
qed

lemma fits_unsettled:
  assumes "pool_ok p" "t \<in># locs p"
  obtains k where "p_store p t = Some k" "\<not> settled k" "tk_Retries k \<le> max 0 (tk_MaxRetries k)"
    "t \<in> set (p_retry p) \<or> t \<in> snd ` set (p_timers p) \<Longrightarrow> tk_Retries k \<le> tk_MaxRetries k \<and>
       tk_Status k = TaskRetry"
    "t \<in># busy (p_workers p) \<Longrightarrow> tk_Type k \<in> dom (p_handlers p)"
proof -
  from assms obtain k where k: "p_store p t = Some k" "task_fits p t k"
    by (auto simp: pool_ok_def locs_ok_def)
  with assms(2) that show ?thesis
    by (auto simp: in_locs task_fits_def settled_def)
qed

lemma take_up_task:
  assumes "pool_ok p" "p_tasks p = t # ts"
  shows "\<exists>k. in_hand (p\<lparr>p_tasks := ts\<rparr>) t k"
proof -
  have "t \<in># locs p" using assms(2) by (simp add: in_locs)
  with assms(1) obtain k where "p_store p t = Some k" "\<not> settled k"
    "tk_Retries k \<le> max 0 (tk_MaxRetries k)"
    by (rule fits_unsettled)
  then have "in_hand (p\<lparr>p_tasks := ts\<rparr>) t k"
    using assms by (intro take_up [of p]) (auto simp: locs_def pool_ok_def counts_ok_def stop_ok_def)
  then show ?thesis ..
qed

lemma take_up_retry:
  assumes "pool_ok p" "p_retry p = t # ts"
  shows "\<exists>k. in_hand (p\<lparr>p_retry := ts\<rparr>) t k"
proof -
  have "t \<in># locs p" using assms(2) by (simp add: in_locs)
  with assms(1) obtain k where "p_store p t = Some k" "\<not> settled k"
    "tk_Retries k \<le> max 0 (tk_MaxRetries k)"
    by (rule fits_unsettled)
  then have "in_hand (p\<lparr>p_retry := ts\<rparr>) t k"
    using assms by (intro take_up [of p]) (auto simp: locs_def pool_ok_def counts_ok_def stop_ok_def)
  then show ?thesis ..
qed

lemma take_up_timer:
  assumes "pool_ok p" "p_timers p = xs @ (d, t) # ys"
  shows "\<exists>k. in_hand (p\<lparr>p_timers := xs @ ys\<rparr>) t k \<and> tk_Retries k \<le> tk_MaxRetries k \<and>
    tk_Status k = TaskRetry"
proof -
  have "t \<in># locs p" "t \<in> snd ` set (p_timers p)" using assms(2) by (simp_all add: in_locs)
  with assms(1) obtain k where "p_store p t = Some k" "\<not> settled k"
    "tk_Retries k \<le> max 0 (tk_MaxRetries k)" "tk_Retries k \<le> tk_MaxRetries k \<and> tk_Status k = TaskRetry"
    by (metis fits_unsettled)
  moreover from this have "in_hand (p\<lparr>p_timers := xs @ ys\<rparr>) t k"
    using assms by (intro take_up [of p]) (auto simp: locs_def pool_ok_def counts_ok_def stop_ok_def)
  ultimately show ?thesis by blast
qed

text \<open>A worker that has a task in its hands counts as active; laying it aside takes one off.\<close>

lemma take_up_busy:
  assumes "pool_ok p" "i < length (p_workers p)" "p_workers p ! i = Busy t"
  shows "\<exists>k. in_hand (p\<lparr>p_active := p_active p - 1, p_workers := (p_workers p)[i := Idle]\<rparr>) t k \<and>
    tk_Type k \<in> dom (p_handlers p)"
proof -
  let ?rest = "busy (take i (p_workers p) @ drop (Suc i) (p_workers p))"
  have b: "busy (p_workers p) = add_mset t ?rest" "busy ((p_workers p)[i := Idle]) = ?rest"
    using busy_split [OF assms(2)] busy_update [OF assms(2), of Idle] assms(3) by simp_all
  have "t \<in># locs p" "t \<in># busy (p_workers p)" using b by (simp_all add: in_locs)
  with assms(1) obtain k where k: "p_store p t = Some k" "\<not> settled k"
    "tk_Retries k \<le> max 0 (tk_MaxRetries k)" "tk_Type k \<in> dom (p_handlers p)"
    by (metis fits_unsettled)
  have "stop_ok (p\<lparr>p_active := p_active p - 1, p_workers := (p_workers p)[i := Idle]\<rparr>)"
    using assms nth_mem [OF assms(2)] by (auto simp: pool_ok_def stop_ok_def dest!: set_update_subset_insert [THEN subsetD])
  then have "in_hand (p\<lparr>p_active := p_active p - 1, p_workers := (p_workers p)[i := Idle]\<rparr>) t k"
    using assms k by (intro take_up [of p]) (auto simp: locs_def pool_ok_def counts_ok_def b)
  with k(4) show ?thesis by blast
qed

section \<open>Putting a task down\<close>

text \<open>
  The pool \<open>p'\<close> is \<open>q\<close> with \<open>t\<close>, now recorded as \<open>k'\<close>, put where \<open>new\<close> says; with no place it is
  settled, or dropped by a cancelled timer.
\<close>

lemma put_down:
  assumes hand: "in_hand q t k"
    and st: "p_store p' = (p_store q)(t \<mapsto> k')" and fit: "task_fits p' t k'"
    and locs: "locs p' = new + locs q" "new = {#} \<or> new = {#t#}"
    and same: "p_cap p' = p_cap q" "p_cancelled p' = p_cancelled q" "p_handlers p' = p_handlers q"
      "p_queued p' = p_queued q"
    and len: "chan_ok p'" and stop: "stop_ok p'"
    and act: "p_active p' = word_of_nat (size (busy (p_workers p')))"
    and comp: "p_completed p' = (if tk_Status k' = TaskCompleted then p_completed q + 1 else p_completed q)"
    and fail: "p_failed p' = (if tk_Status k' = TaskFailed then p_failed q + 1 else p_failed q)"
    and elsewhere: "\<And>x. x \<noteq> t \<Longrightarrow> x \<in> set (p_tasks p') \<longleftrightarrow> x \<in> set (p_tasks q)"
      "\<And>x. x \<noteq> t \<Longrightarrow> x \<in> set (p_retry p') \<or> x \<in> snd ` set (p_timers p') \<longleftrightarrow>
         x \<in> set (p_retry q) \<or> x \<in> snd ` set (p_timers q)"
      "\<And>x. x \<noteq> t \<Longrightarrow> x \<in># busy (p_workers p') \<longleftrightarrow> x \<in># busy (p_workers q)"
  shows "pool_ok p'"
proof -
  have lo: "locs_ok q" and co: "counts_ok q" and out: "t \<notin># locs q" and old: "p_store q t = Some k"
    and un: "\<not> settled k"
    and fits: "\<And>x j. x \<noteq> t \<Longrightarrow> p_store q x = Some j \<Longrightarrow> task_fits q x j"
    using hand by (simp_all add: in_hand_def)
  have dom: "dom (p_store p') = dom (p_store q)"
    using st old by auto
  have "locs_ok p'"
    using lo out locs(2) old unfolding locs_ok_def dom locs(1) by (auto simp: not_in_iff)
  moreover have fin: "finished p' s = (if tk_Status k' = s then insert t (finished q s) else finished q s - {t})" for s
    using st by (auto simp: finished_def)
  have notin: "t \<notin> finished q TaskCompleted" "t \<notin> finished q TaskFailed"
    using old un by (auto simp: finished_def settled_def)
  have "finite (finished q s)" for s
    using lo finite_finished by (auto simp: locs_ok_def)
  then have "counts_ok p'"
    using co act notin by (simp add: counts_ok_def dom same comp fail fin)
  moreover have "task_fits p' x j" if "p_store p' x = Some j" for x j
  proof (cases "x = t")
    case True
    with that st fit show ?thesis by simp
  next
    case False
    show ?thesis
    proof (rule task_fits_frame)
      show "task_fits q x j" using fits [OF False] that st False by simp
    qed (use same(2,3) elsewhere [OF False] in simp_all)
  qed
  ultimately show ?thesis
    using len stop by (simp add: pool_ok_def)
qed

lemma in_hand_out:
  assumes "in_hand q t k"
  shows "t \<notin> set (p_tasks q)" "t \<notin> set (p_retry q)" "t \<notin># busy (p_workers q)"
    "t \<notin> snd ` set (p_timers q)"
  using assms by (auto simp: in_hand_def in_locs)

lemma in_hand_at: "in_hand q t k \<Longrightarrow> task_at q t = k"
  by (simp add: in_hand_def task_at_def)

lemma process_start_ok:
  assumes h: "in_hand q t k" and i: "i < length (p_workers q)" "p_workers q ! i = Idle"
  shows "pool_ok (process_start i t now q)"
proof (cases "p_handlers q (tk_Type k)")
  case None
  with h show ?thesis
    using in_hand_out [OF h]
    by (intro put_down [OF h, where new = "{#}" and
          k' = "k\<lparr>tk_Status := TaskFailed, tk_Error := Some (no_handler_error (tk_Type k)),
                 tk_UpdatedAt := now\<rparr>"])
       (auto simp: process_start_def in_hand_at [OF h] in_hand_def pool_parts task_fits_def settled_def
          locs_def Let_def)
next
  case (Some f)
  let ?rest = "busy (take i (p_workers q) @ drop (Suc i) (p_workers q))"
  have b: "busy (p_workers q) = ?rest" "busy ((p_workers q)[i := Busy t]) = add_mset t ?rest"
    using busy_split [OF i(1)] busy_update [OF i(1), of "Busy t"] i(2) by simp_all
  have s: "stop_ok (q\<lparr>p_workers := (p_workers q)[i := Busy t]\<rparr>)"
    using h i nth_mem [OF i(1)]
    by (auto simp: in_hand_def stop_ok_def dest!: set_update_subset_insert [THEN subsetD])
  from Some h s show ?thesis
    using in_hand_out [OF h]
    by (intro put_down [OF h, where new = "{#t#}" and
          k' = "k\<lparr>tk_Status := TaskRunning, tk_UpdatedAt := now\<rparr>"])
       (auto simp: process_start_def in_hand_at [OF h] in_hand_def pool_parts task_fits_def
          locs_def Let_def b)
qed

text \<open>The three ends of \<^verbatim>\<open>processTask\<close>: done, to be retried, given up.\<close>

definition laid :: "nat \<Rightarrow> 'd pool \<Rightarrow> 'd pool" where
  "laid i p = p\<lparr>p_active := p_active p - 1, p_workers := (p_workers p)[i := Idle]\<rparr>"

lemma laid_simps [simp]:
  "p_store (laid i p) = p_store p" "p_handlers (laid i p) = p_handlers p"
  "task_at (laid i p) t = task_at p t"
  by (simp_all add: laid_def task_at_def)

lemma process_finish_laid:
  assumes "q = laid i p" "task_at q t = k" "i64 (tk_Retries k + 1) = tk_Retries k + 1"
  shows "process_finish i t None now p =
      q\<lparr>p_store := (p_store q)(t \<mapsto> k\<lparr>tk_Status := TaskCompleted, tk_UpdatedAt := now\<rparr>),
        p_completed := p_completed q + 1\<rparr>"
    and "tk_Retries k + 1 \<le> tk_MaxRetries k \<Longrightarrow> process_finish i t (Some e) now p =
      q\<lparr>p_store := (p_store q)(t \<mapsto> k\<lparr>tk_Retries := tk_Retries k + 1, tk_Status := TaskRetry,
                                       tk_Error := Some e, tk_UpdatedAt := now\<rparr>),
        p_timers := p_timers q @ [(backoff (tk_Retries k + 1), t)]\<rparr>"
    and "\<not> tk_Retries k + 1 \<le> tk_MaxRetries k \<Longrightarrow> process_finish i t (Some e) now p =
      q\<lparr>p_store := (p_store q)(t \<mapsto> k\<lparr>tk_Retries := tk_Retries k + 1, tk_Status := TaskFailed,
                                       tk_Error := Some e\<rparr>),
        p_failed := p_failed q + 1\<rparr>"
  using assms by (simp_all add: process_finish_def laid_def task_at_def Let_def)

lemma process_finish_ok:
  assumes "in_hand (laid i p) t k"
  shows "pool_ok (process_finish i t result now p)"
proof -
  obtain q where q: "q = laid i p" by simp
  with assms have h: "in_hand q t k" by simp
  have r: "i64 (tk_Retries k + 1) = tk_Retries k + 1"
    using h by (simp add: in_hand_def max_def split: if_splits)
  note e = process_finish_laid [OF q in_hand_at [OF h] r]
  note parts = in_hand_def pool_parts task_fits_def settled_def locs_def
  show ?thesis
  proof (cases result)
    case None
    then show ?thesis
      unfolding None e using h in_hand_out [OF h]
      by (intro put_down [OF h, where new = "{#}" and
            k' = "k\<lparr>tk_Status := TaskCompleted, tk_UpdatedAt := now\<rparr>"]) (auto simp: parts)
  next
    case (Some x)
    show ?thesis
    proof (cases "tk_Retries k + 1 \<le> tk_MaxRetries k")
      case True
      then show ?thesis
        unfolding Some e(2) [OF True] using h in_hand_out [OF h]
        by (intro put_down [OF h, where new = "{#t#}" and
              k' = "k\<lparr>tk_Retries := tk_Retries k + 1, tk_Status := TaskRetry, tk_Error := Some x,
                     tk_UpdatedAt := now\<rparr>"]) (auto simp: parts)
    next
      case False
      then show ?thesis
        unfolding Some e(3) [OF False] using h in_hand_out [OF h]
        by (intro put_down [OF h, where new = "{#}" and
              k' = "k\<lparr>tk_Retries := tk_Retries k + 1, tk_Status := TaskFailed, tk_Error := Some x\<rparr>"])
           (auto simp: parts)
    qed
  qed
qed

lemma fire_ok:
  assumes h: "in_hand q t k" "tk_Retries k \<le> tk_MaxRetries k" "tk_Status k = TaskRetry"
    and room: "length (p_retry q) < p_cap q"
  shows "pool_ok (q\<lparr>p_retry := p_retry q @ [t]\<rparr>)"
  using h(1) in_hand_out [OF h(1)] h(2,3) room
  by (intro put_down [OF h(1), where new = "{#t#}" and k' = k])
     (auto simp: in_hand_def pool_parts task_fits_def settled_def locs_def fun_upd_idem)

lemma give_up_ok:
  assumes h: "in_hand q t k" "tk_Status k = TaskRetry" and c: "p_cancelled q"
  shows "pool_ok q"
  using h(1) in_hand_out [OF h(1)] h(2) c
  by (intro put_down [OF h(1), where new = "{#}" and k' = k])
     (auto simp: in_hand_def pool_parts task_fits_def settled_def locs_def fun_upd_idem)

section \<open>Every step keeps the invariant\<close>

lemma works_ok:
  assumes "works p p'" "pool_ok p"
  shows "pool_ok p'"
  using assms(1)
proof cases
  case (take_task i t ts now)
  from take_up_task [OF assms(2) take_task(4)] obtain k where "in_hand (p\<lparr>p_tasks := ts\<rparr>) t k" ..
  then show ?thesis
    unfolding take_task(1) by (rule process_start_ok) (simp_all add: take_task(2,3))
next
  case (take_retry i t ts now)
  from take_up_retry [OF assms(2) take_retry(4)] obtain k where "in_hand (p\<lparr>p_retry := ts\<rparr>) t k" ..
  then show ?thesis
    unfolding take_retry(1) by (rule process_start_ok) (simp_all add: take_retry(2,3))
next
  case (finish i t h result now)
  from take_up_busy [OF assms(2) finish(2,3)] obtain k where "in_hand (laid i p) t k"
    unfolding laid_def by blast
  then show ?thesis
    unfolding finish(1) by (rule process_finish_ok)
next
  case (fire xs d t ys)
  from take_up_timer [OF assms(2) fire(2)] obtain k where
    k: "in_hand (p\<lparr>p_timers := xs @ ys\<rparr>) t k" "tk_Retries k \<le> tk_MaxRetries k" "tk_Status k = TaskRetry"
    by blast
  have "pool_ok (p\<lparr>p_timers := xs @ ys\<rparr>
    \<lparr>p_retry := p_retry (p\<lparr>p_timers := xs @ ys\<rparr>) @ [t]\<rparr>)"
    using k by (rule fire_ok) (simp add: fire(3))
  then show ?thesis by (simp add: fire(1))
next
  case (hand_back xs d t ys i now)
  from take_up_timer [OF assms(2) hand_back(2)] obtain k where "in_hand (p\<lparr>p_timers := xs @ ys\<rparr>) t k"
    by blast
  then show ?thesis
    unfolding hand_back(1) by (rule process_start_ok) (simp_all add: hand_back(4,5))
next
  case (give_up xs d t ys)
  from take_up_timer [OF assms(2) give_up(2)] obtain k where
    k: "in_hand (p\<lparr>p_timers := xs @ ys\<rparr>) t k" "tk_Status k = TaskRetry"
    by blast
  then show ?thesis
    unfolding give_up(1) by (rule give_up_ok) (simp add: give_up(3))
next
  case (stop i)
  then have b: "busy ((p_workers p)[i := Stopped]) = busy (p_workers p)"
    using busy_split [of i "p_workers p"] busy_update [of i "p_workers p" Stopped] by simp
  have "stop_ok p'"
    using stop assms(2) nth_mem [OF stop(2)]
    by (auto simp: pool_ok_def stop_ok_def dest!: set_update_subset_insert [THEN subsetD])
  with stop b assms(2) show ?thesis
    by (auto simp: pool_ok_def chan_ok_def locs_ok_def counts_ok_def task_fits_def locs_def finished_def)
next
  case close
  with assms(2) show ?thesis
    by (auto simp: pool_ok_def pool_parts task_fits_def locs_def finished_def)
qed

text \<open>A task that is being submitted is in the submitter's hands.\<close>

lemma submitted_in_hand:
  assumes "pool_ok p" "p_store p t = None" "new_task k"
  shows "in_hand (p\<lparr>p_store := (p_store p)(t \<mapsto> k), p_queued := p_queued p + 1\<rparr>) t k"
proof -
  let ?q = "p\<lparr>p_store := (p_store p)(t \<mapsto> k), p_queued := p_queued p + 1\<rparr>"
  have locs: "locs ?q = locs p" by (simp add: locs_def)
  have out: "t \<notin># locs p"
    using assms(1,2) by (auto simp: pool_ok_def locs_ok_def)
  have fin: "finished ?q s = finished p s" if "s \<noteq> TaskPending" for s
    using assms(2,3) that by (auto simp: finished_def new_task_def)
  have "card (insert t (dom (p_store p))) = Suc (card (dom (p_store p)))"
    using assms(1,2) by (intro card_insert_disjoint) (auto simp: pool_ok_def locs_ok_def)
  then have "counts_ok ?q"
    using assms(1) fin by (simp add: pool_ok_def counts_ok_def)
  moreover have "locs_ok ?q"
    using assms(1) unfolding pool_ok_def locs_ok_def locs by auto
  moreover have "task_fits ?q x j" if "x \<noteq> t" "p_store ?q x = Some j" for x j
  proof (rule task_fits_frame)
    show "task_fits p x j" using assms(1) that by (simp add: pool_ok_def)
  qed simp_all
  ultimately show ?thesis
    using assms(1,3) out by (auto simp: in_hand_def locs pool_ok_def chan_ok_def stop_ok_def new_task_def settled_def)
qed

lemma send_ok:
  assumes h: "in_hand q t k" "tk_Status k = TaskPending" "tk_Retries k = 0"
    and room: "length (p_tasks q) < p_cap q"
  shows "pool_ok (q\<lparr>p_tasks := p_tasks q @ [t]\<rparr>)"
  using h(1) in_hand_out [OF h(1)] h(2,3) room
  by (intro put_down [OF h(1), where new = "{#t#}" and k' = k])
     (auto simp: in_hand_def pool_parts task_fits_def settled_def locs_def fun_upd_idem)

lemma submit_ok:
  assumes "pool_ok p" "submit_ready ch p" "p_store p t = None" "new_task k"
  shows "pool_ok (snd (Submit ch t k p))"
proof -
  note h = submitted_in_hand [OF assms(1,3,4)]
  show ?thesis
  proof (cases ch)
    case SendTask
    with assms(2,4) send_ok [OF h] show ?thesis
      by (simp add: Submit_def submit_ready_def new_task_def)
  next
    case (HandTo i now)
    with assms(2) process_start_ok [OF h, of i now] show ?thesis
      by (simp add: Submit_def submit_ready_def)
  qed (use assms(1) in \<open>simp_all add: Submit_def\<close>)
qed

lemma pool_step_ok:
  assumes "pool_step p p'" "pool_ok p"
  shows "pool_ok p'"
  using assms(1)
proof cases
  case work
  then show ?thesis using works_ok assms(2) by blast
next
  case (submit ch t k)
  then show ?thesis using submit_ok assms(2) by blast
next
  case cancel
  with assms(2) show ?thesis
    by (auto simp: pool_ok_def pool_parts task_fits_def locs_def finished_def)
qed

lemma reach_ok: "reach p0 p \<Longrightarrow> pool_ok p0 \<Longrightarrow> pool_ok p"
  by (induction rule: reach.induct) (auto intro: pool_step_ok)

end
