(* ===== verification/Pool_Runs.thy ===== *)
theory Pool_Runs
  imports Pool_Facts
begin

text \<open>
  Runs of the worker pool: a measure that every step except a submission lowers, what is left when
  no step is possible, and the properties of the pool.
\<close>

section \<open>A measure of the work that is left\<close>

definition tries :: "'d Task \<Rightarrow> nat" where
  "tries k = nat (tk_MaxRetries k - tk_Retries k)"

definition weigh :: "nat \<Rightarrow> 'd pool \<Rightarrow> ptr multiset \<Rightarrow> nat" where
  "weigh c p A = (\<Sum>t\<in>#A. 4 * tries (task_at p t) + c)"

text \<open>From a queue to a worker, to a timer, to the retry queue and back costs less every time.\<close>

definition load :: "'d pool \<Rightarrow> nat" where
  "load p =
     weigh 3 p (mset (p_tasks p)) + weigh 4 p (mset (p_retry p)) + weigh 2 p (busy (p_workers p)) +
     weigh 5 p (mset (map snd (p_timers p))) + length (filter (\<lambda>w. w \<noteq> Stopped) (p_workers p)) +
     (if p_done p then 0 else 1)"

lemma weigh_simps [simp]:
  "weigh c p {#} = 0" "weigh c p (add_mset t A) = 4 * tries (task_at p t) + c + weigh c p A"
  "weigh c p (A + B) = weigh c p A + weigh c p B"
  by (simp_all add: weigh_def)

lemma weigh_same: "p_store p = p_store q \<Longrightarrow> weigh c p A = weigh c q A"
  by (simp add: weigh_def task_at_def)

lemma weigh_upd:
  assumes "p_store p = (p_store q)(t \<mapsto> k)" "t \<notin># A"
  shows "weigh c p A = weigh c q A"
proof -
  have "task_at p x = task_at q x" if "x \<in># A" for x
    using that assms by (auto simp: task_at_def)
  then show ?thesis
    unfolding weigh_def by (intro arg_cong [where f = sum_mset] image_mset_cong) simp
qed

definition awake :: "worker list \<Rightarrow> nat" where
  "awake ws = length (filter (\<lambda>w. w \<noteq> Stopped) ws)"

lemma awake_split:
  "i < length ws \<Longrightarrow>
    awake ws = (if ws ! i = Stopped then 0 else 1) + awake (take i ws @ drop (Suc i) ws)"
  by (subst id_take_nth_drop [of i ws]) (simp_all add: awake_def)

lemma awake_update:
  "i < length ws \<Longrightarrow>
    awake (ws[i := w]) = (if w = Stopped then 0 else 1) + awake (take i ws @ drop (Suc i) ws)"
  by (simp add: upd_conv_take_nth_drop awake_def)

lemmas load_awake = load_def [folded awake_def]

lemma load_gone:
  assumes "in_hand q t k"
    and "p_store p' = (p_store q)(t \<mapsto> k')" "p_tasks p' = p_tasks q" "p_retry p' = p_retry q"
      "p_timers p' = p_timers q" "p_workers p' = p_workers q" "p_done p' = p_done q"
  shows "load p' = load q"
  using in_hand_out [OF assms(1)] assms(3-) by (simp add: load_def weigh_upd [OF assms(2)])

lemma process_start_load:
  assumes h: "in_hand q t k" and i: "i < length (p_workers q)" "p_workers q ! i = Idle"
  shows "load (process_start i t now q) \<le> load q + 4 * tries k + 2"
proof -
  note out = in_hand_out [OF h]
  let ?p' = "process_start i t now q"
  show ?thesis
  proof (cases "p_handlers q (tk_Type k)")
    case None
    let ?k = "k\<lparr>tk_UpdatedAt := now, tk_Status := TaskFailed, tk_Error := Some (no_handler_error (tk_Type k))\<rparr>"
    have "load ?p' = load q"
      using None by (intro load_gone [OF h, where k' = ?k]) (simp_all add: process_start_def in_hand_at [OF h] Let_def)
    then show ?thesis by simp
  next
    case (Some f)
    let ?k = "k\<lparr>tk_Status := TaskRunning, tk_UpdatedAt := now\<rparr>"
    let ?rest = "busy (take i (p_workers q) @ drop (Suc i) (p_workers q))"
    have s: "p_store ?p' = (p_store q)(t \<mapsto> ?k)"
      using Some by (simp add: process_start_def in_hand_at [OF h] Let_def)
    have w: "p_workers ?p' = (p_workers q)[i := Busy t]"
      using Some by (simp add: process_start_def in_hand_at [OF h] Let_def)
    have b: "busy (p_workers q) = ?rest" "busy (p_workers ?p') = add_mset t ?rest"
      using busy_split [OF i(1)] busy_update [OF i(1), of "Busy t"] i(2) w by simp_all
    have a: "awake (p_workers ?p') = awake (p_workers q)"
      using awake_split [OF i(1)] awake_update [OF i(1), of "Busy t"] i(2) w by simp
    have k: "task_at ?p' t = ?k" "tries ?k = tries k"
      using s by (simp_all add: task_at_def tries_def)
    have same: "p_tasks ?p' = p_tasks q" "p_retry ?p' = p_retry q" "p_timers ?p' = p_timers q"
      "p_done ?p' = p_done q"
      using Some by (simp_all add: process_start_def in_hand_at [OF h] Let_def)
    have "t \<notin># ?rest" using out(3) b(1) by simp
    then show ?thesis
      using out by (simp add: load_awake same weigh_upd [OF s] b a k)
  qed
qed

lemma process_finish_load:
  assumes h: "in_hand (laid i p) t k"
  shows "load (process_finish i t result now p) \<le> load (laid i p) + 4 * tries k + 1"
proof -
  obtain q where q: "q = laid i p" by simp
  with h have h: "in_hand q t k" by simp
  have r: "i64 (tk_Retries k + 1) = tk_Retries k + 1"
    using h by (simp add: in_hand_def max_def split: if_splits)
  note e = process_finish_laid [OF q in_hand_at [OF h] r]
  note out = in_hand_out [OF h]
  show ?thesis unfolding q [symmetric]
  proof (cases result)
    case None
    show "load (process_finish i t result now p) \<le> load q + 4 * tries k + 1"
      unfolding None e by (subst load_gone [OF h]) simp_all
  next
    case (Some x)
    show "load (process_finish i t result now p) \<le> load q + 4 * tries k + 1"
    proof (cases "tk_Retries k + 1 \<le> tk_MaxRetries k")
      case True
      let ?k = "k\<lparr>tk_Retries := tk_Retries k + 1, tk_Status := TaskRetry, tk_Error := Some x,
                  tk_UpdatedAt := now\<rparr>"
      obtain p' where p': "p' = process_finish i t result now p" by simp
      have s: "p_store p' = (p_store q)(t \<mapsto> ?k)"
        and same: "p_tasks p' = p_tasks q" "p_retry p' = p_retry q" "p_workers p' = p_workers q"
          "p_done p' = p_done q" "p_timers p' = p_timers q @ [(backoff (tk_Retries k + 1), t)]"
        unfolding p' Some e(2) [OF True] by simp_all
      have "tries k = Suc (tries ?k)" "task_at p' t = ?k"
        using True s by (simp_all add: tries_def task_at_def)
      then show ?thesis
        unfolding p' [symmetric] using out by (simp add: load_def weigh_upd [OF s] same)
    next
      case False
      show ?thesis
        unfolding Some e(3) [OF False] by (subst load_gone [OF h]) simp_all
    qed
  qed
qed

text \<open>Every step but a submission lowers the load.\<close>

lemma works_load:
  assumes "works p p'" "pool_ok p"
  shows "load p' < load p"
  using assms(1)
proof cases
  case (take_task i t ts now)
  let ?q = "p\<lparr>p_tasks := ts\<rparr>"
  from take_up_task [OF assms(2) take_task(4)] obtain k where h: "in_hand ?q t k" ..
  have "load p = load ?q + 4 * tries k + 3"
    using take_task(4) in_hand_at [OF h]
    by (simp add: load_def weigh_same [of "p\<lparr>p_tasks := ts\<rparr>" p] task_at_def)
  with process_start_load [OF h, of i now] take_task show ?thesis by simp
next
  case (take_retry i t ts now)
  let ?q = "p\<lparr>p_retry := ts\<rparr>"
  from take_up_retry [OF assms(2) take_retry(4)] obtain k where h: "in_hand ?q t k" ..
  have "load p = load ?q + 4 * tries k + 4"
    using take_retry(4) in_hand_at [OF h]
    by (simp add: load_def weigh_same [of "p\<lparr>p_retry := ts\<rparr>" p] task_at_def)
  with process_start_load [OF h, of i now] take_retry show ?thesis by simp
next
  case (finish i t h result now)
  let ?rest = "busy (take i (p_workers p) @ drop (Suc i) (p_workers p))"
  from take_up_busy [OF assms(2) finish(2,3)] obtain k where h: "in_hand (laid i p) t k"
    unfolding laid_def by blast
  have b: "busy (p_workers p) = add_mset t ?rest" "busy ((p_workers p)[i := Idle]) = ?rest"
    using busy_split [OF finish(2)] busy_update [OF finish(2), of Idle] finish(3) by simp_all
  have a: "awake ((p_workers p)[i := Idle]) = awake (p_workers p)"
    using awake_split [OF finish(2)] awake_update [OF finish(2), of Idle] finish(3) by simp
  have "load p = load (laid i p) + 4 * tries k + 2"
    using in_hand_at [OF h] a b
    by (simp add: load_awake weigh_same [of "laid i p" p]) (simp add: laid_def)
  with process_finish_load [OF h, of result now] finish(1) show ?thesis by simp
next
  case (fire xs d t ys)
  then show ?thesis
    by (simp add: load_def weigh_same [of "p\<lparr>p_timers := xs @ ys, p_retry := p_retry p @ [t]\<rparr>" p] task_at_def)
next
  case (hand_back xs d t ys i now)
  let ?q = "p\<lparr>p_timers := xs @ ys\<rparr>"
  from take_up_timer [OF assms(2) hand_back(2)] obtain k where h: "in_hand ?q t k" by blast
  have "load p = load ?q + 4 * tries k + 5"
    using hand_back(2) in_hand_at [OF h] by (simp add: load_def weigh_same [of ?q p] task_at_def)
  with process_start_load [OF h, of i now] hand_back show ?thesis by simp
next
  case (give_up xs d t ys)
  then show ?thesis
    by (simp add: load_def weigh_same [of "p\<lparr>p_timers := xs @ ys\<rparr>" p])
next
  case (stop i)
  have "busy ((p_workers p)[i := Stopped]) = busy (p_workers p)"
    using busy_split [OF stop(2)] busy_update [OF stop(2), of Stopped] stop(3) by simp
  moreover have "awake (p_workers p) = Suc (awake ((p_workers p)[i := Stopped]))"
    using awake_split [OF stop(2)] awake_update [OF stop(2), of Stopped] stop(3) by simp
  ultimately show ?thesis
    using stop(1) by (simp add: load_awake weigh_same [of "p\<lparr>p_workers := (p_workers p)[i := Stopped]\<rparr>" p])
next
  case close
  then show ?thesis
    by (simp add: load_def weigh_same [of "p\<lparr>p_done := True\<rparr>" p])
qed

lemma run_load: "run n p p' \<Longrightarrow> pool_ok p \<Longrightarrow> n + load p' \<le> load p \<and> pool_ok p'"
proof (induction rule: run.induct)
  case (runS p p' n p'')
  then show ?case
    using works_load [OF runS.hyps(1)] works_ok [OF runS.hyps(1)] by fastforce
qed simp

section \<open>When the pool is at rest\<close>

definition handlers_answer :: "'d pool \<Rightarrow> bool" where
  "handlers_answer p \<longleftrightarrow> (\<forall>ty h. p_handlers p ty = Some h \<longrightarrow> (\<forall>k. \<exists>result. h k result))"

definition resting :: "'d pool \<Rightarrow> bool" where
  "resting p \<longleftrightarrow> (\<forall>p'. \<not> works p p')"

lemma resting_not_busy:
  assumes "pool_ok p" "resting p" "handlers_answer p" "i < length (p_workers p)"
  shows "p_workers p ! i \<noteq> Busy s"
proof
  assume b: "p_workers p ! i = Busy s"
  then have "s \<in># locs p" "s \<in># busy (p_workers p)"
    using busy_split [OF assms(4)] by (simp_all add: in_locs)
  with assms(1) obtain j where "p_store p s = Some j" "tk_Type j \<in> dom (p_handlers p)"
    by (metis fits_unsettled)
  then obtain h where "p_handlers p (tk_Type (task_at p s)) = Some h" by (auto simp: task_at_def)
  moreover from this assms(3) obtain result where "h (task_at p s) result"
    unfolding handlers_answer_def by meson
  ultimately show False using finish [OF assms(4) b] assms(2) by (auto simp: resting_def)
qed

lemma resting_settled:
  assumes ok: "pool_ok p" and rest: "resting p" and ans: "handlers_answer p"
    and live: "\<not> p_cancelled p" "p_workers p \<noteq> []" and st: "p_store p t = Some k"
  shows "settled k"
proof -
  have stuck: "\<not> works p p'" for p' using rest by (simp add: resting_def)
  have idle: "p_workers p ! i = Idle" if i: "i < length (p_workers p)" for i
  proof (cases "p_workers p ! i")
    case (Busy s)
    then show ?thesis using resting_not_busy [OF ok rest ans i] by simp
  next
    case Stopped
    with i have "Stopped \<in> set (p_workers p)" by (metis nth_mem)
    with ok live(1) show ?thesis by (simp add: pool_ok_def stop_ok_def)
  qed
  have w0: "0 < length (p_workers p)" using live(2) by simp
  have "p_tasks p = []"
    using take_task [OF w0 idle [OF w0]] stuck by (metis neq_Nil_conv)
  moreover have r: "p_retry p = []"
    using take_retry [OF w0 idle [OF w0]] stuck by (metis neq_Nil_conv)
  moreover have "p_timers p = []"
  proof (cases "p_timers p")
    case (Cons x ys)
    then have "p_timers p = [] @ (fst x, snd x) # ys" by simp
    from fire [OF this] hand_back [OF this _ w0 idle [OF w0]] r stuck show ?thesis
      by (cases "p_cap p = 0") simp_all
  qed simp
  moreover have "busy (p_workers p) = {#}"
    using idle by (intro busy_stopped) (auto simp: in_set_conv_nth)
  ultimately have "t \<notin># locs p" by (simp add: in_locs)
  with ok st live(1) show ?thesis by (auto simp: pool_ok_def task_fits_def)
qed

text \<open>When a cancelled pool is at rest, nobody is left: that is when \<^verbatim>\<open>Shutdown\<close> has returned.\<close>

lemma resting_stopped:
  assumes rest: "resting p" and c: "p_cancelled p"
    and free: "\<And>i t. i < length (p_workers p) \<Longrightarrow> p_workers p ! i \<noteq> Busy t"
  shows "p_done p \<and> set (p_workers p) \<subseteq> {Stopped} \<and> p_timers p = []"
proof -
  have stuck: "\<not> works p p'" for p' using rest by (simp add: resting_def)
  have "p_workers p ! i = Stopped" if i: "i < length (p_workers p)" for i
  proof (cases "p_workers p ! i")
    case Idle
    then show ?thesis using stop [OF i _ c] stuck by blast
  next
    case (Busy s)
    then show ?thesis using free [OF i] by simp
  qed
  then have "set (p_workers p) \<subseteq> {Stopped}" by (auto simp: in_set_conv_nth)
  moreover from this have "p_done p" using close [OF c] stuck by blast
  moreover have "p_timers p = []"
  proof (cases "p_timers p")
    case (Cons x ys)
    then have "p_timers p = [] @ (fst x, snd x) # ys" by simp
    from give_up [OF this c] stuck show ?thesis by simp
  qed simp
  ultimately show ?thesis by blast
qed

text \<open>What the steps leave alone.\<close>

lemma process_frame [simp]:
  "p_cancelled (process_start i t now p) = p_cancelled p" "p_cap (process_start i t now p) = p_cap p"
  "p_handlers (process_start i t now p) = p_handlers p"
  "length (p_workers (process_start i t now p)) = length (p_workers p)"
  "p_cancelled (process_finish i t r now p) = p_cancelled p" "p_cap (process_finish i t r now p) = p_cap p"
  "p_handlers (process_finish i t r now p) = p_handlers p"
  "length (p_workers (process_finish i t r now p)) = length (p_workers p)"
  by (simp_all add: process_start_def process_finish_def Let_def split: option.splits)

definition frame :: "'d pool \<Rightarrow> 'd pool \<Rightarrow> bool" where
  "frame p p' \<longleftrightarrow>
     p_cap p' = p_cap p \<and> p_handlers p' = p_handlers p \<and>
     length (p_workers p') = length (p_workers p)"

lemma frame_trans [trans]: "frame p q \<Longrightarrow> frame q r \<Longrightarrow> frame p r"
  by (simp add: frame_def)

lemma works_frame: "works p p' \<Longrightarrow> frame p p' \<and> p_cancelled p' = p_cancelled p"
  by (erule worksE) (simp_all add: frame_def)

lemma pool_step_frame:
  assumes "pool_step p p'"
  shows "frame p p'"
  using assms
proof cases
  case work
  then show ?thesis by (simp add: works_frame)
next
  case (submit ch t k)
  then show ?thesis by (cases ch) (simp_all add: frame_def Submit_def)
next
  case cancel
  then show ?thesis by (simp add: frame_def)
qed

lemma reach_frame: "reach p0 p \<Longrightarrow> frame p0 p"
  by (induction rule: reach.induct) (auto simp: frame_def [of p0 p0] intro: frame_trans pool_step_frame)

lemma run_frame: "run n p p' \<Longrightarrow> frame p p' \<and> p_cancelled p' = p_cancelled p"
proof (induction rule: run.induct)
  case (runS p p' n p'')
  with works_frame [OF runS.hyps(1)] show ?case by (auto intro: frame_trans)
qed (simp add: frame_def)

lemma works_keeps_store: "works p p' \<Longrightarrow> pool_ok p \<Longrightarrow> dom (p_store p') = dom (p_store p)"
proof (erule worksE)
  fix i t ts now
  assume a: "pool_ok p" "p' = process_start i t now (p\<lparr>p_tasks := ts\<rparr>)" "p_tasks p = t # ts"
  then have "t \<in> dom (p_store p)" by (auto simp: pool_ok_def locs_ok_def in_locs)
  with a(2) show ?thesis by (auto simp: process_start_def task_at_def Let_def split: option.splits)
next
  fix i t ts now
  assume a: "pool_ok p" "p' = process_start i t now (p\<lparr>p_retry := ts\<rparr>)" "p_retry p = t # ts"
  then have "t \<in> dom (p_store p)" by (auto simp: pool_ok_def locs_ok_def in_locs)
  with a(2) show ?thesis by (auto simp: process_start_def task_at_def Let_def split: option.splits)
next
  fix i t h r now
  assume a: "pool_ok p" "p' = process_finish i t r now p" "i < length (p_workers p)" "p_workers p ! i = Busy t"
  then have "t \<in> dom (p_store p)"
    using busy_split [OF a(3)] by (auto simp: pool_ok_def locs_ok_def in_locs)
  with a(2) show ?thesis by (auto simp: process_finish_def task_at_def Let_def split: option.splits if_splits)
next
  fix i t d xs ys now
  assume a: "pool_ok p" "p' = process_start i t now (p\<lparr>p_timers := xs @ ys\<rparr>)" "p_timers p = xs @ (d, t) # ys"
  then have "t \<in> dom (p_store p)" by (auto simp: pool_ok_def locs_ok_def in_locs)
  with a(2) show ?thesis by (auto simp: process_start_def task_at_def Let_def split: option.splits)
qed simp_all

lemma run_keeps_store: "run n p p' \<Longrightarrow> pool_ok p \<Longrightarrow> dom (p_store p') = dom (p_store p)"
  by (induction rule: run.induct) (simp_all add: works_keeps_store works_ok)

text \<open>A run that can go no further has settled every task.\<close>

lemma drained:
  assumes "pool_ok p" "p_workers p \<noteq> []" "handlers_answer p" "\<not> p_cancelled p"
    and "run n p p'" "resting p'"
  shows "dom (p_store p') = dom (p_store p) \<and> (\<forall>t k. p_store p' t = Some k \<longrightarrow> settled k)"
proof -
  have fr: "frame p p'" and c: "\<not> p_cancelled p'"
    using run_frame [OF assms(5)] assms(4) by simp_all
  have ok: "pool_ok p'" using run_load [OF assms(5,1)] by simp
  have "handlers_answer p'" "p_workers p' \<noteq> []"
    using fr assms(2,3) by (auto simp: frame_def handlers_answer_def)
  then show ?thesis
    using resting_settled [OF ok assms(6) _ c] run_keeps_store [OF assms(5,1)] by blast
qed

section \<open>The properties of the pool\<close>

text \<open>A pool with its handlers registered, after any steps of its clients and goroutines.\<close>

definition with_handlers :: "(int \<times> 'd task_handler) list \<Rightarrow> 'd pool \<Rightarrow> 'd pool" where
  "with_handlers hs p = fold (\<lambda>(ty, h). RegisterHandler ty h) hs p"

definition pool_from :: "int \<Rightarrow> int \<Rightarrow> (int \<times> 'd task_handler) list \<Rightarrow> 'd pool \<Rightarrow> bool" where
  "pool_from numWorkers queueSize hs p \<longleftrightarrow>
     (\<exists>p0. NewPool numWorkers queueSize = Inr p0 \<and> reach (with_handlers hs p0) p)"

lemma with_handlers_ok: "pool_ok p \<Longrightarrow> pool_ok (with_handlers hs p)"
  unfolding with_handlers_def
  by (induction hs arbitrary: p) (auto simp: pool_ok_RegisterHandler)

lemma with_handlers_frame:
  "p_cap (with_handlers hs p) = p_cap p" "p_workers (with_handlers hs p) = p_workers p"
  "p_store (with_handlers hs p) = p_store p"
  unfolding with_handlers_def
  by (induction hs arbitrary: p) (auto simp: RegisterHandler_def)

lemma pool_from_ok: "pool_from w q hs p \<Longrightarrow> pool_ok p"
  unfolding pool_from_def using pool_ok_NewPool with_handlers_ok reach_ok by blast

lemma pool_from_frame:
  assumes "pool_from w q hs p"
  shows "p_cap p = nat q \<and> length (p_workers p) = nat w \<and> 0 \<le> q"
proof -
  from assms obtain p0 where p0: "NewPool w q = Inr p0" and r: "reach (with_handlers hs p0) p"
    by (auto simp: pool_from_def)
  from p0 show ?thesis
    using reach_frame [OF r] by (auto simp: frame_def with_handlers_frame NewPool_def split: if_splits)
qed

text \<open>A pool of one worker with a notification handler that always succeeds, and one task in it.\<close>

definition sample_handlers :: "(int \<times> unit task_handler) list" where
  "sample_handlers = [(TaskNotificationDispatch, \<lambda>k r. r = None)]"

definition sample_task :: "unit Task" where
  "sample_task = \<lparr> tk_ID = ''t'', tk_Type = TaskNotificationDispatch, tk_Data = (),
     tk_Status = TaskPending, tk_Error = None, tk_Retries = 0, tk_MaxRetries = 3,
     tk_CreatedAt = 0, tk_UpdatedAt = 0 \<rparr>"

definition sample_fresh :: "unit pool" where
  "sample_fresh = \<lparr> p_store = Map.empty, p_cap = 1, p_tasks = [], p_retry = [], p_timers = [],
     p_workers = [Idle], p_handlers = [TaskNotificationDispatch \<mapsto> (\<lambda>k r. r = None)],
     p_cancelled = False, p_done = False, p_active = 0, p_queued = 0, p_completed = 0, p_failed = 0 \<rparr>"

definition sample_pool :: "unit pool" where
  "sample_pool = sample_fresh\<lparr>p_store := [0 \<mapsto> sample_task], p_tasks := [0], p_queued := 1\<rparr>"

definition sample_end :: "unit pool" where
  "sample_end = sample_fresh\<lparr>p_store := [0 \<mapsto> sample_task\<lparr>tk_Status := TaskCompleted, tk_UpdatedAt := 8\<rparr>],
     p_queued := 1, p_completed := 1\<rparr>"

lemma sample_from: "pool_from 1 1 sample_handlers sample_pool"
proof -
  have "reach sample_fresh (snd (Submit SendTask 0 sample_task sample_fresh))"
    by (rule more [OF here submit])
       (simp_all add: submit_ready_def sample_fresh_def new_task_def sample_task_def)
  then have "reach sample_fresh sample_pool"
    by (simp add: Submit_def sample_pool_def sample_fresh_def)
  then show ?thesis
    by (auto simp: pool_from_def NewPool_def with_handlers_def sample_handlers_def sample_fresh_def
        RegisterHandler_def)
qed

lemma sample_run: "run 2 sample_pool sample_end"
proof -
  let ?mid = "process_start 0 0 7 (sample_pool\<lparr>p_tasks := []\<rparr>)"
  have "works sample_pool ?mid"
    by (rule take_task) (simp_all add: sample_pool_def sample_fresh_def)
  moreover have "works ?mid (process_finish 0 0 None 8 ?mid)"
    by (rule finish [where h = "\<lambda>k r. r = None"])
       (simp_all add: sample_pool_def sample_fresh_def process_start_def task_at_def sample_task_def Let_def)
  moreover have "process_finish 0 0 None 8 ?mid = sample_end"
    by (simp add: sample_pool_def sample_fresh_def sample_end_def process_start_def
        process_finish_def task_at_def sample_task_def Let_def)
  ultimately show ?thesis by (metis numeral_2_eq_2 run0 runS)
qed

lemma sample_rest: "resting sample_end"
  unfolding resting_def by (auto simp: sample_end_def sample_fresh_def elim!: worksE)

text \<open>
  C5: No task is lost and none is duplicated. Whatever the clients, workers and timers of a pool
  do and in whatever order, both channels stay within the queue size, an accepted task is held in
  at most one place (a channel, a worker, a timer), a task in no place has completed or failed (or
  was dropped because the pool was cancelled), and it was tried at most \<^verbatim>\<open>MaxRetries + 1\<close> times.
\<close>
theorem pool_invariant:
  assumes "pool_from w q hs p"
  shows "length (p_tasks p) \<le> nat q \<and> length (p_retry p) \<le> nat q \<and>
    (\<forall>t k. p_store p t = Some k \<longrightarrow>
       0 \<le> tk_Retries k \<and> tk_Retries k \<le> max 0 (tk_MaxRetries k) + 1 \<and>
       (if t \<in># locs p then count (locs p) t = 1 \<and> \<not> settled k else settled k \<or> p_cancelled p))"
proof -
  note ok = pool_from_ok [OF assms]
  have "count (locs p) t = 1" if "t \<in># locs p" for t
  proof -
    have "count (locs p) t \<le> 1" using ok by (simp add: pool_ok_def locs_ok_def)
    with that show ?thesis by (simp add: count_greater_zero_iff [symmetric] del: count_greater_zero_iff)
  qed
  moreover have "task_fits p t k" if "p_store p t = Some k" for t k
    using ok that by (simp add: pool_ok_def)
  moreover have "\<not> settled k" if "p_store p t = Some k" "t \<in># locs p" for t k
    using fits_unsettled [OF ok that(2)] that(1) by auto
  ultimately show ?thesis
    using ok pool_from_frame [OF assms] by (auto simp: pool_ok_def chan_ok_def task_fits_def)
qed

theorem pool_invariant_witness:
  "length (p_tasks sample_pool) \<le> nat 1 \<and> p_store sample_pool 0 = Some sample_task"
  using pool_invariant [OF sample_from] by (simp add: sample_pool_def)

text \<open>
  What the statistics count: the workers holding a task, all tasks ever accepted (a task that
  has left the queue still counts as queued), the completed and the failed ones, modulo 2^32.
\<close>
theorem pool_stats:
  assumes "pool_from w q hs p"
  shows "Stats p = \<lparr> st_Active = word_of_nat (size (busy (p_workers p))),
                     st_Queued = word_of_nat (card (dom (p_store p))),
                     st_Completed = word_of_nat (card (finished p TaskCompleted)),
                     st_Failed = word_of_nat (card (finished p TaskFailed)) \<rparr>"
  using pool_from_ok [OF assms] by (simp add: Stats_def pool_ok_def counts_ok_def)

theorem pool_stats_witness: "st_Queued (Stats sample_pool) = 1"
  using pool_stats [OF sample_from] by (simp add: sample_pool_def)

text \<open>
  C19: The pool comes to rest. Without further submissions no run of it, whatever the handlers
  return and however its goroutines interleave, is longer than the work it holds, the \<open>load\<close>.
\<close>
theorem pool_terminates:
  assumes "pool_from w q hs p" "run n p p'"
  shows "n \<le> load p"
  using run_load [OF assms(2) pool_from_ok [OF assms(1)]] by simp

theorem pool_terminates_witness: "2 \<le> load sample_pool"
  using pool_terminates [OF sample_from sample_run] by simp

text \<open>
  C14: Every accepted task is finished. When a pool with a worker and handlers that
  return is not cancelled, any run of it that can go no further has completed or
  failed every task that was ever submitted, and has forgotten none.
\<close>
theorem pool_drains:
  assumes "pool_from w q hs p" "0 < w" "handlers_answer p" "\<not> p_cancelled p"
    and "run n p p'" "resting p'"
  shows "dom (p_store p') = dom (p_store p) \<and> (\<forall>t k. p_store p' t = Some k \<longrightarrow> settled k)"
proof -
  have "p_workers p \<noteq> []" using pool_from_frame [OF assms(1)] assms(2) by auto
  then show ?thesis by (rule drained [OF pool_from_ok [OF assms(1)] _ assms(3-6)])
qed

theorem pool_drains_witness: "\<exists>k. p_store sample_end 0 = Some k \<and> settled k"
proof -
  have "handlers_answer sample_pool" "\<not> p_cancelled sample_pool"
    by (auto simp: handlers_answer_def sample_pool_def sample_fresh_def split: if_splits)
  with pool_drains [OF sample_from _ _ _ sample_run sample_rest]
  have "\<forall>k. p_store sample_end 0 = Some k \<longrightarrow> settled k" by simp
  moreover have "\<exists>k. p_store sample_end 0 = Some k" by (simp add: sample_end_def)
  ultimately show ?thesis by blast
qed

text \<open>
  C18: A shutdown ends. Once a pool whose handlers return is cancelled, it can take at most
  \<open>load\<close> more steps; when it can take none, \<^verbatim>\<open>Shutdown\<close> has returned, every worker has stopped, no timer is
  pending, and no task is left half run: each has completed or failed, waits for a retry it will not
  get, or lies in the queue untouched.
\<close>
theorem shutdown_ends:
  assumes "pool_from w q hs p" "handlers_answer p" "p_cancelled p" "run n p p'"
  shows "n \<le> load p \<and> (resting p' \<longrightarrow>
    p_done p' \<and> set (p_workers p') \<subseteq> {Stopped} \<and> p_timers p' = [] \<and>
    (\<forall>t k. p_store p' t = Some k \<longrightarrow>
       settled k \<or> tk_Status k = TaskRetry \<or> tk_Status k = TaskPending \<and> t \<in> set (p_tasks p')))"
proof -
  have fr: "frame p p'" and c: "p_cancelled p'" using run_frame [OF assms(4)] assms(3) by simp_all
  have n: "n \<le> load p" and ok: "pool_ok p'"
    using run_load [OF assms(4) pool_from_ok [OF assms(1)]] by simp_all
  have "handlers_answer p'" using fr assms(2) by (simp add: frame_def handlers_answer_def)
  then have stopped: "p_done p' \<and> set (p_workers p') \<subseteq> {Stopped} \<and> p_timers p' = []" if "resting p'"
    using resting_not_busy [OF ok that] by (intro resting_stopped [OF that c])
  have "settled k \<or> tk_Status k = TaskRetry \<or> tk_Status k = TaskPending \<and> t \<in> set (p_tasks p')"
    if "resting p'" "p_store p' t = Some k" for t k
  proof -
    have "busy (p_workers p') = {#}" using stopped [OF that(1)] by (intro busy_stopped) auto
    moreover have "task_fits p' t k" using ok that(2) by (simp add: pool_ok_def)
    ultimately show ?thesis using stopped [OF that(1)] by (auto simp: task_fits_def in_locs)
  qed
  with n stopped show ?thesis by blast
qed

text \<open>The sample pool is cancelled; its worker stops before it takes the task.\<close>

definition sample_cut :: "unit pool" where
  "sample_cut = sample_pool\<lparr>p_cancelled := True\<rparr>"

definition sample_shut :: "unit pool" where
  "sample_shut = sample_cut\<lparr>p_workers := [Stopped], p_done := True\<rparr>"

lemma sample_cut_from: "pool_from 1 1 sample_handlers sample_cut"
  using sample_from more [OF _ cancel] unfolding pool_from_def sample_cut_def by blast

lemma sample_shut_run: "run 2 sample_cut sample_shut"
proof -
  let ?mid = "sample_cut\<lparr>p_workers := (p_workers sample_cut)[0 := Stopped]\<rparr>"
  have "works sample_cut ?mid"
    by (rule stop) (simp_all add: sample_cut_def sample_pool_def sample_fresh_def)
  moreover have "works ?mid (?mid\<lparr>p_done := True\<rparr>)"
    by (rule close) (simp_all add: sample_cut_def sample_pool_def sample_fresh_def)
  moreover have "?mid\<lparr>p_done := True\<rparr> = sample_shut"
    by (simp add: sample_shut_def sample_cut_def sample_pool_def sample_fresh_def)
  ultimately show ?thesis by (metis numeral_2_eq_2 run0 runS)
qed

theorem shutdown_ends_witness:
  "2 \<le> load sample_cut \<and> p_done sample_shut \<and> p_tasks sample_shut = [0]"
proof -
  have "handlers_answer sample_cut" "p_cancelled sample_cut"
    by (auto simp: handlers_answer_def sample_cut_def sample_pool_def sample_fresh_def split: if_splits)
  note all = shutdown_ends [OF sample_cut_from this sample_shut_run]
  have "resting sample_shut"
    unfolding resting_def
    by (auto simp: sample_shut_def sample_cut_def sample_pool_def sample_fresh_def elim!: worksE)
  with all show ?thesis
    by (simp add: sample_shut_def sample_cut_def sample_pool_def sample_fresh_def)
qed

text \<open>
  The delay before the \<open>r\<close>-th retry doubles from one second and is cut at thirty, for up to
  34 retries; beyond that the 64-bit product wraps, so the 35th delay is negative (the timer
  fires at once).
\<close>
theorem backoff_delay:
  shows "1 \<le> r \<and> r \<le> 34 \<Longrightarrow> backoff r = min (2 ^ nat (r - 1) * 1000000000) 30000000000 \<and> backoff 35 < 0"
proof -
  assume r: "1 \<le> r \<and> r \<le> 34"
  define k where "k = nat (r - 1)"
  have k: "k \<le> 33" using r by (simp add: k_def nat_le_iff)
  have "(2 :: int) ^ k \<le> 2 ^ 33" using k by (rule power_increasing) simp
  then have b: "(2 :: int) ^ k * 1000000000 \<le> 8589934592000000000" by simp
  have p: "(0 :: int) \<le> 2 ^ k" by simp
  have fits: "0 \<le> x \<Longrightarrow> x < 9223372036854775808 \<Longrightarrow> i64 x = x" for x by simp
  have "i64 (2 ^ k) = 2 ^ k" by (rule fits) (use p b in linarith)+
  moreover have "i64 (2 ^ k * 1000000000) = 2 ^ k * 1000000000"
    by (rule fits) (use p b in linarith)+
  ultimately have "backoff r = min (2 ^ k * 1000000000) 30000000000"
    unfolding backoff_def k_def [symmetric] by (simp add: push_bit_eq_mult Let_def min_def)
  moreover have "backoff 35 < 0"
    by (simp add: backoff_def i64_mod Let_def push_bit_eq_mult)
  ultimately show ?thesis by (simp add: k_def)
qed

theorem backoff_delay_witness: "backoff 4 = 8000000000"
  using backoff_delay [of 4] by simp

text \<open>
  After \<^verbatim>\<open>Shutdown\<close> has returned, \<^verbatim>\<open>Submit\<close> may still report success: the channel has room, and
  the select may choose it over the cancelled context. The task then waits for ever.
\<close>
theorem submit_after_shutdown:
  "\<exists>p. pool_from 1 1 [] p \<and> p_done p \<and> submit_ready SendTask p \<and>
     fst (Submit SendTask t k p) = None \<and> resting (snd (Submit SendTask t k p)) \<and>
     p_store (snd (Submit SendTask t k p)) t = Some k"
proof -
  define p0 :: "'a pool" where
    "p0 = \<lparr> p_store = Map.empty, p_cap = 1, p_tasks = [], p_retry = [], p_timers = [],
       p_workers = [Idle], p_handlers = Map.empty, p_cancelled = False, p_done = False,
       p_active = 0, p_queued = 0, p_completed = 0, p_failed = 0 \<rparr>"
  let ?p1 = "p0\<lparr>p_cancelled := True\<rparr>"
  let ?p2 = "?p1\<lparr>p_workers := (p_workers ?p1)[0 := Stopped]\<rparr>"
  let ?p3 = "?p2\<lparr>p_done := True\<rparr>"
  have "reach p0 ?p1" by (rule more [OF here cancel])
  moreover have "works ?p1 ?p2" by (rule stop) (simp_all add: p0_def)
  moreover have "works ?p2 ?p3" by (rule close) (simp_all add: p0_def)
  ultimately have "reach p0 ?p3" by (meson more work)
  then have "pool_from 1 1 [] ?p3"
    by (auto simp: pool_from_def NewPool_def with_handlers_def p0_def)
  moreover have "resting (snd (Submit SendTask t k ?p3))"
    unfolding resting_def by (auto simp: Submit_def p0_def elim!: worksE)
  ultimately show ?thesis
    by (intro exI [of _ ?p3]) (simp add: submit_ready_def Submit_def p0_def)
qed

end
