(* ===== verification/Tasks.thy ===== *)
theory Tasks
  imports Pool_Runs Cache Index
begin

text \<open>
  The tasks the pool runs, \<^verbatim>\<open>backend/go-api/internal/worker/tasks.go\<close>: their data, constructors and
  handlers. A handler acts on the state of the vector store and the cache, and may panic.
\<close>

record ProofGenData =
  pg_ConsentID :: string
  pg_ProofType :: string
  pg_Chain :: string

record QdrantIndexData =
  qi_ConsentID :: string
  qi_Parties :: "string list"
  qi_Scopes :: "string list"
  qi_ValidFrom :: u64
  qi_ValidUntil :: u64
  qi_Revoked :: bool
  qi_Chain :: string
  qi_TxHash :: string
  qi_CreatedAt :: u64
  qi_Embedding :: "rat list"

record NotificationData =
  nt_Type :: string
  nt_ConsentID :: string
  nt_Party :: string
  nt_Message :: string

record EventIndexData =
  ev_EventType :: string
  ev_Chain :: string
  ev_BlockNum :: u64
  ev_TxHash :: string
  ev_Data :: string

text \<open>The dynamic type of \<^verbatim>\<open>Task.Data\<close>: a pointer to one of the four structs, or anything else.\<close>

datatype task_data =
    ProofGen ProofGenData
  | QdrantIndex QdrantIndexData
  | Notification NotificationData
  | EventIndex EventIndexData
  | OtherData

section \<open>Handlers\<close>

text \<open>The proof request is marshalled, which cannot fail on strings, and dropped.\<close>

definition handleProofGeneration :: "ProofGenData \<Rightarrow> ('s, goerr option) go" where
  "handleProofGeneration data s =
     (let body = JObj [(''chain'', json_string (pg_Chain data)),
                       (''consent_id'', json_string (pg_ConsentID data)),
                       (''proof_type'', json_string (pg_ProofType data))]
      in (Inr None, s))"

definition handleQdrantIndexing ::
  "'q qdrant_client \<Rightarrow> ctx \<Rightarrow> point_id \<Rightarrow> QdrantIndexData \<Rightarrow> ('q, goerr option) go" where
  "handleQdrantIndexing qdrant ctx pointID data q =
     (let doc0 = \<lparr> qd_ConsentID = qi_ConsentID data, qd_Parties = qi_Parties data,
                   qd_Scopes = qi_Scopes data, qd_ValidFrom = qi_ValidFrom data,
                   qd_ValidUntil = qi_ValidUntil data, qd_Revoked = qi_Revoked data,
                   qd_Chain = qi_Chain data, qd_TxHash = qi_TxHash data,
                   qd_CreatedAt = qi_CreatedAt data, qd_Embedding = [] \<rparr>;
          doc = (if 0 < length (qi_Embedding data)
                 then doc0\<lparr>qd_Embedding := qi_Embedding data\<rparr> else doc0)
      in case IndexConsent qdrant ctx pointID doc q of
           (Inl p, q1) \<Rightarrow> (Inl p, q1)
         | (Inr (Some e), q1) \<Rightarrow> (Inr (Some (''failed to index consent in Qdrant: '' @ e)), q1)
         | (Inr None, q1) \<Rightarrow> (Inr None, q1))"

definition handleNotificationDispatch :: "NotificationData \<Rightarrow> ('s, goerr option) go" where
  "handleNotificationDispatch data s = (Inr None, s)"

definition handleEventIndexing ::
  "'r redis_srv option \<Rightarrow> EventIndexData \<Rightarrow> ('r, goerr option) go" where
  "handleEventIndexing rclient data r =
     (if ev_EventType data = ''ConsentRegistered'' \<or> ev_EventType data = ''ConsentRevoked''
      then (case InvalidateConsent rclient (ev_Chain data) (ev_TxHash data) r of
              (Inl p, r1) \<Rightarrow> (Inl p, r1)
            | (Inr (Some e), r1) \<Rightarrow> (Inr (Some (''failed to invalidate cache for event: '' @ e)), r1)
            | (Inr None, r1) \<Rightarrow> (Inr None, r1))
      else (Inr None, r))"

text \<open>
  \<^verbatim>\<open>RegisterTaskHandlers\<close>: the handler of each type checks the type of the data and calls on.
  \<open>None\<close> stands for a task type without a handler.
\<close>

definition task_handler ::
  "'q qdrant_client \<Rightarrow> 'r redis_srv option \<Rightarrow> ctx \<Rightarrow> point_id \<Rightarrow> int \<Rightarrow>
    (task_data \<Rightarrow> ('q \<times> 'r, goerr option) go) option" where
  "task_handler qdrant rclient ctx pointID ty =
     (if ty = TaskProofGeneration then
        Some (\<lambda>d. case d of ProofGen data \<Rightarrow> handleProofGeneration data
                  | _ \<Rightarrow> gret (Some ''invalid task data type for proof generation''))
      else if ty = TaskQdrantIndexing then
        Some (\<lambda>d. case d of QdrantIndex data \<Rightarrow>
                      gzoom fst (\<lambda>q s. (q, snd s)) (handleQdrantIndexing qdrant ctx pointID data)
                  | _ \<Rightarrow> gret (Some ''invalid task data type for Qdrant indexing''))
      else if ty = TaskNotificationDispatch then
        Some (\<lambda>d. case d of Notification data \<Rightarrow> handleNotificationDispatch data
                  | _ \<Rightarrow> gret (Some ''invalid task data type for notification dispatch''))
      else if ty = TaskEventIndexing then
        Some (\<lambda>d. case d of EventIndex data \<Rightarrow>
                      gzoom snd (\<lambda>r s. (fst s, r)) (handleEventIndexing rclient data)
                  | _ \<Rightarrow> gret (Some ''invalid task data type for event indexing''))
      else None)"

text \<open>
  The four registrations of \<^verbatim>\<open>RegisterTaskHandlers\<close>. The pool sees of a handler the results it may
  return: on the task's data, in some state of the stores, under some context and with some fresh
  identifier.
\<close>

definition runs_handler ::
  "'q qdrant_client \<Rightarrow> 'r redis_srv option \<Rightarrow> int \<Rightarrow> task_data task_handler" where
  "runs_handler qdrant rclient ty k result \<longleftrightarrow>
     (\<exists>ctx pointID f s s'. task_handler qdrant rclient ctx pointID ty = Some f \<and>
        f (tk_Data k) s = (Inr result, s'))"

definition RegisterTaskHandlers ::
  "'q qdrant_client \<Rightarrow> 'r redis_srv option \<Rightarrow> task_data pool \<Rightarrow> task_data pool" where
  "RegisterTaskHandlers qdrant rclient =
     with_handlers [(TaskProofGeneration, runs_handler qdrant rclient TaskProofGeneration),
       (TaskQdrantIndexing, runs_handler qdrant rclient TaskQdrantIndexing),
       (TaskNotificationDispatch, runs_handler qdrant rclient TaskNotificationDispatch),
       (TaskEventIndexing, runs_handler qdrant rclient TaskEventIndexing)]"

text \<open>With both stores at hand every handler returns, whatever data the task carries.\<close>

lemma handlers_return:
  assumes "task_handler (Some qc) (Some rc) ctx pointID ty = Some f"
  shows "\<exists>result s'. f d s = (Inr result, s')"
proof -
  obtain qsrv cfg where qc: "qc = (qsrv, cfg)" by (cases qc)
  have q: "\<exists>result q'. handleQdrantIndexing (Some qc) ctx pointID data q = (Inr result, q')" for data q
    by (simp add: qc handleQdrantIndexing_def IndexConsent_def Let_def split: prod.split option.split)
  have r: "\<exists>result r'. handleEventIndexing (Some rc) data r = (Inr result, r')" for data r
    by (simp add: handleEventIndexing_def InvalidateConsent_def Let_def split: prod.split option.split)
  show ?thesis
  proof (cases d)
    case (QdrantIndex data)
    obtain result q' where "handleQdrantIndexing (Some qc) ctx pointID data (fst s) = (Inr result, q')"
      using q by blast
    with QdrantIndex assms show ?thesis
      by (auto simp: task_handler_def gzoom_def gret_def split: if_splits)
  next
    case (EventIndex data)
    obtain result r' where "handleEventIndexing (Some rc) data (snd s) = (Inr result, r')"
      using r by blast
    with EventIndex assms show ?thesis
      by (auto simp: task_handler_def gzoom_def gret_def split: if_splits)
  qed (use assms in \<open>auto simp: task_handler_def gret_def handleProofGeneration_def Let_def
    handleNotificationDispatch_def split: if_splits\<close>)
qed

lemma registered_handlers:
  "p_handlers (RegisterTaskHandlers qdrant rclient p) ty =
     (if task_handler qdrant rclient ctx pointID ty = None then p_handlers p ty
      else Some (runs_handler qdrant rclient ty))"
  by (simp add: RegisterTaskHandlers_def with_handlers_def RegisterHandler_def task_handler_def task_types)

lemma registered_answer:
  assumes "p_handlers p = Map.empty"
  shows "handlers_answer (RegisterTaskHandlers (Some qc) (Some rc) p)"
  unfolding handlers_answer_def
proof (intro allI impI)
  fix ty h k
  assume "p_handlers (RegisterTaskHandlers (Some qc) (Some rc) p) ty = Some h"
  then obtain f where "task_handler (Some qc) (Some rc) [] '''' ty = Some f"
    and h: "h = runs_handler (Some qc) (Some rc) ty"
    unfolding registered_handlers [of "Some qc" "Some rc" p ty "[]" "''''"] assms
    by (auto split: if_splits)
  with handlers_return show "\<exists>result. h k result"
    unfolding h runs_handler_def by blast
qed

section \<open>Constructors\<close>

text \<open>The fresh UUID and the two readings of the clock are arguments.\<close>

definition NewTask :: "string \<Rightarrow> int \<Rightarrow> int \<Rightarrow> int \<Rightarrow> task_data \<Rightarrow> task_data Task" where
  "NewTask uuid now1 now2 taskType data =
     \<lparr> tk_ID = uuid, tk_Type = taskType, tk_Data = data, tk_Status = TaskPending, tk_Error = None,
       tk_Retries = 0, tk_MaxRetries = 3, tk_CreatedAt = now1, tk_UpdatedAt = now2 \<rparr>"

definition NewProofGenerationTask ::
  "string \<Rightarrow> int \<Rightarrow> int \<Rightarrow> string \<Rightarrow> string \<Rightarrow> string \<Rightarrow> task_data Task" where
  "NewProofGenerationTask uuid now1 now2 consentID proofType chain =
     NewTask uuid now1 now2 TaskProofGeneration
       (ProofGen \<lparr> pg_ConsentID = consentID, pg_ProofType = proofType, pg_Chain = chain \<rparr>)"

definition NewQdrantIndexingTask :: "string \<Rightarrow> int \<Rightarrow> int \<Rightarrow> QdrantIndexData \<Rightarrow> task_data Task" where
  "NewQdrantIndexingTask uuid now1 now2 doc = NewTask uuid now1 now2 TaskQdrantIndexing (QdrantIndex doc)"

definition NewNotificationTask ::
  "string \<Rightarrow> int \<Rightarrow> int \<Rightarrow> string \<Rightarrow> string \<Rightarrow> string \<Rightarrow> string \<Rightarrow> task_data Task" where
  "NewNotificationTask uuid now1 now2 notifType consentID party message =
     NewTask uuid now1 now2 TaskNotificationDispatch
       (Notification \<lparr> nt_Type = notifType, nt_ConsentID = consentID, nt_Party = party,
                       nt_Message = message \<rparr>)"

definition NewEventIndexingTask ::
  "string \<Rightarrow> int \<Rightarrow> int \<Rightarrow> string \<Rightarrow> string \<Rightarrow> u64 \<Rightarrow> string \<Rightarrow> string \<Rightarrow> task_data Task" where
  "NewEventIndexingTask uuid now1 now2 eventType chain blockNum txHash data =
     NewTask uuid now1 now2 TaskEventIndexing
       (EventIndex \<lparr> ev_EventType = eventType, ev_Chain = chain, ev_BlockNum = blockNum,
                     ev_TxHash = txHash, ev_Data = data \<rparr>)"

end
