(* ===== verification/Server.thy ===== *)
theory Server
  imports Sample_World Tasks
begin

text \<open>
  The service as a whole, \<^verbatim>\<open>backend/go-api/cmd/server/main.go\<close>: how its parts are wired, and what
  holds of every request whatever endpoint it names.
\<close>

section \<open>Wiring\<close>

text \<open>
  \<^verbatim>\<open>main\<close> up to the moment the server listens. A store that cannot be reached is replaced by a nil
  pointer; a pool that cannot be made panics. The Redis client's server is \<open>redis_srv\<close> of the
  options it connected with.
\<close>

definition start ::
  "environ \<Rightarrow> (string \<Rightarrow> goerr + 'q qdrant_srv) \<Rightarrow> (string \<Rightarrow> goerr + redis_opts) \<Rightarrow>
    (redis_opts \<Rightarrow> goerr option) \<Rightarrow> (redis_opts \<Rightarrow> 'r redis_srv) \<Rightarrow> (string \<Rightarrow> bytes option) \<Rightarrow>
    ('q, (('q, 'r) Handler \<times> task_data pool)) go"
where
  "start env dial parseURL ping srv_of hexToECDSA =
     (let cfg = Load env in
      gbind (qdrant_NewClient dial (Qdrant cfg)) (\<lambda>qr.
        let qdrantClient = (case qr of Inl e \<Rightarrow> None | Inr c \<Rightarrow> c);
            redisClient = (case redis_NewClient parseURL ping (Redis cfg) of
                             Inl e \<Rightarrow> None | Inr opts \<Rightarrow> Some (srv_of opts));
            handler = NewHandler hexToECDSA cfg qdrantClient redisClient
        in gbind (glift (NewPool (wc_Count (Worker cfg)) (wc_QueueSize (Worker cfg)))) (\<lambda>pool.
             gret (handler, RegisterTaskHandlers qdrantClient redisClient pool))))"

section \<open>Every request\<close>

lemma presents_param [simp]:
  "presents_key cfg (rq\<lparr>rq_Param := f\<rparr>) = presents_key cfg rq"
  "presents_jwt jwt cfg (rq\<lparr>rq_Param := f\<rparr>) = presents_jwt jwt cfg rq"
  by (simp_all add: presents_key_def presents_jwt_def bearer_token_def)

lemma outside_set_key [simp]: "outside (set_key k v s) = outside s"
  by (simp add: outside_def set_key_def)

lemma keeps_endpoint: "keeps (run_endpoint h w e rq)"
proof -
  have "keeps (ChainMiddleware rq (GetChainStatus_handler h w rq))"
    using keeps_handlers(9) [of h w rq]
    by (auto simp: keeps_def ChainMiddleware_def Let_def)
  then show ?thesis
    by (cases e) (simp_all add: run_endpoint_def keeps_handlers)
qed

lemma keeps_group: "keeps (api_group jwt R h w rq)"
proof (cases "find_route R rq api_routes")
  case None
  then show ?thesis by (simp add: api_group_def keeps_gret)
next
  case (Some ep)
  have "keeps m \<Longrightarrow> keeps (AuthMiddleware jwt cfg rq' m)" for cfg rq' and m :: "('a, 'b) chain_rest"
    by (auto simp: keeps_def AuthMiddleware_def unauthorized_def Let_def split: sum.splits option.splits)
  with Some show ?thesis
    by (auto simp: api_group_def Let_def keeps_endpoint split: prod.splits)
qed

lemma serve_outside:
  "as_headers (snd (serve jwt R h w now rq s)) = cors_headers \<and>
   as_limiter (snd (serve jwt R h w now rq s)) =
     (if rq_Method rq = ''OPTIONS'' then as_limiter s
      else snd (Allow (rq_ClientIP rq) now (as_limiter s)))"
proof -
  let ?s0 = "s\<lparr>as_keys := Map.empty, as_headers := cors_headers,
    as_limiter := snd (Allow (rq_ClientIP rq) now (as_limiter s))\<rparr>"
  have "outside (snd (api_group jwt R h w rq ?s0)) = outside ?s0"
    by (rule keeps_group [unfolded keeps_def, rule_format])
  moreover have lim: "as_headers (snd (RateLimitMiddleware now rq m s1)) = as_headers s1"
    if "keeps m" for m and s1 :: "('a, 'b) api_state"
    using that by (cases "Allow (rq_ClientIP rq) now (as_limiter s1)")
      (auto simp: RateLimitMiddleware_def keeps_def outside_def)
  ultimately show ?thesis
    by (cases "Allow (rq_ClientIP rq) now (as_limiter s)"; cases "api_group jwt R h w rq ?s0")
       (auto simp: serve_def CORSMiddleware_def Recovery_def RequestLogger_def gbind_def Let_def
         RateLimitMiddleware_def outside_def split: prod.splits sum.splits)
qed

text \<open>
  C1: A request that does not authenticate reaches nothing. If it presents neither the API key nor a
  bearer token whose HMAC signature verifies under the JWT secret (a token signed by any other
  method never does), the vector store, the cache and the table of chain clients are as before, and
  on every route the answer is 204 (preflight), 401 or 429.
\<close>
theorem unauthenticated_reaches_nothing:
  assumes "jwt_ok jwt verifies" "\<not> presents_key (h_cfg h) rq"
    and "\<And>t alg. bearer_token rq = Some t \<Longrightarrow> \<not> verifies t (HMAC alg) (JWTSecret (h_cfg h))"
  shows "stores (snd (serve jwt R h w now rq s)) = stores s \<and>
    (find_route R rq api_routes = None \<or> fst (fst (serve jwt R h w now rq s)) \<in> {204, 401, 429})"
proof (cases rule: serve_cases [of rq jwt R h w now s])
  case preflight
  then show ?thesis by (simp add: stores_def)
next
  case (limited s1)
  then show ?thesis by (simp add: error_body_def)
next
  case passed
  have nj: "\<not> presents_jwt jwt (h_cfg h) rq"
    using presents_jwt_signed [OF assms(1)] assms(3) by blast
  show ?thesis
  proof (cases "find_route R rq api_routes")
    case None
    with passed(3) show ?thesis
      by (simp add: api_group_def RequestLogger_def Recovery_def stores_def)
  next
    case (Some ep)
    obtain e params where ep: "ep = (e, params)" by force
    let ?s0 = "s\<lparr>as_keys := Map.empty, as_headers := cors_headers,
      as_limiter := snd (Allow (rq_ClientIP rq) now (as_limiter s))\<rparr>"
    obtain msg where "api_group jwt R h w rq ?s0 = (Inr (error_body 401 msg ''''), ?s0)"
      using Auth_refuses [of "h_cfg h" "rq\<lparr>rq_Param := params\<rparr>" jwt] assms(2) nj Some ep
      by (auto simp: api_group_def Let_def)
    with passed(3) show ?thesis
      by (simp add: RequestLogger_def Recovery_def stores_def gbind_def error_body_def)
  qed
qed

theorem unauthenticated_reaches_nothing_witness:
  "stores (snd (serve no_jwt sample_router sample_handler (sample_world [] 7) 5
      (get_request ''/api/v1/chains'' '''' '''') sample_state)) = stores sample_state"
proof -
  have "jwt_ok no_jwt (\<lambda>t m k. False)" by (simp add: jwt_ok_def no_jwt_def)
  moreover have "\<not> presents_key (h_cfg sample_handler) (get_request ''/api/v1/chains'' '''' '''')"
    by (simp add: presents_key_def get_request_def)
  ultimately show ?thesis using unauthenticated_reaches_nothing by blast
qed

text \<open>
  The credentials are never empty. Whatever the environment holds, the loaded API key and JWT
  secret are not the empty string, so a request without an Authorization header, or with an empty
  bearer token, presents no key.
\<close>
theorem no_empty_credential:
  "APIKey (Load env) \<noteq> '''' \<and> JWTSecret (Load env) \<noteq> '''' \<and>
   \<not> presents_key (Load env) (rq\<lparr>rq_Authorization := ''''\<rparr>) \<and>
   \<not> presents_key (Load env) (rq\<lparr>rq_Authorization := ''Bearer ''\<rparr>)"
  using Load_credentials [of env]
  by (simp add: presents_key_def bearer_token_def strings_TrimPrefix_def)

text \<open>
  Every answer carries the CORS headers, a panic's 500 included, and a request moves the rate
  limiter exactly as one \<^verbatim>\<open>Allow\<close> of its client does, unless it is a preflight.
\<close>
theorem every_response:
  "as_headers (snd (serve jwt R h w now rq s)) = cors_headers \<and>
   as_limiter (snd (serve jwt R h w now rq s)) =
     (if rq_Method rq = ''OPTIONS'' then as_limiter s
      else snd (Allow (rq_ClientIP rq) now (as_limiter s)))"
  by (rule serve_outside)

section \<open>Sequences of requests\<close>

text \<open>
  Requests one after the other, each with its surroundings and its time, and how many of one client
  were answered with something other than 429 (preflights apart).
\<close>

fun answered ::
  "jwt_parser \<Rightarrow> router \<Rightarrow> ('q, 'r) Handler \<Rightarrow> string \<Rightarrow> (world \<times> int \<times> request) list \<Rightarrow>
    ('q, 'r) api_state \<Rightarrow> nat" where
  "answered jwt R h ip [] s = 0"
| "answered jwt R h ip ((w, now, rq) # rs) s =
     (case serve jwt R h w now rq s of
        (resp, s') \<Rightarrow>
          (if rq_Method rq \<noteq> ''OPTIONS'' \<and> rq_ClientIP rq = ip \<and> fst resp \<noteq> 429 then 1 else 0) +
          answered jwt R h ip rs s')"

definition limiter_calls :: "(world \<times> int \<times> request) list \<Rightarrow> (string \<times> int) list" where
  "limiter_calls rs =
     map (\<lambda>(w, now, rq). (rq_ClientIP rq, now)) (filter (\<lambda>(w, now, rq). rq_Method rq \<noteq> ''OPTIONS'') rs)"

lemma answered_granted:
  "answered jwt R h ip rs s \<le> granted ip (limiter_calls rs) (as_limiter s)"
proof (induction rs arbitrary: s)
  case Nil
  then show ?case by simp
next
  case (Cons x rs)
  obtain w now rq where x: "x = (w, now, rq)" by (cases x) auto
  let ?s' = "snd (serve jwt R h w now rq s)"
  note lim = serve_outside [of jwt R h w now rq s, THEN conjunct2]
  show ?case
  proof (cases "rq_Method rq = ''OPTIONS''")
    case True
    with Cons.IH [of ?s'] lim show ?thesis by (simp add: x limiter_calls_def split_beta)
  next
    case False
    have "fst (Allow (rq_ClientIP rq) now (as_limiter s))"
      if "fst (fst (serve jwt R h w now rq s)) \<noteq> 429"
    proof (cases rule: serve_cases [of rq jwt R h w now s])
      case preflight
      with False show ?thesis by simp
    next
      case (limited s1)
      with that show ?thesis by (simp add: error_body_def)
    next
      case passed
      then show ?thesis by simp
    qed
    with False Cons.IH [of ?s'] lim show ?thesis
      by (auto simp: x limiter_calls_def split_beta)
  qed
qed

text \<open>
  C22: The whole server is rate limited per client: from a freshly routed engine, the requests of one
  client address arriving from \<open>t0\<close> to \<open>t1\<close> that get past the limiter number at most 200, plus 100
  for every second, plus the rounding error. This is the limit of the code, not the documented 100
  requests a minute.
\<close>
theorem served_per_client:
  assumes "0 \<le> t0" "in_order t0 (limiter_calls rs) t1"
  shows "of_nat (answered jwt R h ip rs (RegisterRoutes s)) \<le>
    200 + of_int (t1 - t0) / 1000000000 * 100 * (1 + 1 / 2 ^ 50) +
    of_nat (length (limiter_calls rs)) * (200 / 2 ^ 52 :: rat)"
proof -
  have l: "limiter_ok (NewRateLimiter 100 200)" by (rule limiter_ok_New) simp_all
  have c: "clock_ok t0 (NewRateLimiter 100 200)" using assms(1) by (simp add: clock_ok_def NewRateLimiter_def)
  have "answered jwt R h ip rs (RegisterRoutes s) \<le> granted ip (limiter_calls rs) (NewRateLimiter 100 200)"
    using answered_granted [of jwt R h ip rs "RegisterRoutes s"] by (simp add: RegisterRoutes_def)
  then have "of_nat (answered jwt R h ip rs (RegisterRoutes s)) \<le>
      (of_nat (granted ip (limiter_calls rs) (NewRateLimiter 100 200)) :: rat)"
    by (simp only: of_nat_le_iff)
  also note granted_window [OF l c assms(2), unfolded gain_def slack_def delta_def]
  finally show ?thesis by (simp add: NewRateLimiter_def)
qed

theorem served_per_client_witness:
  "(of_nat (answered no_jwt sample_router sample_handler ''10.0.0.1''
      [(sample_world [] 7, 5, get_request ''/x'' '''' '''')] (RegisterRoutes sample_state)) :: rat) < 201"
proof -
  have "in_order 5 (limiter_calls [(sample_world [] 7, 5, get_request ''/x'' '''' '''')]) 5"
    by (simp add: limiter_calls_def get_request_def)
  from served_per_client [OF _ this, of no_jwt sample_router sample_handler "''10.0.0.1''" sample_state]
  show ?thesis by (simp add: limiter_calls_def get_request_def)
qed

section \<open>Starting without a store\<close>

text \<open>
  A store that cannot be reached does not keep the server from starting: the handler then holds a
  nil pointer in its place, and the first request that uses it panics.
\<close>
theorem start_without_stores:
  assumes "\<And>url. \<exists>e. dial url = Inl e" "\<And>url. \<exists>e. parseURL url = Inl e"
    and "0 \<le> wc_QueueSize (Worker (Load env))"
  shows "\<exists>h pool. start env dial parseURL ping srv_of hexToECDSA q = (Inr (h, pool), q) \<and>
    h_qdrant h = None \<and> h_redis h = None \<and> h_cfg h = Load env"
proof -
  obtain e where "dial (qc_URL (Qdrant (Load env))) = Inl e" using assms(1) by blast
  moreover obtain e' where "parseURL (rc_URL (Redis (Load env))) = Inl e'" using assms(2) by blast
  ultimately show ?thesis
    using assms(3)
    by (simp add: start_def qdrant_NewClient_def redis_NewClient_def NewPool_def gbind_def
        NewHandler_def Let_def)
qed

theorem start_without_stores_witness:
  "\<exists>h pool. start sample_env (\<lambda>url. Inl ''refused'') (\<lambda>url. Inl ''bad url'')
      (\<lambda>o1. None) (\<lambda>o1. sample_redis) (\<lambda>s. None) () = (Inr (h, pool), ()) \<and> h_redis h = None"
proof -
  have "0 \<le> wc_QueueSize (Worker (Load sample_env))"
    by (simp add: Load_def getEnvInt_def sample_env_def)
  then show ?thesis
    using start_without_stores [of "\<lambda>url. Inl ''refused'' :: goerr + unit qdrant_srv"
        "\<lambda>url. Inl ''bad url'' :: goerr + redis_opts" sample_env "\<lambda>o1. None" "\<lambda>o1. sample_redis"
        "\<lambda>s. None" "()"]
    by blast
qed


section \<open>The server's pool\<close>

lemma start_pool:
  assumes "start env dial parseURL ping srv_of hexToECDSA q = (Inr (h, p0), q')"
  shows "\<exists>p1. NewPool (wc_Count (Worker (Load env))) (wc_QueueSize (Worker (Load env))) = Inr p1 \<and>
    p0 = RegisterTaskHandlers (h_qdrant h) (h_redis h) p1"
  using assms
  by (auto simp: start_def Let_def gbind_def glift_def gret_def NewHandler_def split: prod.splits sum.splits)

text \<open>
  C15: The running server finishes its background work. When \<^verbatim>\<open>main\<close> has reached both stores and was
  configured with a worker, then after any submissions, and in whatever order its
  goroutines run and whatever the stores answer, the pool takes at most \<open>load\<close> further steps, and
  when it can take none, every task it ever accepted has completed or failed and none is forgotten.
\<close>
theorem server_pool_drains:
  assumes "start env dial parseURL ping srv_of hexToECDSA q = (Inr (h, p0), q')"
    and "h_qdrant h \<noteq> None" "h_redis h \<noteq> None"
    and "0 < wc_Count (Worker (Load env))"
    and "reach p0 p" "\<not> p_cancelled p" "run n p p'"
  shows "n \<le> load p \<and> (resting p' \<longrightarrow>
    dom (p_store p') = dom (p_store p) \<and> (\<forall>t k. p_store p' t = Some k \<longrightarrow> settled k))"
proof -
  obtain p1 where p1: "NewPool (wc_Count (Worker (Load env))) (wc_QueueSize (Worker (Load env))) = Inr p1"
    and p0: "p0 = RegisterTaskHandlers (h_qdrant h) (h_redis h) p1"
    using start_pool [OF assms(1)] by blast
  have "pool_from (wc_Count (Worker (Load env))) (wc_QueueSize (Worker (Load env)))
    [(TaskProofGeneration, runs_handler (h_qdrant h) (h_redis h) TaskProofGeneration),
     (TaskQdrantIndexing, runs_handler (h_qdrant h) (h_redis h) TaskQdrantIndexing),
     (TaskNotificationDispatch, runs_handler (h_qdrant h) (h_redis h) TaskNotificationDispatch),
     (TaskEventIndexing, runs_handler (h_qdrant h) (h_redis h) TaskEventIndexing)] p"
    unfolding pool_from_def using p1 assms(5) by (simp add: p0 RegisterTaskHandlers_def)
  note made = pool_from_ok [OF this] pool_from_frame [OF this]
  have "p_handlers p1 = Map.empty" using p1 by (auto simp: NewPool_def split: if_splits)
  then have "handlers_answer p0"
    using assms(2,3) registered_answer by (auto simp: p0)
  then have ans: "handlers_answer p"
    using reach_frame [OF assms(5)] by (simp add: frame_def handlers_answer_def)
  have "p_workers p \<noteq> []" using made(2) assms(4) by auto
  then show ?thesis
    using drained [OF made(1) _ ans assms(6,7)] run_load [OF assms(7) made(1)] by simp
qed

text \<open>A sample server, its pool, and one notification submitted to it.\<close>

definition sample_start :: "(points, ((points, kv) Handler \<times> task_data pool)) go" where
  "sample_start =
     start sample_env (\<lambda>url. Inr sample_qdrant)
       (\<lambda>url. Inr \<lparr> ro_Addr = ''localhost'', ro_Password = '''', ro_DB = 0 \<rparr>)
       (\<lambda>opts. None) (\<lambda>opts. sample_redis) (\<lambda>s. None)"

definition sample_booted :: "task_data pool" where
  "sample_booted = RegisterTaskHandlers (Some (sample_qdrant, Qdrant (Load sample_env))) (Some sample_redis)
     \<lparr> p_store = Map.empty, p_cap = 100, p_tasks = [], p_retry = [], p_timers = [],
       p_workers = replicate 4 Idle, p_handlers = Map.empty, p_cancelled = False, p_done = False,
       p_active = 0, p_queued = 0, p_completed = 0, p_failed = 0 \<rparr>"

definition sample_note :: "task_data Task" where
  "sample_note = NewNotificationTask ''t'' 1 1 ''revoked'' ''c'' ''alice'' ''hello''"

definition sample_noted :: "task_data pool" where
  "sample_noted = snd (Submit SendTask 0 sample_note sample_booted)"

definition sample_rested :: "task_data pool" where
  "sample_rested = process_finish 2 0 None 8 (process_start 2 0 7 (sample_noted\<lparr>p_tasks := []\<rparr>))"

lemma sample_started:
  "\<exists>h. sample_start [] = (Inr (h, sample_booted), []) \<and> h_qdrant h \<noteq> None \<and> h_redis h \<noteq> None"
  by (simp add: sample_start_def start_def Let_def gbind_def glift_def gret_def NewHandler_def
      qdrant_NewClient_def redis_NewClient_def ensureCollection_def sample_qdrant_def NewPool_def
      Load_def getEnv_def getEnvInt_def sample_env_def sample_booted_def)

lemma sample_booted_frame:
  "p_store sample_booted = Map.empty" "p_cap sample_booted = 100" "p_tasks sample_booted = []"
  "p_retry sample_booted = []" "p_timers sample_booted = []" "p_workers sample_booted = replicate 4 Idle"
  "p_cancelled sample_booted = False" "p_done sample_booted = False"
  "p_handlers sample_booted TaskNotificationDispatch = Some (runs_handler
     (Some (sample_qdrant, Qdrant (Load sample_env))) (Some sample_redis) TaskNotificationDispatch)"
  by (simp_all add: sample_booted_def RegisterTaskHandlers_def with_handlers_def RegisterHandler_def task_types)

lemma sample_noted_reach: "reach sample_booted sample_noted"
  unfolding sample_noted_def
  by (rule more [OF here submit])
     (simp_all add: submit_ready_def sample_booted_frame new_task_def sample_note_def NewNotificationTask_def
       NewTask_def)

lemma notification_runs:
  "tk_Data k = Notification d \<Longrightarrow> runs_handler qdrant rclient TaskNotificationDispatch k None"
  by (simp add: runs_handler_def task_handler_def task_types handleNotificationDispatch_def)

lemma sample_noted_run: "run 2 sample_noted sample_rested"
proof -
  let ?mid = "process_start 2 0 7 (sample_noted\<lparr>p_tasks := []\<rparr>)"
  let ?h = "runs_handler (Some (sample_qdrant, Qdrant (Load sample_env))) (Some sample_redis) TaskNotificationDispatch"
  note sample = sample_noted_def Submit_def sample_booted_frame sample_note_def NewNotificationTask_def NewTask_def
  have "works sample_noted ?mid"
    by (rule take_task) (simp_all add: sample)
  moreover have "works ?mid (process_finish 2 0 None 8 ?mid)"
  proof (rule finish [where h = ?h])
    show "?h (task_at ?mid 0) None"
      by (rule notification_runs) (simp add: sample process_start_def task_at_def Let_def)
  qed (simp_all add: sample process_start_def task_at_def Let_def)
  ultimately show ?thesis unfolding sample_rested_def by (metis numeral_2_eq_2 run0 runS)
qed

lemma sample_rested_frame:
  "p_tasks sample_rested = []" "p_retry sample_rested = []" "p_timers sample_rested = []"
  "p_workers sample_rested = replicate 4 Idle" "\<not> p_cancelled sample_rested"
  by (simp_all add: sample_rested_def sample_noted_def Submit_def sample_booted_frame sample_note_def
      NewNotificationTask_def NewTask_def process_start_def process_finish_def task_at_def Let_def
      eval_nat_numeral)

lemma sample_rested_rests: "resting sample_rested"
  unfolding resting_def by (auto simp: sample_rested_frame elim!: worksE)

theorem server_pool_drains_witness:
  "2 \<le> load sample_noted \<and> dom (p_store sample_rested) = dom (p_store sample_noted) \<and>
   (\<exists>k. p_store sample_rested 0 = Some k \<and> settled k)"
proof -
  obtain h where h: "sample_start [] = (Inr (h, sample_booted), [])" "h_qdrant h \<noteq> None" "h_redis h \<noteq> None"
    using sample_started by blast
  have w: "0 < wc_Count (Worker (Load sample_env))"
    by (simp add: Load_def getEnvInt_def sample_env_def)
  have c: "\<not> p_cancelled sample_noted"
    by (simp add: sample_noted_def Submit_def sample_booted_frame)
  note all = server_pool_drains [OF h(1) [unfolded sample_start_def] h(2,3) w sample_noted_reach c sample_noted_run]
  have "0 \<in> dom (p_store sample_noted)" by (simp add: sample_noted_def Submit_def)
  with all sample_rested_rests show ?thesis by blast
qed

end
