(* ===== verification/Process.thy ===== *)
theory Process
  imports Server
begin

text \<open>
  The life of the server process, \<^verbatim>\<open>main\<close> of \<^verbatim>\<open>backend/go-api/cmd/server/main.go\<close> from the moment it
  listens: the requests it answers, the signal that stops it, the order in which it takes its parts
  down. A request is one step. One that is still running when the ten seconds of the HTTP server's
  shutdown are over is not followed any further.
\<close>

section \<open>Phases and steps\<close>

text \<open>\<open>pr_answered\<close> only records what the server has answered, and in which surroundings.\<close>

datatype phase = Serving | Draining | StoppingPool | Exited | Fatal

record ('q, 'r) process =
  pr_phase :: phase
  pr_api :: "('q, 'r) api_state"
  pr_pool :: "task_data pool"
  pr_closed :: "resource list"
  pr_answered :: "(world \<times> request \<times> response) list"

text \<open>The stores \<^verbatim>\<open>main\<close> closes, in its order: those it has a client of.\<close>

definition store_conns :: "('q, 'r) Handler \<Rightarrow> resource list" where
  "store_conns h =
     (if h_qdrant h \<noteq> None then [QdrantConn] else []) @ (if h_redis h \<noteq> None then [RedisConn] else [])"

text \<open>
  The end of \<^verbatim>\<open>main\<close> once \<^verbatim>\<open>workerPool.Shutdown\<close> has returned. A client's \<^verbatim>\<open>Close\<close> only closes its
  connection.
\<close>

definition close_all :: "('q, 'r) Handler \<Rightarrow> ('q, 'r) process \<Rightarrow> ('q, 'r) process" where
  "close_all h s =
     (case CloseChainClients (pr_api s) of
        (Inl p, api) \<Rightarrow> s\<lparr>pr_api := api\<rparr>
      | (Inr conns, api) \<Rightarrow>
          s\<lparr>pr_phase := Exited, pr_api := api, pr_closed := pr_closed s @ store_conns h @ [ChainConns conns]\<rparr>)"

text \<open>
  \<^verbatim>\<open>ListenAndServe\<close> may fail while the process serves, which is fatal. Nothing but the workers touches
  the pool: \<^verbatim>\<open>main\<close> hands it to nobody.
\<close>

inductive quiet_step :: "('q, 'r) Handler \<Rightarrow> ('q, 'r) process \<Rightarrow> ('q, 'r) process \<Rightarrow> bool" for h where
  worker_step: "pr_phase s \<in> {Serving, Draining, StoppingPool} \<Longrightarrow> works (pr_pool s) p \<Longrightarrow>
     quiet_step h s (s\<lparr>pr_pool := p\<rparr>)"
| drained: "pr_phase s = Draining \<Longrightarrow>
     quiet_step h s (s\<lparr>pr_phase := StoppingPool, pr_pool := (pr_pool s)\<lparr>p_cancelled := True\<rparr>\<rparr>)"
| stopped: "pr_phase s = StoppingPool \<Longrightarrow> p_done (pr_pool s) \<Longrightarrow> quiet_step h s (close_all h s)"

inductive process_step ::
  "jwt_parser \<Rightarrow> router \<Rightarrow> ('q, 'r) Handler \<Rightarrow> ('q, 'r) process \<Rightarrow> ('q, 'r) process \<Rightarrow> bool"
  for jwt R h where
  quiet: "quiet_step h s s' \<Longrightarrow> process_step jwt R h s s'"
| request: "pr_phase s \<in> {Serving, Draining} \<Longrightarrow> serve jwt R h w now rq (pr_api s) = (a, api) \<Longrightarrow>
     process_step jwt R h s (s\<lparr>pr_api := api, pr_answered := pr_answered s @ [(w, rq, a)]\<rparr>)"
| signal: "pr_phase s = Serving \<Longrightarrow> process_step jwt R h s (s\<lparr>pr_phase := Draining\<rparr>)"
| fatal: "pr_phase s = Serving \<Longrightarrow> process_step jwt R h s (s\<lparr>pr_phase := Fatal\<rparr>)"

inductive_cases quiet_stepE: "quiet_step h s s'"
inductive_cases process_stepE: "process_step jwt R h s s'"

text \<open>The process as \<^verbatim>\<open>start\<close> leaves it, with the routes registered and no chain client yet.\<close>

definition listening :: "task_data pool \<Rightarrow> ('q, 'r) api_state \<Rightarrow> ('q, 'r) process" where
  "listening p s =
     \<lparr> pr_phase = Serving, pr_api = RegisterRoutes (s\<lparr>as_clients := Map.empty\<rparr>), pr_pool = p, pr_closed = [],
       pr_answered = [] \<rparr>"

section \<open>What holds throughout\<close>

definition unused :: "'d pool \<Rightarrow> bool" where
  "unused p \<longleftrightarrow> pool_ok p \<and> p_store p = Map.empty"

lemma unused_works: "works p p' \<Longrightarrow> unused p \<Longrightarrow> unused p'"
  using works_keeps_store [of p p'] works_ok [of p p'] by (auto simp: unused_def)

lemma unused_cancel: "unused p \<Longrightarrow> unused (p\<lparr>p_cancelled := True\<rparr>)"
  using pool_step_ok [OF cancel, of p] by (simp add: unused_def)

lemma unused_idle: "unused p \<Longrightarrow> i < length (p_workers p) \<Longrightarrow> p_workers p ! i \<noteq> Busy t"
  using busy_split [of i "p_workers p"] by (auto simp: unused_def pool_ok_def locs_ok_def in_locs)

definition process_ok :: "('q, 'r) Handler \<Rightarrow> ('q, 'r) process \<Rightarrow> bool" where
  "process_ok h s \<longleftrightarrow>
     unused (pr_pool s) \<and>
     (case pr_phase s of
        Serving \<Rightarrow> \<not> p_cancelled (pr_pool s) \<and> pr_closed s = []
      | Draining \<Rightarrow> \<not> p_cancelled (pr_pool s) \<and> pr_closed s = []
      | StoppingPool \<Rightarrow> p_cancelled (pr_pool s) \<and> pr_closed s = []
      | Exited \<Rightarrow> p_done (pr_pool s) \<and> as_clients (pr_api s) = Map.empty \<and>
          (\<exists>conns. pr_closed s = store_conns h @ [ChainConns conns])
      | Fatal \<Rightarrow> \<not> p_cancelled (pr_pool s) \<and> pr_closed s = [])"

lemma close_all_apply:
  "close_all h s = s\<lparr>pr_phase := Exited, pr_api := (pr_api s)\<lparr>as_clients := Map.empty\<rparr>,
     pr_closed := pr_closed s @ store_conns h @ [ChainConns (ran (as_clients (pr_api s)))]\<rparr>"
  by (simp add: close_all_def CloseChainClients_def on_clients_def gzoom_def CloseAll_def)

lemma quiet_step_ok:
  assumes "quiet_step h s s'" "process_ok h s"
  shows "process_ok h s'"
  using assms(1)
proof cases
  case (worker_step p)
  with assms(2) show ?thesis
    using unused_works [of "pr_pool s" p] works_frame [of "pr_pool s" p]
    by (auto simp: process_ok_def)
qed (use assms(2) in \<open>auto simp: process_ok_def unused_cancel close_all_apply\<close>)

lemma process_step_ok:
  assumes "process_step jwt R h s s'" "process_ok h s"
  shows "process_ok h s'"
  using assms(1)
proof cases
  case quiet
  then show ?thesis using assms(2) by (rule quiet_step_ok)
qed (use assms(2) in \<open>auto simp: process_ok_def\<close>)

lemma process_reach_ok:
  "(process_step jwt R h)\<^sup>*\<^sup>* s s' \<Longrightarrow> process_ok h s \<Longrightarrow> process_ok h s'"
  by (induction rule: rtranclp_induct) (auto intro: process_step_ok)

lemma start_unused:
  assumes "start env dial parseURL ping srv_of hexToECDSA q = (Inr (h, p0), q')"
  shows "process_ok h (listening p0 s)"
proof -
  obtain p1 where p1: "NewPool (wc_Count (Worker (Load env))) (wc_QueueSize (Worker (Load env))) = Inr p1"
    and p0: "p0 = RegisterTaskHandlers (h_qdrant h) (h_redis h) p1"
    using start_pool [OF assms] by blast
  have "pool_ok p0"
    unfolding p0 RegisterTaskHandlers_def by (rule with_handlers_ok [OF pool_ok_NewPool [OF p1]])
  moreover have "p_store p0 = Map.empty" "\<not> p_cancelled p0"
    using p1 by (auto simp: p0 RegisterTaskHandlers_def with_handlers_def RegisterHandler_def NewPool_def
        split: if_splits)
  ultimately show ?thesis by (simp add: process_ok_def listening_def unused_def)
qed

section \<open>Stopping\<close>

primrec rank :: "phase \<Rightarrow> nat" where
  "rank Serving = 2"
| "rank Draining = 2"
| "rank StoppingPool = 1"
| "rank Exited = 0"
| "rank Fatal = 0"

definition left :: "('q, 'r) process \<Rightarrow> nat" where
  "left s = load (pr_pool s) + rank (pr_phase s)"

lemma quiet_step_left: "quiet_step h s s' \<Longrightarrow> process_ok h s \<Longrightarrow> left s' < left s"
proof (erule quiet_stepE)
  fix p
  assume "process_ok h s" "s' = s\<lparr>pr_pool := p\<rparr>" "works (pr_pool s) p"
  then show "left s' < left s"
    using works_load [of "pr_pool s" p] by (simp add: left_def process_ok_def unused_def)
next
  assume "s' = s\<lparr>pr_phase := StoppingPool, pr_pool := (pr_pool s)\<lparr>p_cancelled := True\<rparr>\<rparr>"
    "pr_phase s = Draining"
  then show "left s' < left s"
    by (simp add: left_def load_def weigh_same [of "(pr_pool s)\<lparr>p_cancelled := True\<rparr>" "pr_pool s"])
qed (simp add: left_def close_all_apply)

lemma quiet_run_left:
  "(quiet_step h ^^ n) s s' \<Longrightarrow> process_ok h s \<Longrightarrow> n + left s' \<le> left s \<and> process_ok h s'"
proof (induction n arbitrary: s')
  case (Suc n)
  then obtain s1 where "(quiet_step h ^^ n) s s1" "quiet_step h s1 s'" by auto
  with Suc.IH [of s1] Suc.prems(2) show ?case
    using quiet_step_left [of h s1 s'] quiet_step_ok [of h s1 s'] by auto
qed simp

lemma quiet_phases:
  "quiet_step h s s' \<Longrightarrow> pr_phase s \<in> {Draining, StoppingPool, Exited} \<Longrightarrow>
    pr_phase s' \<in> {Draining, StoppingPool, Exited}"
  by (erule quiet_stepE) (auto simp: close_all_apply)

lemma quiet_run_phases:
  "(quiet_step h ^^ n) s s' \<Longrightarrow> pr_phase s \<in> {Draining, StoppingPool, Exited} \<Longrightarrow>
    pr_phase s' \<in> {Draining, StoppingPool, Exited}"
  by (induction n arbitrary: s') (auto dest!: quiet_phases)

text \<open>What a quiet run closes is what the process held when the run began.\<close>

definition holds_or_closed ::
  "('q, 'r) Handler \<Rightarrow> ('q, 'r) process \<Rightarrow> ('q, 'r) process \<Rightarrow> bool" where
  "holds_or_closed h s s' \<longleftrightarrow>
     (if pr_phase s' = Exited
      then pr_closed s' = store_conns h @ [ChainConns (ran (as_clients (pr_api s)))]
      else pr_api s' = pr_api s)"

lemma quiet_step_closes:
  assumes "quiet_step h s1 s2" "process_ok h s1" "holds_or_closed h s s1"
  shows "holds_or_closed h s s2"
  using assms(1)
proof cases
  case stopped
  then have "pr_closed s1 = []" using assms(2) by (simp add: process_ok_def)
  with stopped assms(3) show ?thesis by (simp add: holds_or_closed_def close_all_apply)
qed (use assms(3) in \<open>auto simp: holds_or_closed_def\<close>)

lemma quiet_run_closes:
  assumes "process_ok h s" "pr_phase s \<noteq> Exited"
  shows "(quiet_step h ^^ n) s s' \<Longrightarrow> holds_or_closed h s s'"
proof (induction n arbitrary: s')
  case 0
  with assms(2) show ?case by (simp add: holds_or_closed_def)
next
  case (Suc n)
  then obtain s1 where s1: "(quiet_step h ^^ n) s s1" "quiet_step h s1 s'" by auto
  from quiet_step_closes [OF s1(2) _ Suc.IH [OF s1(1)]] quiet_run_left [OF s1(1) assms(1)]
  show ?case by simp
qed

lemma quiet_end:
  assumes "process_ok h s" "pr_phase s \<in> {Draining, StoppingPool, Exited}" "\<And>s'. \<not> quiet_step h s s'"
  shows "pr_phase s = Exited"
proof (rule ccontr)
  assume "pr_phase s \<noteq> Exited"
  then consider "pr_phase s = Draining" | "pr_phase s = StoppingPool" using assms(2) by auto
  then show False
  proof cases
    case 1
    then show False using drained assms(3) by blast
  next
    case 2
    then have c: "p_cancelled (pr_pool s)" and u: "unused (pr_pool s)"
      using assms(1) by (simp_all add: process_ok_def)
    have "resting (pr_pool s)"
      using worker_step [of s _ h] 2 assms(3) by (auto simp: resting_def)
    then have "p_done (pr_pool s)"
      using resting_stopped [OF _ c unused_idle [OF u]] by blast
    then show False using stopped [OF 2] assms(3) by blast
  qed
qed

text \<open>
  C16: A signal ends the server. From any state it can come to after the signal, and once no request
  is running, the process takes at most \<open>left\<close> more steps, and where it can take none \<^verbatim>\<open>main\<close> has
  returned: every worker has stopped, and it has closed the stores it had clients of, then all the
  chain clients its table held, in that order and nothing twice, and the table is empty.
\<close>
theorem signal_ends_server:
  assumes "start env dial parseURL ping srv_of hexToECDSA q = (Inr (h, p0), q')"
    and "(process_step jwt R h)\<^sup>*\<^sup>* (listening p0 s0) s" "pr_phase s = Draining \<or> pr_phase s = StoppingPool"
    and "(quiet_step h ^^ n) s s'"
  shows "n \<le> left s \<and> ((\<nexists>s2. quiet_step h s' s2) \<longrightarrow>
    pr_phase s' = Exited \<and> set (p_workers (pr_pool s')) \<subseteq> {Stopped} \<and> as_clients (pr_api s') = Map.empty \<and>
    pr_closed s' = store_conns h @ [ChainConns (ran (as_clients (pr_api s)))])"
proof -
  have ok: "process_ok h s" using process_reach_ok [OF assms(2) start_unused [OF assms(1)]] .
  have run: "n + left s' \<le> left s" "process_ok h s'"
    using quiet_run_left [OF assms(4) ok] by simp_all
  have ph: "pr_phase s' \<in> {Draining, StoppingPool, Exited}"
    using quiet_run_phases [OF assms(4)] assms(3) by auto
  show ?thesis
  proof (intro conjI impI)
    show "n \<le> left s" using run(1) by simp
    assume "\<nexists>s2. quiet_step h s' s2"
    then have e: "pr_phase s' = Exited" using quiet_end [OF run(2) ph] by blast
    then show "pr_phase s' = Exited" .
    have "p_done (pr_pool s')" "stop_ok (pr_pool s')"
      using run(2) e by (simp_all add: process_ok_def unused_def pool_ok_def)
    then show "set (p_workers (pr_pool s')) \<subseteq> {Stopped}" by (simp add: stop_ok_def)
    show "as_clients (pr_api s') = Map.empty" using run(2) e by (simp add: process_ok_def)
    have "holds_or_closed h s s'" using quiet_run_closes [OF ok _ assms(4)] assms(3) by auto
    then show "pr_closed s' = store_conns h @ [ChainConns (ran (as_clients (pr_api s)))]"
      using e by (simp add: holds_or_closed_def)
  qed
qed

text \<open>The sample server is signalled before it has served anything; its four workers stop in turn.\<close>

lemma stop_all:
  "p_cancelled p \<Longrightarrow> p_workers p = replicate j Stopped @ replicate n Idle \<Longrightarrow>
    run n p (p\<lparr>p_workers := replicate (j + n) Stopped\<rparr>)"
proof (induction n arbitrary: j p)
  case 0
  then have "p\<lparr>p_workers := replicate (j + 0) Stopped\<rparr> = p" by simp
  then show ?case by (metis run0)
next
  case (Suc n)
  let ?p = "p\<lparr>p_workers := (p_workers p)[j := Stopped]\<rparr>"
  have w: "p_workers ?p = replicate (Suc j) Stopped @ replicate n Idle"
    using Suc.prems(2) by (simp add: list_update_append replicate_append_same)
  have "works p ?p" using Suc.prems by (intro stop) (simp_all add: nth_append)
  moreover have "run n ?p (?p\<lparr>p_workers := replicate (Suc j + n) Stopped\<rparr>)"
    using Suc.prems(1) w by (intro Suc.IH) simp_all
  ultimately have "run (Suc n) p (?p\<lparr>p_workers := replicate (Suc j + n) Stopped\<rparr>)" by (rule runS)
  then show ?case by simp
qed

lemma quiet_pool_run:
  "run n p p' \<Longrightarrow> pr_phase s = StoppingPool \<Longrightarrow> pr_pool s = p \<Longrightarrow>
    (quiet_step h ^^ n) s (s\<lparr>pr_pool := p'\<rparr>)"
proof (induction arbitrary: s rule: run.induct)
  case (run0 p)
  then have "s\<lparr>pr_pool := p\<rparr> = s" by simp
  then show ?case by simp
next
  case (runS p p1 n p2)
  have "quiet_step h s (s\<lparr>pr_pool := p1\<rparr>)" using runS by (intro worker_step) simp_all
  moreover have "(quiet_step h ^^ n) (s\<lparr>pr_pool := p1\<rparr>) (s\<lparr>pr_pool := p1\<rparr>\<lparr>pr_pool := p2\<rparr>)"
    using runS by (intro runS.IH) simp_all
  ultimately show ?case by (simp add: relpowp_Suc_I2 del: relpowp.simps)
qed

theorem signal_ends_server_witness:
  "\<exists>h s'. h_qdrant h \<noteq> None \<and> h_redis h \<noteq> None \<and>
     (quiet_step h ^^ 7) ((listening sample_booted sample_state)\<lparr>pr_phase := Draining\<rparr>) s' \<and>
     pr_phase s' = Exited \<and> pr_closed s' = [QdrantConn, RedisConn, ChainConns {}]"
proof -
  obtain h where h: "sample_start [] = (Inr (h, sample_booted), [])" "h_qdrant h \<noteq> None" "h_redis h \<noteq> None"
    using sample_started by blast
  let ?s0 = "listening sample_booted sample_state"
  let ?s1 = "?s0\<lparr>pr_phase := Draining\<rparr>"
  have ph: "pr_phase ?s0 = Serving" "pr_pool ?s0 = sample_booted" "as_clients (pr_api ?s0) = Map.empty"
    by (simp_all add: listening_def RegisterRoutes_def)
  have r: "(process_step no_jwt sample_router h)\<^sup>*\<^sup>* ?s0 ?s1"
    by (rule r_into_rtranclp, rule signal) (rule ph)
  let ?p2 = "sample_booted\<lparr>p_cancelled := True\<rparr>"
  let ?s2 = "?s1\<lparr>pr_phase := StoppingPool, pr_pool := ?p2\<rparr>"
  let ?p3 = "?p2\<lparr>p_workers := replicate (0 + 4) Stopped\<rparr>"
  have "quiet_step h ?s1 ?s2" using drained [of ?s1 h] ph(2) by simp
  moreover have "run 4 ?p2 ?p3" by (rule stop_all) (simp_all add: sample_booted_frame)
  then have "(quiet_step h ^^ 4) ?s2 (?s2\<lparr>pr_pool := ?p3\<rparr>)" by (rule quiet_pool_run) simp_all
  moreover have "quiet_step h (?s2\<lparr>pr_pool := ?p3\<rparr>) (?s2\<lparr>pr_pool := ?p3\<lparr>p_done := True\<rparr>\<rparr>)"
    using worker_step [of "?s2\<lparr>pr_pool := ?p3\<rparr>" "?p3\<lparr>p_done := True\<rparr>" h] close [of ?p3]
    by (simp add: sample_booted_frame)
  moreover have "quiet_step h (?s2\<lparr>pr_pool := ?p3\<lparr>p_done := True\<rparr>\<rparr>)
      (close_all h (?s2\<lparr>pr_pool := ?p3\<lparr>p_done := True\<rparr>\<rparr>))"
    by (rule stopped) simp_all
  ultimately have run: "(quiet_step h ^^ 7) ?s1 (close_all h (?s2\<lparr>pr_pool := ?p3\<lparr>p_done := True\<rparr>\<rparr>))"
    by (auto simp: eval_nat_numeral intro!: relcomppI)
  let ?s5 = "close_all h (?s2\<lparr>pr_pool := ?p3\<lparr>p_done := True\<rparr>\<rparr>)"
  have "\<nexists>s. quiet_step h ?s5 s" by (auto simp: close_all_apply elim: quiet_stepE)
  with signal_ends_server [OF h(1) [unfolded sample_start_def] r _ run] ph(3) h(2,3)
  have "pr_phase ?s5 = Exited \<and> pr_closed ?s5 = [QdrantConn, RedisConn, ChainConns {}]"
    by (simp add: store_conns_def)
  with run h(2,3) show ?thesis by blast
qed

end
