(* ===== verification/Consent_Results.thy ===== *)
theory Consent_Results
  imports Server
begin

text \<open>
  The properties of the consent endpoints: what it takes to create a consent, that it is then found,
  what a positive verification rests on, and what a revocation changes.
\<close>

section \<open>When everything a request needs is there\<close>

text \<open>The chain has a client and a registry, and its node answers the preparatory calls.\<close>

definition can_prepare ::
  "('q, 'r) Handler \<Rightarrow> world \<Rightarrow> string \<Rightarrow> ('q, 'r) api_state \<Rightarrow> bool" where
  "can_prepare h w chain s \<longleftrightarrow>
     canon_chain (w_lib w) chain \<noteq> None \<and>
     (\<exists>conn addr. chain_ready (w_lib w) (w_net w) (h_cfg h) chain (as_clients s) conn addr \<and>
        node_ready (w_net w) conn)"

lemma IndexConsent_total: "\<exists>x q'. IndexConsent (Some c) ctx i d q = (Inr x, q')"
  by (auto simp: IndexConsent_def split: prod.splits option.splits)

section \<open>Creating\<close>

lemma CreateConsent_prepares:
  assumes req: "bind_create (rq_Body rq) = Some req"
    and c: "canon_chain (w_lib w) (cr_Chain req) \<noteq> None" "bad_party (w_lib w) 0 (cr_Parties req) = None"
    and r: "chain_ready (w_lib w) (w_net w) (h_cfg h) (cr_Chain req) (as_clients s) conn addr"
    and p: "prepares (w_net w) (NewClient conn (cr_Chain req) addr)
      (register_data (w_lib w) (map (HexToAddress (w_lib w)) (cr_Parties req)) (map StringToBytes32 (cr_Scopes req))
        (unat (cr_Duration req))) chainID tx"
    and len: "length (cr_Parties req) < 2 ^ 32" "length (cr_Scopes req) < 2 ^ 32"
  shows "\<exists>t. CreateConsent h w rq s =
    store_consent h w req (generateConsentID w (cr_Parties req) (cr_Scopes req))
      (HashHex (w_lib w) (SignerHash (w_lib w) chainID tx)) (s\<lparr>as_clients := t\<rparr>)"
proof -
  have v: "valid_create req" using req by (rule bind_createD)
  obtain t where g: "getContractClient (w_lib w) (w_net w) (h_cfg h) (cr_Chain req) s =
      (Inr (Inr (NewClient conn (cr_Chain req) addr)), s\<lparr>as_clients := t\<rparr>)"
    using getContractClient_ready [OF r] by blast
  have d: "int (unat (cr_Duration req)) < 256 ^ 32"
    using u64_fits_32 [of "cr_Duration req"] by (metis of_nat_less_iff of_nat_numeral of_nat_power)
  let ?h = "SignerHash (w_lib w) chainID tx"
  have "RegisterConsent (w_lib w) (w_net w) (NewClient conn (cr_Chain req) addr)
      (bytesToAddresses (w_lib w) (cr_Parties req)) (scopesToBytes32 (cr_Scopes req))
      (bigIntPtr (cr_Duration req)) = Inr (?h, HashHex (w_lib w) ?h, needs_signing (w_lib w) ?h)"
    by (rule RegisterConsent_prepares) (use p len d in \<open>simp_all add: bytesToAddresses_def scopesToBytes32_def bigIntPtr_def\<close>)
  with req v c g show ?thesis
    by (intro exI [of _ t])
       (auto simp: CreateConsent_def valid_create_def gbind_def Let_def validateChain_iff [THEN iffD2])
qed

lemma CreateConsent_prepared:
  assumes req: "bind_create (rq_Body rq) = Some req"
    and p: "can_prepare h w (cr_Chain req) s" "bad_party (w_lib w) 0 (cr_Parties req) = None"
    and len: "length (cr_Parties req) < 2 ^ 32" "length (cr_Scopes req) < 2 ^ 32"
  shows "\<exists>hash t. CreateConsent h w rq s =
    store_consent h w req (generateConsentID w (cr_Parties req) (cr_Scopes req)) (HashHex (w_lib w) hash)
      (s\<lparr>as_clients := t\<rparr>)"
proof -
  from p(1) obtain conn addr where c: "canon_chain (w_lib w) (cr_Chain req) \<noteq> None"
    and r: "chain_ready (w_lib w) (w_net w) (h_cfg h) (cr_Chain req) (as_clients s) conn addr"
      "node_ready (w_net w) (cl_conn (NewClient conn (cr_Chain req) addr))"
    by (auto simp: can_prepare_def NewClient_def)
  obtain chainID tx where "prepares (w_net w) (NewClient conn (cr_Chain req) addr)
      (register_data (w_lib w) (map (HexToAddress (w_lib w)) (cr_Parties req)) (map StringToBytes32 (cr_Scopes req))
        (unat (cr_Duration req))) chainID tx"
    using node_ready_prepares [OF r(2)] .
  from CreateConsent_prepares [OF req c p(2) r(1) this len] show ?thesis by blast
qed

definition created_cache :: "world \<Rightarrow> CreateConsentRequest \<Rightarrow> string \<Rightarrow> ConsentCache" where
  "created_cache w req txHash =
     (let now = word_of_int (w_unix w) in
      createConsentCache (generateConsentID w (cr_Parties req) (cr_Scopes req)) (cr_Chain req) txHash
        (cr_Parties req) (cr_Scopes req) now (now + cr_Duration req) now False)"

lemma store_consent_stored:
  assumes "h_qdrant h = Some c" "h_redis h = Some srv" "redis_up srv" "redis_ok srv view"
  shows "\<exists>s'. store_consent h w req (generateConsentID w (cr_Parties req) (cr_Scopes req)) txHash s =
      (Inr (201, CreateBody \<lparr> cp_ConsentID = generateConsentID w (cr_Parties req) (cr_Scopes req),
              cp_Chain = cr_Chain req, cp_TxHash = txHash, cp_Status = ''pending'' \<rparr>), s') \<and>
    cached view (as_redis s') (cr_Chain req) (generateConsentID w (cr_Parties req) (cr_Scopes req)) =
      Some (clean_cache (created_cache w req txHash))"
proof -
  let ?d = "created_cache w req txHash"
  obtain r' where p: "CacheConsent (Some srv) ?d day (as_redis s) = (Inr None, r')"
    using redis_upD(1) [OF assms(3)] by blast
  have st: "cached view r' (cc_Chain ?d) (cc_ConsentID ?d) = Some (clean_cache ?d)"
    using redis_store.put_found [OF assms(4) p] .
  let ?doc = "\<lparr> qd_ConsentID = generateConsentID w (cr_Parties req) (cr_Scopes req),
      qd_Parties = cr_Parties req, qd_Scopes = cr_Scopes req, qd_ValidFrom = word_of_int (w_unix w),
      qd_ValidUntil = word_of_int (w_unix w) + cr_Duration req,
      qd_Revoked = False, qd_Chain = cr_Chain req, qd_TxHash = txHash,
      qd_CreatedAt = word_of_int (w_unix w),
      qd_Embedding = generateEmbedding (generateConsentID w (cr_Parties req) (cr_Scopes req))
        (cr_Parties req) (cr_Scopes req) \<rparr>"
  obtain x q' where "IndexConsent (Some c) [] (w_uuid w) ?doc (as_qdrant s) = (Inr x, q')"
    using IndexConsent_total [of c "[]" "w_uuid w" ?doc "as_qdrant s"] by (elim exE)
  then show ?thesis
    using assms(1,2) p st
    by (simp add: store_consent_def Let_def gbind_def on_qdrant_apply on_redis_apply created_cache_def)
       (simp add: createConsentCache_def)
qed

lemma GetConsent_hit:
  assumes "h_redis h = Some srv" "redis_ok srv view" "redis_up srv"
    and "canon_chain (w_lib w) chain \<noteq> None" "ident \<noteq> ''''" "chain \<noteq> ''''"
    and "rq_Param rq ''id'' = ident" "rq_Query rq ''chain'' = chain"
    and "cached view (as_redis s) chain ident = Some d"
  shows "\<exists>s'. GetConsent_handler h w rq s = (Inr (200, ConsentBody (toConsentResponse d)), s') \<and>
    view (as_redis s') = view (as_redis s)"
proof -
  obtain r' where "GetCachedConsent (Some srv) chain ident (as_redis s) = (Inr (Inr (Some d)), r')"
    "view r' = view (as_redis s)"
    using read_cached [OF assms(2,3,9)] by blast
  with assms show ?thesis
    by (auto simp: GetConsent_handler_def gbind_def on_redis_apply Let_def
        validateChain_iff [THEN iffD2])
qed

text \<open>The strings of a request and the ids made of it are valid UTF-8.\<close>

definition request_text_ok :: "CreateConsentRequest \<Rightarrow> bool" where
  "request_text_ok req \<longleftrightarrow> list_all utf8_valid (cr_Parties req) \<and> list_all utf8_valid (cr_Scopes req) \<and>
     utf8_valid (cr_Chain req)"

lemma created_cache_text_ok:
  assumes "lib_hex (w_lib w)" "request_text_ok req"
  shows "cache_text_ok (created_cache w req (HashHex (w_lib w) hash))"
  using assms
  by (simp add: created_cache_def createConsentCache_def cache_text_ok_def request_text_ok_def Let_def
      generateConsentID_def lib_hex_def utf8_valid_ascii)

text \<open>A body with two parties and one scope on Sepolia, for an hour.\<close>

definition sample_party :: "string \<Rightarrow> string" where
  "sample_party c = concat (replicate 40 c)"

definition sample_create :: CreateConsentRequest where
  "sample_create = \<lparr> cr_Parties = [sample_party ''1'', sample_party ''2''], cr_Scopes = [''photo''],
     cr_Duration = 3600, cr_Chain = ''sepolia'' \<rparr>"

definition sample_create_json :: json where
  "sample_create_json = JObj
     [(''parties'', JArr [JStr (sample_party ''1''), JStr (sample_party ''2'')]),
      (''scopes'', JArr [JStr ''photo'']), (''duration'', json_u64 3600), (''chain'', JStr ''sepolia'')]"

lemma sample_create_fields:
  "cr_Scopes sample_create = [''photo'']" "cr_Chain sample_create = ''sepolia''"
  "cr_Duration sample_create = 3600" "length (cr_Parties sample_create) = 2"
  by (simp_all add: sample_create_def)

lemma sample_create_bound: "bind_create (Some sample_create_json) = Some sample_create"
  by (simp add: bind_create_def ShouldBindJSON_def sample_create_json_def sample_create_def set_create_def
      names_field_def ascii_lower_def valid_create_def)

lemma sample_hex_party: "c \<in> {''1'', ''2''} \<Longrightarrow> IsHexAddress sample_lib (sample_party c)"
  by (auto simp: sample_lib_def sample_party_def eval_nat_numeral hex_value_def Let_def)

lemma sample_create_ready:
  "bad_party sample_lib 0 (cr_Parties sample_create) = None"
  "canon_chain L ''sepolia'' = Some ''sepolia''"
  "request_text_ok sample_create"
proof -
  show "bad_party sample_lib 0 (cr_Parties sample_create) = None"
    using sample_hex_party by (simp add: sample_create_def)
  show "canon_chain L ''sepolia'' = Some ''sepolia''"
    by (rule canon_chain_self) (simp add: canonical_names_def)
  have "is_ascii (sample_party ''1'')" "is_ascii (sample_party ''2'')"
    by (simp_all add: sample_party_def is_ascii_def list_all_iff)
  then show "request_text_ok sample_create"
    by (simp add: request_text_ok_def sample_create_def utf8_valid_ascii is_ascii_def)
qed

lemma sample_ready:
  assumes "as_clients s = Map.empty"
  shows "chain_ready sample_lib (sample_net a) sample_cfg ''sepolia'' (as_clients s) 1
    (HexToAddress sample_lib ''0x01'')"
  and "node_ready (sample_net a) 1"
proof -
  have reg: "registry_table (Chains sample_cfg) ''sepolia'' = ''0x01''"
    by (simp add: sample_cfg_def Load_def load_chains_def getEnv_def sample_env_def)
  have "GetClient sample_lib (Chains sample_cfg) (sample_net a) ''sepolia'' (as_clients s) =
      (Inr (Inr 1), (as_clients s)(''sepolia'' \<mapsto> 1))"
    using assms sample_create_ready(2) by (intro GetClient_dial) (simp_all add: sample_net_def)
  then show "chain_ready sample_lib (sample_net a) sample_cfg ''sepolia'' (as_clients s) 1
    (HexToAddress sample_lib ''0x01'')"
    using reg by (simp add: chain_ready_def registry_switch.known [OF sample_create_ready(2)] del: registry_table.simps)
  show "node_ready (sample_net a) 1"
    by (simp add: node_ready_def sample_net_def)
qed

lemma sample_prepared: "can_prepare sample_handler (sample_world a n) ''sepolia'' sample_state"
  using sample_ready [of sample_state a] sample_create_ready(2)
  unfolding can_prepare_def by (auto simp: sample_world_def sample_state_def RegisterRoutes_def)

lemma sample_simps [simp]:
  "rq_Body (post_request i j) = Some j" "rq_Param (post_request i j) ''id'' = i"
  "rq_Param (get_request p i ch) ''id'' = i" "rq_Query (get_request p i ch) ''chain'' = ch"
  "w_lib (sample_world a n) = sample_lib" "w_net (sample_world a n) = sample_net a"
  "w_unix (sample_world a n) = n"
  by (simp_all add: post_request_def get_request_def sample_world_def)

text \<open>
  C2: What is created is found. Let both stores be connected, Redis accept and answer every command and
  keep what it was given until it is read, and the chain's node answer. Then a body that binds, on a supported chain, with
  addresses for parties, fewer than 2^32 parties and scopes and all text in UTF-8, is answered 201, pending, with the id and the text of the signer's hash of exactly the
  registration transaction of these parties, scopes and duration (\<open>unsigned_call\<close>); reading that id on
  that chain then gives 200 with exactly the parties, scopes, chain and hash of the request, not
  revoked, valid from the time of creation until that time plus the duration (in 64 bits), across the
  validation, the encoding, the cache's JSON and back. Nothing else is asked of the request: the code
  also accepts a party named twice, more than ten parties, any scope name, any duration and a
  repetition of an earlier request, which documents or tests of the repository want refused.
\<close>
theorem create_then_get:
  assumes "bind_create (rq_Body rq) = Some req" "canon_chain (w_lib w) (cr_Chain req) \<noteq> None"
    and "chain_ready (w_lib w) (w_net w) (h_cfg h) (cr_Chain req) (as_clients s) conn addr"
    and "ChainID (w_net w) conn = Inr chainID" "NonceAt (w_net w) conn zero_address = Inr nonce"
    and "SuggestGasPrice (w_net w) conn = Inr price"
    and "bad_party (w_lib w) 0 (cr_Parties req) = None"
    and "length (cr_Parties req) < 2 ^ 32" "length (cr_Scopes req) < 2 ^ 32"
    and "h_qdrant h = Some c" "h_redis h = Some srv" "redis_ok srv view" "redis_up srv"
    and "lib_hex (w_lib w)" "request_text_ok req"
    and "w_lib w' = w_lib w" "rq_Param rq' ''id'' = generateConsentID w (cr_Parties req) (cr_Scopes req)"
    and "rq_Query rq' ''chain'' = cr_Chain req" "rq_Param rq' ''id'' \<noteq> ''''"
    and "txHash = SignerHash (w_lib w) chainID
      (unsigned_call (w_net w) (NewClient conn (cr_Chain req) addr) nonce price
        (register_data (w_lib w) (map (HexToAddress (w_lib w)) (cr_Parties req))
          (map StringToBytes32 (cr_Scopes req)) (unat (cr_Duration req))))"
  shows "\<exists>s1 s2.
    CreateConsent h w rq s = (Inr (201, CreateBody \<lparr> cp_ConsentID = rq_Param rq' ''id'',
      cp_Chain = cr_Chain req, cp_TxHash = HashHex (w_lib w) txHash, cp_Status = ''pending'' \<rparr>), s1) \<and>
    GetConsent_handler h w' rq' s1 = (Inr (200, ConsentBody
      \<lparr> co_ConsentID = rq_Param rq' ''id'', co_Parties = cr_Parties req, co_Scopes = cr_Scopes req,
        co_ValidFrom = word_of_int (w_unix w), co_ValidUntil = word_of_int (w_unix w) + cr_Duration req,
        co_Revoked = False, co_Chain = cr_Chain req, co_TxHash = HashHex (w_lib w) txHash,
        co_CreatedAt = word_of_int (w_unix w) \<rparr>), s2)"
proof -
  let ?id = "generateConsentID w (cr_Parties req) (cr_Scopes req)"
  have "prepares (w_net w) (NewClient conn (cr_Chain req) addr) data chainID
      (unsigned_call (w_net w) (NewClient conn (cr_Chain req) addr) nonce price data)" for data
    using assms(4-6) by (simp add: prepares_def NewClient_def)
  from CreateConsent_prepares [OF assms(1,2,7,3) this assms(8,9)]
  obtain t where c1: "CreateConsent h w rq s =
      store_consent h w req ?id (HashHex (w_lib w) txHash) (s\<lparr>as_clients := t\<rparr>)"
    unfolding assms(20) by blast
  let ?tx = "HashHex (w_lib w) txHash"
  let ?d = "created_cache w req ?tx"
  obtain s1 where c2: "store_consent h w req ?id ?tx (s\<lparr>as_clients := t\<rparr>) =
      (Inr (201, CreateBody \<lparr> cp_ConsentID = ?id, cp_Chain = cr_Chain req, cp_TxHash = ?tx,
        cp_Status = ''pending'' \<rparr>), s1)"
    and ca: "cached view (as_redis s1) (cr_Chain req) ?id = Some ?d"
    using store_consent_stored [OF assms(10,11,13,12)] clean_cache_id [OF created_cache_text_ok [OF assms(14,15)]]
    by metis
  have "canon_chain (w_lib w') (cr_Chain req) \<noteq> None" "cr_Chain req \<noteq> ''''"
    using assms(2,16) bind_createD [OF assms(1)] by (simp_all add: valid_create_def)
  with GetConsent_hit [OF assms(11,12,13) _ _ _ _ assms(18), of w' "rq_Param rq' ''id''" s1 ?d] ca assms(17,19)
  obtain s2 where "GetConsent_handler h w' rq' s1 = (Inr (200, ConsentBody (toConsentResponse ?d)), s2)"
    by auto
  with c1 c2 assms(17) show ?thesis
    by (intro exI [of _ s1] exI [of _ s2])
       (simp add: toConsentResponse_def created_cache_def createConsentCache_def Let_def)
qed

theorem create_then_get_witness:
  "\<exists>s1 s2 c d. CreateConsent sample_handler (sample_world [] 100) (post_request '''' sample_create_json)
      sample_state = (Inr (201, CreateBody c), s1) \<and>
    GetConsent_handler sample_handler (sample_world [] 200)
      (get_request '''' (generateConsentID (sample_world [] 100) (cr_Parties sample_create) [''photo'']) ''sepolia'')
      s1 = (Inr (200, ConsentBody d), s2) \<and> co_Scopes d = [''photo''] \<and> co_ValidUntil d = 3700 \<and>
    co_TxHash d = cp_TxHash c"
proof -
  let ?id = "generateConsentID (sample_world [] 100) (cr_Parties sample_create) [''photo'']"
  let ?rq = "get_request '''' ?id ''sepolia''"
  have i: "?id \<noteq> ''''"
    by (simp add: generateConsentID_def sample_world_def sample_lib_def Let_def)
  have e: "as_clients sample_state = Map.empty" by (simp add: sample_state_def RegisterRoutes_def)
  obtain chainID nonce price where n: "ChainID (sample_net []) 1 = Inr chainID"
    "NonceAt (sample_net []) 1 zero_address = Inr nonce" "SuggestGasPrice (sample_net []) 1 = Inr price"
    by (simp add: sample_net_def)
  obtain tx s1 s2 where
    "CreateConsent sample_handler (sample_world [] 100) (post_request '''' sample_create_json) sample_state =
      (Inr (201, CreateBody \<lparr> cp_ConsentID = rq_Param ?rq ''id'',
        cp_Chain = cr_Chain sample_create, cp_TxHash = tx, cp_Status = ''pending'' \<rparr>), s1)"
    "GetConsent_handler sample_handler (sample_world [] 200) ?rq s1 =
      (Inr (200, ConsentBody
      \<lparr> co_ConsentID = rq_Param ?rq ''id'', co_Parties = cr_Parties sample_create,
        co_Scopes = cr_Scopes sample_create, co_ValidFrom = word_of_int (w_unix (sample_world [] 100)),
        co_ValidUntil = word_of_int (w_unix (sample_world [] 100)) + cr_Duration sample_create,
        co_Revoked = False, co_Chain = cr_Chain sample_create, co_TxHash = tx,
        co_CreatedAt = word_of_int (w_unix (sample_world [] 100)) \<rparr>), s2)"
    using create_then_get [of "post_request '''' sample_create_json" sample_create "sample_world [] 100"
        sample_handler sample_state 1 "HexToAddress sample_lib ''0x01''" chainID nonce price
        "(sample_qdrant, Qdrant sample_cfg)" sample_redis "\<lambda>r. r" "sample_world [] 200" ?rq, OF _ _ _ _ _ _ _ _ _ _ _ _ _ _ _ _ _ _ _ refl]
      sample_create_bound sample_ready(1) [OF e, of "[]"] n sample_create_ready sample_redis_ok
      sample_redis_up sample_hex i sample_create_fields
    by auto
  then show ?thesis by (auto simp: sample_create_fields)
qed

lemma bad_party_None: "bad_party L i ps = None \<longleftrightarrow> list_all (IsHexAddress L) ps"
  by (induction ps arbitrary: i) simp_all

text \<open>Past the validation a creation is answered 201 or 500, or panics.\<close>

lemma store_consent_status: "store_consent h w req i tx s = (Inr (st, b), s') \<Longrightarrow> st = 201"
  by (auto simp: store_consent_def Let_def elim!: gbind_cases)

lemma create_checked:
  assumes "bind_create (rq_Body rq) = Some req" "canon_chain (w_lib w) (cr_Chain req) \<noteq> None"
    and "bad_party (w_lib w) 0 (cr_Parties req) = None"
    and "CreateConsent h w rq s = (Inr (st, b), s')"
  shows "st = 201 \<or> st = 500"
proof -
  let ?reg = "\<lambda>c. RegisterConsent (w_lib w) (w_net w) c (bytesToAddresses (w_lib w) (cr_Parties req))
      (scopesToBytes32 (cr_Scopes req)) (bigIntPtr (cr_Duration req))"
  let ?rest = "\<lambda>(txHash, txHashStr, err).
      if \<not> signing_error err then handleError 500 ''failed to register consent on chain'' err
      else store_consent h w req (generateConsentID w (cr_Parties req) (cr_Scopes req)) txHashStr"
  have "CreateConsent h w rq s = gbind (getContractClient (w_lib w) (w_net w) (h_cfg h) (cr_Chain req)) (\<lambda>cl.
      case cl of Inl e \<Rightarrow> handleError 500 ''failed to get contract client'' e
      | Inr c \<Rightarrow> gbind (glift (?reg c)) ?rest) s"
    using assms(1-3) bind_createD [OF assms(1)]
    by (auto simp: CreateConsent_def valid_create_def Let_def validateChain_iff [THEN iffD2])
  with assms(4) show ?thesis
    by (auto simp: handleError_def error_body_def elim!: gbind_cases
        split: sum.splits if_splits dest!: store_consent_status)
qed

text \<open>
  C27: What a creation is refused for. A creation is answered 400 exactly when its body is missing or
  not the JSON of a request, or the request has fewer than two parties, no scope, a duration of zero,
  no chain, a chain that is not one of the five and their aliases, or a party that is not a
  hexadecimal address; the state of the server is then as it was. A missing duration is a duration of
  zero and no default replaces it, and there is no Solana chain or address.
\<close>
theorem create_rejects:
  "(case rq_Body rq of None \<Rightarrow> True
    | Some j \<Rightarrow> (case json_Unmarshal set_create
          \<lparr> cr_Parties = [], cr_Scopes = [], cr_Duration = 0, cr_Chain = '''' \<rparr> j of
        None \<Rightarrow> True
      | Some req \<Rightarrow> length (cr_Parties req) < 2 \<or> cr_Scopes req = [] \<or> cr_Duration req = 0 \<or>
          cr_Chain req = '''' \<or> canon_chain (w_lib w) (cr_Chain req) = None \<or>
          \<not> list_all (IsHexAddress (w_lib w)) (cr_Parties req))) \<longleftrightarrow>
   (\<exists>b s'. CreateConsent h w rq s = (Inr (400, b), s') \<and> s' = s)"
  (is "?bad \<longleftrightarrow> ?refused")
proof (cases "bind_create (rq_Body rq)")
  case None
  then have ?bad
    by (auto simp: bind_create_def ShouldBindJSON_def valid_create_def Suc_le_eq split: option.splits if_splits)
  moreover have ?refused using None by (simp add: CreateConsent_def handleError_def error_body_def)
  ultimately show ?thesis by blast
next
  case (Some req)
  then have v: "valid_create req" by (rule bind_createD)
  have b: "?bad \<longleftrightarrow> canon_chain (w_lib w) (cr_Chain req) = None \<or> bad_party (w_lib w) 0 (cr_Parties req) \<noteq> None"
    using Some v unfolding bad_party_None bind_create_def ShouldBindJSON_def
    by (auto simp: valid_create_def split: option.splits if_splits)
  show ?thesis
  proof (cases "canon_chain (w_lib w) (cr_Chain req) = None \<or> bad_party (w_lib w) 0 (cr_Parties req) \<noteq> None")
    case True
    with Some v have ?refused
      by (auto simp: CreateConsent_def handleError_def error_body_def valid_create_def validateChain_def
          supported_iff split: option.splits)
    with True b show ?thesis by blast
  next
    case False
    then have "\<not> ?refused" using create_checked [OF Some] by fastforce
    with False b show ?thesis by blast
  qed
qed

theorem create_rejects_witness:
  "\<exists>b. CreateConsent sample_handler (sample_world [] 1) (post_request ''''
       (JObj [(''parties'', JArr [JStr ''a'', JStr ''b'']), (''scopes'', JArr [JStr ''photo'']), (''chain'', JStr ''sepolia'')]))
     sample_state = (Inr (400, b), sample_state)"
proof -
  let ?j = "JObj [(''parties'', JArr [JStr ''a'', JStr ''b'']), (''scopes'', JArr [JStr ''photo'']),
      (''chain'', JStr ''sepolia'')]"
  have "json_Unmarshal set_create \<lparr> cr_Parties = [], cr_Scopes = [], cr_Duration = 0, cr_Chain = '''' \<rparr> ?j =
      Some \<lparr> cr_Parties = [''a'', ''b''], cr_Scopes = [''photo''], cr_Duration = 0, cr_Chain = ''sepolia'' \<rparr>"
    by (simp add: set_create_def names_field_def ascii_lower_def)
  with create_rejects [where rq = "post_request '''' ?j" and w = "sample_world [] 1" and h = sample_handler
      and s = sample_state] show ?thesis
    by simp
qed

section \<open>Verifying\<close>

lemma verify_on_chain_cases:
  assumes "verify_on_chain h w req s = (Inr (200, VerifyBody v), s')" "vp_Valid v"
  obtains conn addr x s1 where
    "getContractClient (w_lib w) (w_net w) (h_cfg h) (vr_Chain req) s = (Inr (Inr (NewClient conn (vr_Chain req) addr)), s1)"
    "VerifyConsentOnChain (w_lib w) (w_net w) (NewClient conn (vr_Chain req) addr)
       (HexToHash (w_lib w) (vr_ConsentID req)) = Inr (True, x)"
    "w_unix w \<le> i64_of_u64 (big_Uint64 x)" "vp_ExpiresAt v = big_Uint64 x"
    "\<exists>c r'. GetCachedConsent (h_redis h) (vr_Chain req) (vr_ConsentID req) (as_redis s) = (Inr c, r') \<and>
       (case c of Inr (Some hit) \<Rightarrow> \<not> cc_Revoked hit | _ \<Rightarrow> True)"
proof -
  obtain cl s1 where g: "getContractClient (w_lib w) (w_net w) (h_cfg h) (vr_Chain req) s = (Inr cl, s1)"
    and red: "as_redis s1 = as_redis s"
    using getContractClient_frame [of "w_lib w" "w_net w" "h_cfg h" "vr_Chain req" s]
    by (metis api_state.select_convs(3) api_state.surjective api_state.update_convs(1) prod.collapse)
  show ?thesis
  proof (cases cl)
    case (Inl e)
    with g assms(1) show ?thesis
      by (simp add: verify_on_chain_def handleError_def error_body_def)
  next
    case (Inr c)
    have "\<exists>conn addr. c = NewClient conn (vr_Chain req) addr"
      using g Inr by (auto simp: getContractClient_def gbind_def split: prod.splits sum.splits)
    then obtain conn addr where c: "c = NewClient conn (vr_Chain req) addr" by blast
    let ?r = "VerifyConsentOnChain (w_lib w) (w_net w) c (HexToHash (w_lib w) (vr_ConsentID req))"
    obtain b x where r: "?r = Inr (b, x)"
      using g Inr assms(1)
      by (cases ?r) (auto simp: verify_on_chain_def handleError_def error_body_def)
    have live: "b" "\<not> i64_of_u64 (big_Uint64 x) < w_unix w"
      using g Inr r assms by (auto simp: verify_on_chain_def Let_def expires_Uint64_def verify_body_def split: if_splits)
    obtain y r' where y: "GetCachedConsent (h_redis h) (vr_Chain req) (vr_ConsentID req) (as_redis s) = (y, r')"
      by force
    with g Inr r live red assms obtain cc where "y = Inr cc"
      "(case cc of Inr (Some hit) \<Rightarrow> \<not> cc_Revoked hit | _ \<Rightarrow> True)" "vp_ExpiresAt v = big_Uint64 x"
      by (cases y) (auto simp: verify_on_chain_def Let_def expires_Uint64_def verify_body_def gbind_def
          on_redis_def gzoom_def)
    with y g Inr c r live that show ?thesis by auto
  qed
qed

text \<open>
  C3: A positive on-chain verification is backed by the contract and the clock, and by the cache when
  it can be read: if a server with a Redis client answers a request without a proof valid, then the contract answered yes for
  that id on that chain, the server's clock has not passed the expiry it gave (read as a signed
  64-bit number, which is also the expiry in the answer), and either the lookup in the cache reported
  an error, which the code drops, or Redis holds no revoked document of the consent. The answer says
  nothing of which of the two it was: verification fails open.
\<close>
theorem verified_on_chain:
  assumes "VerifyConsent h w rq s = (Inr (200, VerifyBody v), s')" "vp_Valid v"
    and "bind_verify (rq_Body rq) = Some req" "vr_Proof req = ''''"
    and "h_redis h = Some srv" "redis_ok srv view"
  shows "\<exists>conn addr x.
    VerifyConsentOnChain (w_lib w) (w_net w) (NewClient conn (vr_Chain req) addr)
      (HexToHash (w_lib w) (rq_Param rq ''id'')) = Inr (True, x) \<and>
    w_unix w \<le> i64_of_u64 (big_Uint64 x) \<and> vp_ExpiresAt v = big_Uint64 x \<and>
    ((\<exists>e r'. GetCachedConsent (Some srv) (vr_Chain req) (rq_Param rq ''id'') (as_redis s) = (Inr (Inl e), r')) \<or>
     (\<forall>d. cached view (as_redis s) (vr_Chain req) (rq_Param rq ''id'') = Some d \<longrightarrow> \<not> cc_Revoked d))"
proof -
  let ?req = "req\<lparr>vr_ConsentID := rq_Param rq ''id''\<rparr>"
  have "verify_on_chain h w ?req s = (Inr (200, VerifyBody v), s')"
    using assms(1,3,4)
    by (auto simp: VerifyConsent_def Let_def handleError_def error_body_def split: if_splits option.splits)
  then obtain conn addr x c r' where
    x: "VerifyConsentOnChain (w_lib w) (w_net w) (NewClient conn (vr_Chain req) addr)
       (HexToHash (w_lib w) (rq_Param rq ''id'')) = Inr (True, x)"
    "w_unix w \<le> i64_of_u64 (big_Uint64 x)" "vp_ExpiresAt v = big_Uint64 x"
    and c: "GetCachedConsent (Some srv) (vr_Chain req) (rq_Param rq ''id'') (as_redis s) = (Inr c, r')"
       "(case c of Inr (Some hit) \<Rightarrow> \<not> cc_Revoked hit | _ \<Rightarrow> True)"
    using assms(2,5) by (elim verify_on_chain_cases) auto
  show ?thesis
  proof (cases c)
    case (Inl e)
    with x c(1) show ?thesis by blast
  next
    case (Inr w)
    then have "w = cached view (as_redis s) (vr_Chain req) (rq_Param rq ''id'')"
      using redis_store.get_found [OF assms(6)] c(1) by simp
    with Inr c(2) have "\<forall>d. cached view (as_redis s) (vr_Chain req) (rq_Param rq ''id'') = Some d \<longrightarrow> \<not> cc_Revoked d"
      by (auto split: option.splits)
    with x show ?thesis by blast
  qed
qed

text \<open>A contract's answer: valid until 1000.\<close>

definition yes_until_1000 :: bytes where
  "yes_until_1000 = be_bytes 32 1 @ be_bytes 32 1000"

definition sample_verify_json :: "string \<Rightarrow> json" where
  "sample_verify_json proof = JObj [(''consent_id'', JStr ''x''), (''chain'', JStr ''sepolia''), (''proof'', JStr proof)]"

lemma sample_verify_bound:
  "bind_verify (Some (sample_verify_json p)) =
     Some \<lparr> vr_ConsentID = ''x'', vr_Chain = ''sepolia'', vr_Proof = p, vr_ProofType = '''' \<rparr>"
  by (simp add: bind_verify_def ShouldBindJSON_def sample_verify_json_def set_verify_def names_field_def
      ascii_lower_def valid_verify_def)

lemma sample_answer:
  "VerifyConsentOnChain sample_lib (sample_net yes_until_1000) c i = Inr (True, 1000)"
  by (simp add: VerifyConsentOnChain_def encodeVerifyConsent_def sample_net_def yes_until_1000_def
      decodeVerificationResult_def big_SetBytes_be_bytes)

lemma sample_client:
  assumes "as_clients s = Map.empty"
  shows "getContractClient sample_lib (sample_net a) sample_cfg ''sepolia'' s =
    (Inr (Inr (NewClient 1 ''sepolia'' (HexToAddress sample_lib ''0x01''))), s\<lparr>as_clients := [''sepolia'' \<mapsto> 1]\<rparr>)"
proof -
  have "GetClient sample_lib (Chains sample_cfg) (sample_net a) ''sepolia'' Map.empty = (Inr (Inr 1), [''sepolia'' \<mapsto> 1])"
    using sample_create_ready(2) by (intro GetClient_dial) (simp_all add: sample_net_def)
  with sample_ready(1) [OF assms, of a] assms show ?thesis
    by (simp add: getContractClient_def on_clients_apply gbind_def chain_ready_def)
qed

lemma sample_verify_run:
  "VerifyConsent sample_handler (sample_world yes_until_1000 999) (post_request ''x'' (sample_verify_json ''''))
     sample_state =
   (Inr (200, VerifyBody \<lparr> vp_Valid = True, vp_ExpiresAt = 1000, vp_VerifiedBy = ''on-chain'' \<rparr>),
    sample_state\<lparr>as_clients := [''sepolia'' \<mapsto> 1]\<rparr>)"
proof -
  have e: "as_clients sample_state = Map.empty" "as_redis sample_state = Map.empty"
    by (simp_all add: sample_state_def RegisterRoutes_def)
  have v: "validateChain sample_lib sample_cfg ''sepolia'' = None"
    by (simp add: validateChain_iff sample_create_ready(2))
  have g: "GetCachedConsent (Some sample_redis) ''sepolia'' ''x'' Map.empty = (Inr (Inr None), Map.empty)"
    by (simp add: GetCachedConsent_def sample_redis_def)
  have u: "big_Uint64 1000 = 1000" by (simp add: big_Uint64_def)
  show ?thesis
    using sample_client [OF e(1), of yes_until_1000] g
    by (simp add: VerifyConsent_def sample_verify_bound v verify_on_chain_def sample_answer gbind_def
        on_redis_def gzoom_def e expires_Uint64_def verify_body_def u)
qed

theorem verified_on_chain_witness:
  "\<exists>x. 999 \<le> i64_of_u64 (big_Uint64 x) \<and> big_Uint64 x = 1000"
  using verified_on_chain [OF sample_verify_run _ _ _ _ sample_redis_ok]
  by (auto simp: sample_verify_bound)

end
