(* ===== verification/Provenance.thy ===== *)
theory Provenance
  imports Consent_Results
begin

text \<open>
  Where cached documents come from. A computation of the API adds only documents of a given kind to
  the cache, each under its own chain and id: the creations and the contract's records that a request
  with valid credentials asked for. And what \<^verbatim>\<open>GetConsent\<close> answers is such a document.
\<close>

section \<open>A cache that loses, but does not invent\<close>

text \<open>
  What Redis promises of the values it holds, of commands that fail as well: a key holds what it held,
  or the value of this command if it is this command's key, or nothing any more (a document expires).
  A \<^verbatim>\<open>GET\<close> answers with what the key held.
\<close>

definition redis_holds :: "'r redis_srv \<Rightarrow> ('r \<Rightarrow> string \<rightharpoonup> rval) \<Rightarrow> bool" where
  "redis_holds srv view \<longleftrightarrow>
     (\<forall>k v t r k' u. view (snd (rd_Set srv k v t r)) k' = Some u \<longrightarrow> view r k' = Some u \<or> k' = k \<and> u = v) \<and>
     (\<forall>k r k' u. view (snd (rd_Get srv k r)) k' = Some u \<longrightarrow> view r k' = Some u) \<and>
     (\<forall>k r u. fst (rd_Get srv k r) = Inr (Some u) \<longrightarrow> view r k = Some u) \<and>
     (\<forall>k r k' u. view (snd (rd_Del srv k r)) k' = Some u \<longrightarrow> view r k' = Some u)"

lemma redis_holdsD:
  assumes "redis_holds srv view"
  shows "rd_Set srv k v t r = (x, r') \<Longrightarrow> view r' k' = Some u \<Longrightarrow> view r k' = Some u \<or> k' = k \<and> u = v"
    and "rd_Get srv k r = (y, r') \<Longrightarrow> view r' k' = Some u \<Longrightarrow> view r k' = Some u"
    and "rd_Get srv k r = (Inr (Some u), r') \<Longrightarrow> view r k = Some u"
    and "rd_Del srv k r = (x, r') \<Longrightarrow> view r' k' = Some u \<Longrightarrow> view r k' = Some u"
  using assms unfolding redis_holds_def by (metis fst_conv snd_conv)+

lemma sample_redis_holds: "redis_holds sample_redis (\<lambda>r. r)"
  by (auto simp: redis_holds_def sample_redis_def split: if_splits)

text \<open>Everything new in \<open>r'\<close> is a document of kind \<open>P\<close>, filed under its own chain and id.\<close>

definition filed :: "(ConsentCache \<Rightarrow> bool) \<Rightarrow> string \<Rightarrow> rval \<Rightarrow> bool" where
  "filed P k v \<longleftrightarrow> (\<exists>d. P d \<and> k = cache_key (cc_Chain d) (cc_ConsentID d) \<and> v = RDoc (marshal_cache d))"

definition new_in ::
  "('r \<Rightarrow> string \<rightharpoonup> rval) \<Rightarrow> (ConsentCache \<Rightarrow> bool) \<Rightarrow> 'r \<Rightarrow> 'r \<Rightarrow> bool" where
  "new_in view P r r' \<longleftrightarrow> (\<forall>k v. view r' k = Some v \<longrightarrow> view r k = Some v \<or> filed P k v)"

lemma new_in_refl [simp]: "new_in view P r r"
  by (simp add: new_in_def)

lemma new_in_trans: "new_in view P r r1 \<Longrightarrow> new_in view P r1 r2 \<Longrightarrow> new_in view P r r2"
  by (auto simp: new_in_def)

lemma new_in_mono: "new_in view P r r' \<Longrightarrow> (\<And>d. P d \<Longrightarrow> Q d) \<Longrightarrow> new_in view Q r r'"
  unfolding new_in_def filed_def by blast

text \<open>If all that was in the cache is of kind \<open>P\<close>, all that is in it now is.\<close>

lemma new_in_all:
  assumes "new_in view P r r'" "\<And>k v. view r k = Some v \<Longrightarrow> filed P k v"
  shows "view r' k = Some v \<Longrightarrow> filed P k v"
  using assms by (auto simp: new_in_def)

lemma filed_mono: "filed P k v \<Longrightarrow> (\<And>d. P d \<Longrightarrow> Q d) \<Longrightarrow> filed Q k v"
  unfolding filed_def by blast

text \<open>The commands of the client.\<close>

lemma client_new_in:
  assumes "redis_holds srv view"
  shows "CacheConsent (Some srv) d t r = (x, r') \<Longrightarrow> P d \<Longrightarrow> new_in view P r r'"
    and "GetCachedConsent (Some srv) ch i r = (y, r') \<Longrightarrow> new_in view P r r'"
    and "InvalidateConsent (Some srv) ch i r = (x, r') \<Longrightarrow> new_in view P r r'"
  using redis_holdsD(1,2,4) [OF assms]
  by (fastforce simp: CacheConsent_def GetCachedConsent_def InvalidateConsent_def new_in_def filed_def Let_def
      split: prod.splits option.splits sum.splits)+

section \<open>Computations that add documents of a kind\<close>

definition adds ::
  "('r \<Rightarrow> string \<rightharpoonup> rval) \<Rightarrow> (ConsentCache \<Rightarrow> bool) \<Rightarrow> (('q, 'r) api_state, 'a) go \<Rightarrow> bool" where
  "adds view P m \<longleftrightarrow> (\<forall>s. new_in view P (as_redis s) (as_redis (snd (m s))))"

lemma addsD: "adds view P m \<Longrightarrow> m s = (r, s') \<Longrightarrow> new_in view P (as_redis s) (as_redis s')"
  unfolding adds_def by (metis snd_conv)

named_theorems adds_intros "computations that add documents of a kind to the cache"

lemma adds_pure [adds_intros]: "adds view P (gret x)" "adds view P (gpanic p)" "adds view P (glift r)"
  by (simp_all add: adds_def)

text \<open>What is bound may be used: a continuation runs on a result its computation gave.\<close>

lemma adds_gbind [adds_intros]:
  assumes "adds view P m" "\<And>x s s'. m s = (Inr x, s') \<Longrightarrow> adds view P (f x)"
  shows "adds view P (gbind m f)"
  unfolding adds_def
proof
  fix s
  obtain r s' where r: "gbind m f s = (r, s')" by force
  then show "new_in view P (as_redis s) (as_redis (snd (gbind m f s)))"
  proof (cases rule: gbind_cases)
    case (1 p)
    with r show ?thesis using addsD [OF assms(1)] by fastforce
  next
    case (2 x s1)
    from addsD [OF assms(1) 2(1)] addsD [OF assms(2) [OF 2(1)] 2(2)]
    show ?thesis by (simp add: r new_in_trans)
  qed
qed

lemma adds_elsewhere [adds_intros]: "adds view P (on_clients m)" "adds view P (on_qdrant m')"
  by (simp_all add: adds_def on_clients_def on_qdrant_def gzoom_def split_beta)

lemma adds_handleError [adds_intros]: "adds view P (handleError status msg err)"
  by (simp add: handleError_def adds_pure)

lemma adds_if [adds_intros]:
  "(b \<Longrightarrow> adds view P m) \<Longrightarrow> (\<not> b \<Longrightarrow> adds view P m') \<Longrightarrow> adds view P (if b then m else m')"
  by simp

lemma adds_option [adds_intros]:
  "(v = None \<Longrightarrow> adds view P m) \<Longrightarrow> (\<And>x. v = Some x \<Longrightarrow> adds view P (f x)) \<Longrightarrow>
    adds view P (case v of None \<Rightarrow> m | Some x \<Rightarrow> f x)"
  by (cases v) simp_all

lemma adds_sum [adds_intros]:
  "(\<And>x. v = Inl x \<Longrightarrow> adds view P (f x)) \<Longrightarrow> (\<And>x. v = Inr x \<Longrightarrow> adds view P (g x)) \<Longrightarrow>
    adds view P (case v of Inl x \<Rightarrow> f x | Inr x \<Rightarrow> g x)"
  by (cases v) simp_all

lemma adds_prod [adds_intros]:
  "(\<And>x y. v = (x, y) \<Longrightarrow> adds view P (f x y)) \<Longrightarrow> adds view P (case v of (x, y) \<Rightarrow> f x y)"
  by (cases v) simp

lemma adds_getContractClient [adds_intros]: "adds view P (getContractClient L net cfg chain)"
  unfolding getContractClient_def by (intro adds_intros)

lemma adds_on_redis:
  assumes "\<And>r x r'. m r = (x, r') \<Longrightarrow> new_in view P r r'"
  shows "adds view P (on_redis m)"
proof -
  have "new_in view P r (snd (m r))" for r
    using assms [of r "fst (m r)" "snd (m r)"] by simp
  then show ?thesis by (simp add: adds_def on_redis_def gzoom_def split_beta)
qed

lemma adds_redis:
  assumes "redis_holds srv view"
  shows "P d \<Longrightarrow> adds view P (on_redis (CacheConsent (Some srv) d t))"
    and "adds view P (on_redis (GetCachedConsent (Some srv) ch i))"
    and "adds view P (on_redis (InvalidateConsent (Some srv) ch i))"
  subgoal by (rule adds_on_redis) (rule client_new_in(1) [OF assms])
  subgoal by (rule adds_on_redis) (rule client_new_in(2) [OF assms])
  subgoal by (rule adds_on_redis) (rule client_new_in(3) [OF assms])
  done

lemma adds_mono: "adds view P m \<Longrightarrow> (\<And>d. P d \<Longrightarrow> Q d) \<Longrightarrow> adds view Q m"
  unfolding adds_def by (intro allI, rule new_in_mono [of view P]) simp_all


section \<open>The documents an endpoint adds\<close>

text \<open>The document of a creation that was asked for, with the hash of the transaction prepared for it.\<close>

definition asked_to_create ::
  "('q, 'r) Handler \<Rightarrow> world \<Rightarrow> request \<Rightarrow> ConsentCache \<Rightarrow> bool" where
  "asked_to_create h w rq d \<longleftrightarrow>
     (\<exists>req txHash. bind_create (rq_Body rq) = Some req \<and> canon_chain (w_lib w) (cr_Chain req) \<noteq> None \<and>
        d = created_cache w req txHash)"

text \<open>The document of a record that the chain's registry returned for the id that was asked for.\<close>

definition asked_chain :: "request \<Rightarrow> string" where
  "asked_chain rq = (if rq_Query rq ''chain'' = '''' then ''sepolia'' else rq_Query rq ''chain'')"

definition record_document :: "world \<Rightarrow> string \<Rightarrow> string \<Rightarrow> ConsentData \<Rightarrow> int \<Rightarrow> int \<Rightarrow> ConsentCache" where
  "record_document w chain ident data validFrom validUntil =
     createConsentCache ident chain '''' (addressesToStrings (w_lib w) (cd_Parties data))
       (map (\<lambda>s. trim_right_nul (string_of_bytes s)) (cd_Scopes data))
       (big_Uint64 validFrom) (big_Uint64 validUntil) (big_Uint64 validFrom) (cd_Revoked data)"

definition read_from_contract ::
  "('q, 'r) Handler \<Rightarrow> world \<Rightarrow> request \<Rightarrow> ConsentCache \<Rightarrow> bool" where
  "read_from_contract h w rq d \<longleftrightarrow>
     (\<exists>conn addr data validFrom validUntil.
        GetRegistryAddress (w_lib w) (Chains (h_cfg h)) (asked_chain rq) = Inr addr \<and>
        GetConsent (w_lib w) (w_net w) (NewClient conn (asked_chain rq) addr)
          (HexToHash (w_lib w) (rq_Param rq ''id'')) = Inr (Inr data) \<and>
        cd_Exists data \<and> cd_ValidFrom data = Some validFrom \<and> cd_ValidUntil data = Some validUntil \<and>
        d = record_document w (asked_chain rq) (rq_Param rq ''id'') data validFrom validUntil)"

fun endpoint_makes ::
  "('q, 'r) Handler \<Rightarrow> world \<Rightarrow> endpoint \<Rightarrow> request \<Rightarrow> ConsentCache \<Rightarrow> bool" where
  "endpoint_makes h w E_CreateConsent rq d = asked_to_create h w rq d"
| "endpoint_makes h w E_GetConsent rq d = read_from_contract h w rq d"
| "endpoint_makes h w _ rq d = False"

lemma contract_client_made:
  assumes "getContractClient L net cfg chain s = (Inr (Inr cli), s')"
  shows "\<exists>conn addr. cli = NewClient conn chain addr \<and> GetRegistryAddress L (Chains cfg) chain = Inr addr"
  using assms
  by (auto simp: getContractClient_def elim!: gbind_cases split: sum.splits)

lemma store_consent_adds:
  assumes "redis_holds srv view" "h_redis h = Some srv" "bind_create (rq_Body rq) = Some req"
    and "canon_chain (w_lib w) (cr_Chain req) \<noteq> None"
  shows "adds view (asked_to_create h w rq)
    (store_consent h w req (generateConsentID w (cr_Parties req) (cr_Scopes req)) txHash)"
proof -
  have "asked_to_create h w rq (created_cache w req txHash)"
    unfolding asked_to_create_def using assms(3,4) by blast
  then show ?thesis
    unfolding store_consent_def Let_def assms(2)
    by (intro adds_intros adds_redis [OF assms(1)]) (simp add: created_cache_def Let_def)
qed

lemma CreateConsent_adds:
  assumes "redis_holds srv view" "h_redis h = Some srv"
  shows "adds view (asked_to_create h w rq) (CreateConsent h w rq)"
  unfolding CreateConsent_def Let_def
  by (intro adds_intros store_consent_adds [OF assms]) (simp_all add: validateChain_iff)

lemma fetched_consent_adds:
  assumes "redis_holds srv view" "h_redis h = Some srv"
    and "getContractClient (w_lib w) (w_net w) (h_cfg h) (asked_chain rq) s = (Inr (Inr cli), s')"
    and "GetConsent (w_lib w) (w_net w) cli (HexToHash (w_lib w) (rq_Param rq ''id'')) = Inr (Inr data)"
    and "cd_Exists data"
  shows "adds view (read_from_contract h w rq) (fetched_consent h w (asked_chain rq) (rq_Param rq ''id'') data)"
proof -
  have "read_from_contract h w rq (record_document w (asked_chain rq) (rq_Param rq ''id'') data vf vu)"
    if "cd_ValidFrom data = Some vf" "cd_ValidUntil data = Some vu" for vf vu
    using contract_client_made [OF assms(3)] assms(4,5) that unfolding read_from_contract_def by blast
  then show ?thesis
    unfolding fetched_consent_def deref_Uint64_def Let_def assms(2) record_document_def
    by (intro adds_intros adds_redis [OF assms(1)]) (auto split: option.splits)
qed


lemma GetConsent_adds:
  assumes "redis_holds srv view" "h_redis h = Some srv"
  shows "adds view (read_from_contract h w rq) (GetConsent_handler h w rq)"
  unfolding GetConsent_handler_def Let_def assms(2) asked_chain_def [symmetric]
  by (intro adds_intros adds_redis [OF assms(1)]) (auto intro: fetched_consent_adds [OF assms])

lemma other_endpoints_add:
  assumes "redis_holds srv view" "h_redis h = Some srv"
  shows "adds view (\<lambda>d. False) (VerifyConsent h w rq)" "adds view (\<lambda>d. False) (RevokeConsent_handler h w rq)"
    "adds view (\<lambda>d. False) (GenerateProof h w rq)" "adds view (\<lambda>d. False) (GetPartyConsents h w rq)"
    "adds view (\<lambda>d. False) (SearchConsents h w rq)" "adds view (\<lambda>d. False) (GetChains h w rq)"
    "adds view (\<lambda>d. False) (GetChainStatus_handler h w rq)"
  unfolding VerifyConsent_def verify_with_proof_def verify_on_chain_def RevokeConsent_handler_def
    revoke_stored_def GenerateProof_def GetPartyConsents_def SearchConsents_def GetChains_def
    GetChainStatus_handler_def Let_def assms(2)
  by (intro adds_intros adds_redis [OF assms(1)])+

lemma as_redis_set_key [simp]: "as_redis (set_key k v s) = as_redis s"
  by (simp add: set_key_def)

lemma ChainMiddleware_adds [adds_intros]:
  assumes "adds view P m"
  shows "adds view P (ChainMiddleware rq m)"
proof -
  have "new_in view P (as_redis s) (as_redis (snd (m (set_key k v s))))" for k v s
    using assms [unfolded adds_def, rule_format, of "set_key k v s"] by simp
  with assms show ?thesis by (simp add: adds_def ChainMiddleware_def Let_def)
qed

lemma endpoint_makes_eq:
  "endpoint_makes h w e rq = (case e of E_CreateConsent \<Rightarrow> asked_to_create h w rq
     | E_GetConsent \<Rightarrow> read_from_contract h w rq | _ \<Rightarrow> \<lambda>d. False)"
  by (rule ext) (cases e; simp)

lemma run_endpoint_adds:
  assumes "redis_holds srv view" "h_redis h = Some srv"
  shows "adds view (endpoint_makes h w e rq) (run_endpoint h w e rq)"
  using CreateConsent_adds [OF assms, of w rq] GetConsent_adds [OF assms, of w rq]
  by (cases e) (simp_all add: run_endpoint_def endpoint_makes_eq ChainMiddleware_adds other_endpoints_add [OF assms])

section \<open>What a request adds\<close>

definition authenticates :: "jwt_parser \<Rightarrow> Config \<Rightarrow> request \<Rightarrow> bool" where
  "authenticates jwt cfg rq \<longleftrightarrow> presents_key cfg rq \<or> presents_jwt jwt cfg rq"

text \<open>The documents a request makes: it carries valid credentials and names the endpoint.\<close>

definition request_makes ::
  "jwt_parser \<Rightarrow> router \<Rightarrow> ('q, 'r) Handler \<Rightarrow> world \<Rightarrow> request \<Rightarrow> ConsentCache \<Rightarrow> bool" where
  "request_makes jwt R h w rq d \<longleftrightarrow> authenticates jwt (h_cfg h) rq \<and>
     (\<exists>e params. find_route R rq api_routes = Some (e, params) \<and>
        endpoint_makes h w e (rq\<lparr>rq_Param := params\<rparr>) d)"

lemma from_same_redis: "m s1 = (x, s') \<Longrightarrow> as_redis s1 = as_redis s \<Longrightarrow> \<exists>s1. as_redis s1 = as_redis s \<and> m s1 = (x, s')"
  by blast

lemma Auth_passes:
  assumes "authenticates jwt cfg rq" "AuthMiddleware jwt cfg rq m s = (x, s')"
  shows "\<exists>s1. as_redis s1 = as_redis s \<and> m s1 = (x, s')"
  using assms
  by (auto simp: AuthMiddleware_def authenticates_def presents_key_def presents_jwt_def bearer_token_def
      unauthorized_def Let_def intro: from_same_redis split: sum.splits option.splits if_splits)

lemma api_group_adds:
  assumes "redis_holds srv view" "h_redis h = Some srv"
  shows "adds view (request_makes jwt R h w rq) (api_group jwt R h w rq)"
proof (cases "find_route R rq api_routes")
  case None
  then show ?thesis by (simp add: api_group_def adds_pure)
next
  case (Some ep)
  obtain e params where ep: "ep = (e, params)" by force
  let ?rq = "rq\<lparr>rq_Param := params\<rparr>"
  show ?thesis
    unfolding adds_def
  proof
    fix s
    obtain x s' where a: "AuthMiddleware jwt (h_cfg h) ?rq (run_endpoint h w e ?rq) s = (x, s')" by force
    have "new_in view (request_makes jwt R h w rq) (as_redis s) (as_redis s')"
    proof (cases "authenticates jwt (h_cfg h) ?rq")
      case True
      from Auth_passes [OF this a] obtain s1 where s1: "as_redis s1 = as_redis s" "run_endpoint h w e ?rq s1 = (x, s')"
        by blast
      have "authenticates jwt (h_cfg h) rq" using True by (simp add: authenticates_def)
      then have "request_makes jwt R h w rq d" if "endpoint_makes h w e ?rq d" for d
        using Some ep that unfolding request_makes_def by blast
      then show ?thesis
        using new_in_mono [OF addsD [OF run_endpoint_adds [OF assms] s1(2)]] s1(1) by simp
    next
      case False
      then have "\<not> presents_key (h_cfg h) ?rq" "\<not> presents_jwt jwt (h_cfg h) ?rq"
        by (simp_all add: authenticates_def)
      from Auth_refuses [OF this, of "run_endpoint h w e ?rq" s] a show ?thesis by auto
    qed
    with a Some ep show "new_in view (request_makes jwt R h w rq) (as_redis s)
        (as_redis (snd (api_group jwt R h w rq s)))"
      by (simp add: api_group_def Let_def)
  qed
qed

lemma RequestLogger_adds [adds_intros]: "adds view P m \<Longrightarrow> adds view P (RequestLogger rq m)"
  unfolding RequestLogger_def by (rule adds_gbind) (simp_all add: adds_def)

lemma Recovery_state: "snd (Recovery m s) = snd (m s)"
  by (simp add: Recovery_def split: prod.split sum.split)

lemma serve_adds:
  assumes "redis_holds srv view" "h_redis h = Some srv" "serve jwt R h w now rq s = (a, s')"
  shows "new_in view (request_makes jwt R h w rq) (as_redis s) (as_redis s')"
proof (cases rule: serve_cases [of rq jwt R h w now s])
  case preflight
  with assms(3) show ?thesis by auto
next
  case (limited s1)
  with assms(3) show ?thesis by (auto simp: stores_def)
next
  case passed
  let ?s0 = "s\<lparr>as_keys := Map.empty, as_headers := cors_headers,
    as_limiter := snd (Allow (rq_ClientIP rq) now (as_limiter s))\<rparr>"
  have "s' = snd (RequestLogger rq (api_group jwt R h w rq) ?s0)"
    using passed(3) assms(3) by (metis Recovery_state snd_conv)
  moreover have "adds view (request_makes jwt R h w rq) (RequestLogger rq (api_group jwt R h w rq))"
    by (intro adds_intros api_group_adds [OF assms(1,2)])
  then have "new_in view (request_makes jwt R h w rq) (as_redis ?s0)
      (as_redis (snd (RequestLogger rq (api_group jwt R h w rq) ?s0)))"
    unfolding adds_def by blast
  ultimately show ?thesis by simp
qed

section \<open>What a lookup answers\<close>

text \<open>The document a body was made of, as it is or as it comes back from the cache.\<close>

definition shows_document :: "ConsentResponse \<Rightarrow> ConsentCache \<Rightarrow> bool" where
  "shows_document b d \<longleftrightarrow> b = toConsentResponse d \<or> b = toConsentResponse (clean_cache d)"

text \<open>
  A lookup of the cache gives what is held under the key, and every answered consent is the held
  document or one the request itself read from the contract.
\<close>

lemma lookup_held:
  assumes "redis_holds srv view" "GetCachedConsent (Some srv) ch i r = (Inr (Inr (Some hit)), r')"
  shows "\<exists>v. view r (cache_key ch i) = Some v \<and> decode_cached v = Some hit"
proof -
  obtain v where "rd_Get srv (cache_key ch i) r = (Inr (Some v), r')" "decode_cached v = Some hit"
    using assms(2) by (auto simp: GetCachedConsent_def Let_def split: prod.splits sum.splits option.splits)
  with redis_holdsD(3) [OF assms(1)] show ?thesis by blast
qed

lemma fetched_consent_answer:
  assumes "fetched_consent h w chain ident data s = (Inr (200, ConsentBody b), s')"
  shows "\<exists>vf vu. cd_ValidFrom data = Some vf \<and> cd_ValidUntil data = Some vu \<and>
    b = toConsentResponse (record_document w chain ident data vf vu)"
  using assms
  by (auto simp: fetched_consent_def deref_Uint64_def Let_def record_document_def createConsentCache_def
      toConsentResponse_def elim!: gbind_cases split: option.splits)


lemma GetConsent_answer:
  assumes "redis_holds srv view" "h_redis h = Some srv"
    and "GetConsent_handler h w rq s = (Inr (200, ConsentBody b), s')"
  shows "canon_chain (w_lib w) (asked_chain rq) \<noteq> None \<and>
    ((\<exists>v hit. view (as_redis s) (cache_key (asked_chain rq) (rq_Param rq ''id'')) = Some v \<and>
        decode_cached v = Some hit \<and> b = toConsentResponse hit) \<or>
     (\<exists>d. read_from_contract h w rq d \<and> b = toConsentResponse d))"
proof -
  let ?ch = "asked_chain rq" and ?i = "rq_Param rq ''id''"
  let ?rest = "gbind (getContractClient (w_lib w) (w_net w) (h_cfg h) ?ch) (\<lambda>cl. case cl of
      Inl e \<Rightarrow> handleError 500 ''failed to get contract client'' e
    | Inr cli \<Rightarrow> gbind (glift (GetConsent (w_lib w) (w_net w) cli (HexToHash (w_lib w) ?i))) (\<lambda>r. case r of
        Inl e \<Rightarrow> handleError 500 ''failed to fetch consent from chain'' e
      | Inr d \<Rightarrow> if \<not> cd_Exists d then gret not_found else fetched_consent h w ?ch ?i d))"
  have v: "validateChain (w_lib w) (h_cfg h) ?ch = None"
    and run: "gbind (on_redis (GetCachedConsent (Some srv) ?ch ?i))
      (\<lambda>c. case c of Inr (Some hit) \<Rightarrow> gret (200, ConsentBody (toConsentResponse hit)) | _ \<Rightarrow> ?rest) s =
        (Inr (200, ConsentBody b), s')"
    using assms(2,3)
    by (auto simp: GetConsent_handler_def Let_def asked_chain_def [symmetric] handleError_def error_body_def
        split: if_splits option.splits)
  from run obtain c s1 where c: "on_redis (GetCachedConsent (Some srv) ?ch ?i) s = (Inr c, s1)"
    and rest: "(case c of Inr (Some hit) \<Rightarrow> gret (200, ConsentBody (toConsentResponse hit)) | _ \<Rightarrow> ?rest) s1 =
        (Inr (200, ConsentBody b), s')"
    by (auto elim!: gbind_cases)
  show ?thesis
  proof (cases "\<exists>hit. c = Inr (Some hit)")
    case True
    then obtain hit where hit: "c = Inr (Some hit)" by blast
    with rest have "b = toConsentResponse hit" by simp
    moreover from c hit obtain r1 where "GetCachedConsent (Some srv) ?ch ?i (as_redis s) = (Inr (Inr (Some hit)), r1)"
      by (auto elim: on_redis_cases)
    ultimately show ?thesis using lookup_held [OF assms(1)] v unfolding validateChain_iff by blast
  next
    case False
    with rest have "?rest s1 = (Inr (200, ConsentBody b), s')" by (auto split: sum.splits option.splits)
    then obtain cli s2 data where cli: "getContractClient (w_lib w) (w_net w) (h_cfg h) ?ch s1 = (Inr (Inr cli), s2)"
      and d: "GetConsent (w_lib w) (w_net w) cli (HexToHash (w_lib w) ?i) = Inr (Inr data)" "cd_Exists data"
      and f: "fetched_consent h w ?ch ?i data s2 = (Inr (200, ConsentBody b), s')"
      by (auto simp: handleError_def error_body_def not_found_def elim!: gbind_cases split: sum.splits if_splits)
    from fetched_consent_answer [OF f] obtain vf vu where "cd_ValidFrom data = Some vf" "cd_ValidUntil data = Some vu"
      "b = toConsentResponse (record_document w ?ch ?i data vf vu)" by blast
    with contract_client_made [OF cli] d show ?thesis
      using v unfolding read_from_contract_def validateChain_iff by blast
  qed
qed

text \<open>The same through the whole engine.\<close>

lemma serve_answer:
  assumes "redis_holds srv view" "h_redis h = Some srv"
    and "serve jwt R h w now rq s = ((200, ConsentBody b), s')"
    and "find_route R rq api_routes = Some (E_GetConsent, params)"
  shows "\<exists>s1 s2. as_redis s1 = as_redis s \<and> authenticates jwt (h_cfg h) rq \<and>
    GetConsent_handler h w (rq\<lparr>rq_Param := params\<rparr>) s1 = (Inr (200, ConsentBody b), s2)"
proof (cases rule: serve_cases [of rq jwt R h w now s])
  case passed
  let ?s0 = "s\<lparr>as_keys := Map.empty, as_headers := cors_headers,
    as_limiter := snd (Allow (rq_ClientIP rq) now (as_limiter s))\<rparr>"
  let ?rq = "rq\<lparr>rq_Param := params\<rparr>"
  have "Recovery (RequestLogger rq (api_group jwt R h w rq)) ?s0 = ((200, ConsentBody b), s')"
    using passed(3) assms(3) by simp
  then obtain s2 where a: "api_group jwt R h w rq ?s0 = (Inr (200, ConsentBody b), s2)"
    by (auto simp: Recovery_def RequestLogger_def elim!: gbind_cases split: prod.splits sum.splits)
  then have m: "AuthMiddleware jwt (h_cfg h) ?rq (GetConsent_handler h w ?rq) ?s0 = (Inr (200, ConsentBody b), s2)"
    using assms(4) by (simp add: api_group_def run_endpoint_def Let_def)
  have auth: "authenticates jwt (h_cfg h) ?rq"
  proof (rule ccontr)
    assume "\<not> authenticates jwt (h_cfg h) ?rq"
    then have "\<not> presents_key (h_cfg h) ?rq" "\<not> presents_jwt jwt (h_cfg h) ?rq"
      by (simp_all add: authenticates_def)
    from Auth_refuses [OF this, of "GetConsent_handler h w ?rq" ?s0] m show False
      by (auto simp: error_body_def)
  qed
  from Auth_passes [OF this m] obtain s1 where "as_redis s1 = as_redis ?s0"
    "GetConsent_handler h w ?rq s1 = (Inr (200, ConsentBody b), s2)" by blast
  with auth show ?thesis by (auto simp: authenticates_def)
qed (use assms(3) in \<open>auto simp: error_body_def\<close>)

end
