(* ===== verification/Indexer_Stores.thy ===== *)
theory Indexer_Stores
  imports Cache Index
begin

text \<open>
  The event indexer's own copies of the two store clients,
  \<^verbatim>\<open>backend/event-indexer/internal/redis/client.go\<close> and
  \<^verbatim>\<open>backend/event-indexer/internal/qdrant/client.go\<close>, written out from their own source. The
  document types repeat the API's field for field and are shared; every operation is compared with
  the API's, because the two services meet only in the stores.
\<close>

section \<open>Redis\<close>

definition ix_redis_NewClient ::
  "(string \<Rightarrow> goerr + redis_opts) \<Rightarrow> (redis_opts \<Rightarrow> goerr option) \<Rightarrow> RedisConfig \<Rightarrow> goerr + redis_opts"
where
  "ix_redis_NewClient parseURL ping cfg =
     (case parseURL (rc_URL cfg) of
        Inl e \<Rightarrow> Inl (''failed to parse Redis URL: '' @ e)
      | Inr opts0 \<Rightarrow>
          (let opts1 = (if rc_Password cfg \<noteq> '''' then opts0\<lparr>ro_Password := rc_Password cfg\<rparr> else opts0);
               opts = (if rc_DB cfg \<noteq> 0 then opts1\<lparr>ro_DB := rc_DB cfg\<rparr> else opts1)
           in case ping opts of
                Some e \<Rightarrow> Inl (''failed to connect to Redis: '' @ e)
              | None \<Rightarrow> Inr opts))"

definition ix_CacheConsent ::
  "'r redis_srv option \<Rightarrow> ConsentCache \<Rightarrow> int \<Rightarrow> ('r, goerr option) go" where
  "ix_CacheConsent c consent ttl r =
     (let data = marshal_cache consent;
          key = ''consent:'' @ cc_Chain consent @ '':'' @ cc_ConsentID consent
      in case c of
           None \<Rightarrow> (Inl NilDereference, r)
         | Some srv \<Rightarrow>
             (case rd_Set srv key (RDoc data) ttl r of
                (Some e, r') \<Rightarrow> (Inr (Some (''failed to cache consent in Redis: '' @ e)), r')
              | (None, r') \<Rightarrow> (Inr None, r')))"

definition ix_InvalidateConsent ::
  "'r redis_srv option \<Rightarrow> string \<Rightarrow> string \<Rightarrow> ('r, goerr option) go" where
  "ix_InvalidateConsent c chain consentID r =
     (let key = ''consent:'' @ chain @ '':'' @ consentID in
      case c of
        None \<Rightarrow> (Inl NilDereference, r)
      | Some srv \<Rightarrow>
          (case rd_Del srv key r of
             (Some e, r') \<Rightarrow> (Inr (Some (''failed to invalidate consent cache: '' @ e)), r')
           | (None, r') \<Rightarrow> (Inr None, r')))"

lemma ix_redis_same:
  "ix_redis_NewClient = redis_NewClient"
  "ix_CacheConsent = CacheConsent"
  "ix_InvalidateConsent = InvalidateConsent"
  by (intro ext; simp add: ix_redis_NewClient_def redis_NewClient_def ix_CacheConsent_def
      CacheConsent_def ix_InvalidateConsent_def InvalidateConsent_def cache_key_def Let_def)+

section \<open>Qdrant\<close>

type_synonym 'q ix_qdrant_client = "('q qdrant_srv \<times> IxQdrantConfig) option"

definition ix_authContext :: "IxQdrantConfig \<Rightarrow> ctx \<Rightarrow> ctx" where
  "ix_authContext cfg ctx =
     (if ixq_APIKey cfg \<noteq> '''' then ctx @ [(''api-key'', ixq_APIKey cfg)] else ctx)"

definition ix_stringListValue :: "string list \<Rightarrow> pb_value" where
  "ix_stringListValue items = ListValue (map StringValue items)"

definition ix_makePayload :: "ConsentDocument \<Rightarrow> payload" where
  "ix_makePayload doc =
     [''consent_id'' \<mapsto> StringValue (qd_ConsentID doc),
      ''parties'' \<mapsto> ix_stringListValue (qd_Parties doc),
      ''scopes'' \<mapsto> ix_stringListValue (qd_Scopes doc),
      ''valid_from'' \<mapsto> StringValue (show_nat (unat (qd_ValidFrom doc))),
      ''valid_until'' \<mapsto> StringValue (show_nat (unat (qd_ValidUntil doc))),
      ''revoked'' \<mapsto> BoolValue (qd_Revoked doc),
      ''chain'' \<mapsto> StringValue (qd_Chain doc),
      ''tx_hash'' \<mapsto> StringValue (qd_TxHash doc),
      ''created_at'' \<mapsto> StringValue (show_nat (unat (qd_CreatedAt doc)))]"

text \<open>\<^verbatim>\<open>NewClient\<close> dials and nothing more: the indexer never creates the collection.\<close>

definition ix_qdrant_NewClient ::
  "(string \<Rightarrow> goerr + 'q qdrant_srv) \<Rightarrow> IxQdrantConfig \<Rightarrow> goerr + 'q ix_qdrant_client" where
  "ix_qdrant_NewClient dial cfg =
     (case dial (ixq_URL cfg) of
        Inl e \<Rightarrow> Inl (''failed to connect to Qdrant: '' @ e)
      | Inr srv \<Rightarrow> Inr (Some (srv, cfg)))"

fun ix_set_revoked ::
  "'q qdrant_srv \<Rightarrow> ctx \<Rightarrow> string \<Rightarrow> bool \<Rightarrow> point_id list \<Rightarrow> 'q \<Rightarrow> goerr option \<times> 'q" where
  "ix_set_revoked srv ctx coll revoked [] q = (None, q)"
| "ix_set_revoked srv ctx coll revoked (i # ids) q =
     (case qd_SetPayload srv ctx coll [''revoked'' \<mapsto> BoolValue revoked] [i] q of
        (Some e, q1) \<Rightarrow> (Some (''failed to update consent payload: '' @ e), q1)
      | (None, q1) \<Rightarrow> ix_set_revoked srv ctx coll revoked ids q1)"

definition ix_UpdateConsentRevoked ::
  "'q ix_qdrant_client \<Rightarrow> ctx \<Rightarrow> string \<Rightarrow> bool \<Rightarrow> ('q, goerr option) go" where
  "ix_UpdateConsentRevoked c ctx0 consentID revoked q =
     (case c of
        None \<Rightarrow> (Inl NilDereference, q)
      | Some (srv, cfg) \<Rightarrow>
          (let ctx = ix_authContext cfg ctx0 in
           case qd_Scroll srv ctx (ixq_CollectionName cfg) [MatchText ''consent_id'' consentID] 100 q of
             (Inl e, q1) \<Rightarrow> (Inr (Some (''failed to scroll points: '' @ e)), q1)
           | (Inr points, q1) \<Rightarrow>
               (case ix_set_revoked srv ctx (ixq_CollectionName cfg) revoked points q1 of
                  (x, q2) \<Rightarrow> (Inr x, q2))))"

definition ix_IndexConsent ::
  "'q ix_qdrant_client \<Rightarrow> ctx \<Rightarrow> point_id \<Rightarrow> ConsentDocument \<Rightarrow> ('q, goerr option) go" where
  "ix_IndexConsent c ctx pointID doc q =
     (case c of
        None \<Rightarrow> (Inl NilDereference, q)
      | Some (srv, cfg) \<Rightarrow>
          (case qd_Upsert srv (ix_authContext cfg ctx) (ixq_CollectionName cfg)
                  [\<lparr> pt_Id = pointID, pt_Payload = ix_makePayload doc, pt_Vector = qd_Embedding doc \<rparr>] q of
             (Some e, q1) \<Rightarrow> (Inr (Some (''failed to index consent in Qdrant: '' @ e)), q1)
           | (None, q1) \<Rightarrow> (Inr None, q1)))"

section \<open>Agreement with the API's client\<close>

text \<open>The API's configuration an indexer's configuration stands for.\<close>

definition as_api_config :: "IxQdrantConfig \<Rightarrow> QdrantConfig" where
  "as_api_config cfg =
     \<lparr> qc_URL = ixq_URL cfg, qc_APIKey = ixq_APIKey cfg, qc_CollectionName = ixq_CollectionName cfg,
       qc_VectorSize = ixq_VectorSize cfg, qc_ReplicationFactor = 0, qc_CloudMode = ixq_CloudMode cfg,
       qc_ReadTimeout = ixq_ReadTimeout cfg, qc_WriteTimeout = ixq_WriteTimeout cfg \<rparr>"

lemma as_api_config_Load: "as_api_config (ix_Qdrant (ix_Load env)) = Qdrant (Load env)"
  by (simp add: as_api_config_def ix_Load_def Load_def)

lemma ix_makePayload_same: "ix_makePayload = makePayload"
  by (rule ext) (simp add: ix_makePayload_def makePayload_def ix_stringListValue_def stringListValue_def)

lemma ix_authContext_same: "ix_authContext cfg = authContext (as_api_config cfg)"
  by (rule ext) (simp add: ix_authContext_def authContext_def as_api_config_def)

lemma ix_set_revoked_same: "ix_set_revoked srv ctx coll b ids q = set_revoked srv ctx coll b ids q"
  by (induction ids arbitrary: q) (auto split: prod.splits option.splits)

lemma ix_IndexConsent_same:
  "ix_IndexConsent (Some (srv, cfg)) = IndexConsent (Some (srv, as_api_config cfg))"
  by (intro ext) (simp add: ix_IndexConsent_def IndexConsent_def ix_makePayload_same
      ix_authContext_same, simp add: as_api_config_def)

lemma ix_nil_index [simp]: "ix_UpdateConsentRevoked None ctx s b q = (Inl NilDereference, q)"
  by (simp add: ix_UpdateConsentRevoked_def)

text \<open>
  The API looks a revoked consent up with a context that already carries its key, so the key is sent
  twice; the indexer sends it once. Without a key the two are the same function.
\<close>

lemma ix_UpdateConsentRevoked_same:
  assumes "ixq_APIKey cfg = ''''"
  shows "ix_UpdateConsentRevoked (Some (srv, cfg)) ctx i b q =
    UpdateConsentRevoked (Some (srv, as_api_config cfg)) ctx i b q"
proof -
  have k: "qc_APIKey (as_api_config cfg) = ''''" "qc_CollectionName (as_api_config cfg) = ixq_CollectionName cfg"
    using assms by (simp_all add: as_api_config_def)
  then have a: "authContext (as_api_config cfg) c = c" for c by (simp add: authContext_def)
  show ?thesis
    by (simp add: ix_UpdateConsentRevoked_def UpdateConsentRevoked_def findByConsentID_def Let_def
        ix_authContext_same a k ix_set_revoked_same split: prod.splits sum.splits)
qed

section \<open>The interfaces, met by the indexer\<close>

interpretation ix_redis_store: consent_writer "ix_CacheConsent (Some srv)" "ix_InvalidateConsent (Some srv)"
  "cached view" clean_cache keys_apart "redis_ok srv view"
  for srv view
  unfolding ix_redis_same by (rule redis_store.consent_writer_axioms)

interpretation ix_revoker: revoker "ix_UpdateConsentRevoked (Some (srv, cfg))" srv "ixq_CollectionName cfg"
  for srv cfg
  by unfold_locales
    (auto simp: ix_UpdateConsentRevoked_def Let_def ix_set_revoked_same split: prod.splits sum.splits)

end
