(* ===== verification/Indexer.thy ===== *)
theory Indexer
  imports Indexer_Stores Abi_Layout
begin

text \<open>
  The event indexer, \<^verbatim>\<open>backend/event-indexer/cmd/main.go\<close>: one listener per configured chain polls
  its node for new blocks, asks for the logs of the registry contract in batches and hands each log
  to the shared handler, which caches registrations and marks revocations. Log output is left out.
\<close>

section \<open>Counting in 64 bits\<close>

lemma unat_add_u64: "unat (a :: u64) + unat b < 2 ^ 64 \<Longrightarrow> unat (a + b) = unat a + unat b"
  by (subst unat_word_ariths(1)) simp

lemma unat_next: "(i :: u64) < n \<Longrightarrow> unat (i + 1) = Suc (unat i)"
proof -
  assume "i < n"
  then have "unat i < unat n" by (simp add: word_less_nat_alt)
  moreover have "unat n < 2 ^ 64" by simp
  ultimately have "unat i + unat (1 :: u64) < 2 ^ 64"
    by (simp only: unat_1)
  then show ?thesis by (simp only: unat_add_u64) simp
qed

section \<open>Logs and handler\<close>

record eth_log =
  lg_Topics :: "hash list"
  lg_Data :: bytes
  lg_BlockNumber :: u64
  lg_TxHash :: hash

record ('q, 'r) EventHandler =
  eh_cfg :: IxConfig
  eh_qdrant :: "'q ix_qdrant_client"
  eh_redis :: "'r redis_srv option"

definition registered_signature :: string where
  "registered_signature = ''ConsentRegistered(bytes32,address[],bytes32[],uint256,uint256)''"

definition revoked_signature :: string where
  "revoked_signature = ''ConsentRevoked(bytes32)''"

text \<open>
  The element loops of a registration: the slots of an array that lie inside the data are appended,
  the others skipped. All arithmetic is on \<^verbatim>\<open>uint64\<close>, and \<^verbatim>\<open>int(start+32)\<close> reads the sum as signed.
\<close>

function event_slots :: "bytes \<Rightarrow> u64 \<Rightarrow> u64 \<Rightarrow> u64 \<Rightarrow> u64 \<Rightarrow> bytes list res" where
  "event_slots data off skip cnt i =
     (if i < cnt then
        (let start = off + 32 + i * 32 in
         if i64_of_u64 (start + 32) \<le> int (length data) then
           rbind (slice (unat (start + skip)) (unat (start + 32)) data) (\<lambda>b.
           rbind (event_slots data off skip cnt (i + 1)) (\<lambda>bs. Inr (b # bs)))
         else event_slots data off skip cnt (i + 1))
      else Inr [])"
  by pat_completeness auto
termination
  by (relation "measure (\<lambda>(data, off, skip, cnt, i). unat cnt - unat i)")
    (auto simp: unat_next word_less_nat_alt intro!: diff_less_mono2)

declare event_slots.simps [simp del]

definition event_array :: "bytes \<Rightarrow> u64 \<Rightarrow> u64 \<Rightarrow> bytes list res" where
  "event_array data skip off =
     (if i64_of_u64 (off + 32) \<le> int (length data) then
        rbind (slice (unat off) (unat (off + 32)) data) (\<lambda>w.
          event_slots data off skip (big_Uint64 (big_SetBytes w)) 0)
      else Inr [])"

definition hours24 :: int where
  "hours24 = 24 * 3600 * Second"

text \<open>
  The document a registration log is turned into; \<open>None\<close> when the data is too short. \<open>parse_event\<close>
  is the part of the handler that reads the data, and can panic; a slice that the length check
  covers is written with \<^const>\<open>take\<close> and \<^const>\<open>drop\<close>.
\<close>

definition parse_event :: "lib \<Rightarrow> string \<Rightarrow> eth_log \<Rightarrow> ConsentCache res" where
  "parse_event L chain vLog =
     (let data = lg_Data vLog;
          consentID = BytesToHash L (take 32 data);
          partyOffset = big_Uint64 (big_SetBytes (take 32 (drop 32 data)));
          scopeOffset = big_Uint64 (big_SetBytes (take 32 (drop 64 data)))
      in rbind (event_array data 12 partyOffset) (\<lambda>ps.
         let parties = map (BytesToAddress L) ps in
         rbind (event_array data 0 scopeOffset) (\<lambda>ss.
         let scopes = map (\<lambda>b. trim_right_nul (string_of_bytes b)) ss;
             validFrom = big_Uint64 (big_SetBytes (take 32 (drop 96 data)));
             validUntil = (if 160 \<le> length data
                           then big_Uint64 (big_SetBytes (take 32 (drop 128 data))) else 0);
             partyStrs = map (\<lambda>p. strings_ToLower (unicode_lower L) (AddressHex L p)) parties
         in Inr \<lparr> cc_ConsentID = HashHex L consentID, cc_Parties = partyStrs, cc_Scopes = scopes,
                  cc_ValidFrom = validFrom, cc_ValidUntil = validUntil, cc_Revoked = False,
                  cc_Chain = chain, cc_TxHash = HashHex L (lg_TxHash vLog), cc_CreatedAt = validFrom \<rparr>)))"

text \<open>The state is that of the two stores. Errors of a store are only logged.\<close>

definition handleConsentRegistered ::
  "lib \<Rightarrow> ('q, 'r) EventHandler \<Rightarrow> string \<Rightarrow> eth_log \<Rightarrow> ('q \<times> 'r, unit) go" where
  "handleConsentRegistered L h chain vLog =
     (if length (lg_Data vLog) < 128 then gret ()
      else gbind (glift (parse_event L chain vLog)) (\<lambda>cacheData.
        if eh_redis h \<noteq> None
        then gbind (gzoom snd (\<lambda>r s. (fst s, r)) (ix_CacheConsent (eh_redis h) cacheData hours24))
               (\<lambda>err. gret ())
        else gret ()))"

definition handleConsentRevoked ::
  "lib \<Rightarrow> ('q, 'r) EventHandler \<Rightarrow> string \<Rightarrow> eth_log \<Rightarrow> ('q \<times> 'r, unit) go" where
  "handleConsentRevoked L h chain vLog =
     (if length (lg_Data vLog) < 32 then gret ()
      else
        (let consentID = BytesToHash L (take 32 (lg_Data vLog)) in
         gbind (if eh_qdrant h \<noteq> None
                then gbind (gzoom fst (\<lambda>q s. (q, snd s))
                       (ix_UpdateConsentRevoked (eh_qdrant h) [] (HashHex L consentID) True)) (\<lambda>err. gret ())
                else gret ())
           (\<lambda>_. if eh_redis h \<noteq> None
                then gbind (gzoom snd (\<lambda>r s. (fst s, r))
                       (ix_InvalidateConsent (eh_redis h) chain (HashHex L consentID))) (\<lambda>err. gret ())
                else gret ())))"

definition processEventLog ::
  "lib \<Rightarrow> ('q, 'r) EventHandler \<Rightarrow> string \<Rightarrow> eth_log \<Rightarrow> ('q \<times> 'r, unit) go" where
  "processEventLog L h chain vLog =
     (case lg_Topics vLog of
        [] \<Rightarrow> gret ()
      | eventSig # _ \<Rightarrow>
          (let registeredSig = Keccak256 L (bytes_of_string registered_signature);
               revokedSig = Keccak256 L (bytes_of_string revoked_signature)
           in if eventSig = registeredSig then handleConsentRegistered L h chain vLog
              else if eventSig = revokedSig then handleConsentRevoked L h chain vLog
              else gret ()))"

fun process_logs ::
  "lib \<Rightarrow> ('q, 'r) EventHandler \<Rightarrow> string \<Rightarrow> eth_log list \<Rightarrow> ('q \<times> 'r, unit) go" where
  "process_logs L h chain [] = gret ()"
| "process_logs L h chain (vLog # logs) =
     gbind (processEventLog L h chain vLog) (\<lambda>_. process_logs L h chain logs)"

section \<open>The listener\<close>

record ChainListener =
  ls_name :: string
  ls_rpcURL :: string
  ls_contractAddr :: address
  ls_client :: conn
  ls_startBlock :: u64
  ls_backfillMode :: bool

record filter_query =
  fq_Addresses :: "address list"
  fq_Topics :: "hash list list"
  fq_FromBlock :: "int option"
  fq_ToBlock :: "int option"

text \<open>What a node answers during one poll: its latest block, and the logs a query selects.\<close>

record poll =
  po_BlockNumber :: "goerr + u64"
  po_FilterLogs :: "filter_query \<Rightarrow> goerr + eth_log list"

definition listener_query :: "lib \<Rightarrow> ChainListener \<Rightarrow> filter_query" where
  "listener_query L l =
     \<lparr> fq_Addresses = [ls_contractAddr l],
       fq_Topics = [[Keccak256 L (bytes_of_string registered_signature),
                     Keccak256 L (bytes_of_string revoked_signature)]],
       fq_FromBlock = None, fq_ToBlock = None \<rparr>"

definition batch_query :: "filter_query \<Rightarrow> u64 \<Rightarrow> u64 \<Rightarrow> filter_query" where
  "batch_query query lo hi =
     query\<lparr> fq_FromBlock := Some (i64_of_u64 lo), fq_ToBlock := Some (i64_of_u64 hi) \<rparr>"

definition batch_end :: "u64 \<Rightarrow> u64 \<Rightarrow> u64 \<Rightarrow> u64" where
  "batch_end batchSize toBlock lo =
     (let hi = lo + batchSize - 1 in if hi > toBlock then toBlock else hi)"

text \<open>
  The batch loop. \<^verbatim>\<open>from += batchSize\<close> can wrap around when the range ends near \<open>2 ^ 64\<close>, and the
  loop then starts again at the bottom: it is a partial function, \<open>None\<close> where it never ends.
\<close>

partial_function (option) batch_loop ::
  "lib \<Rightarrow> ('q, 'r) EventHandler \<Rightarrow> string \<Rightarrow> (filter_query \<Rightarrow> goerr + eth_log list) \<Rightarrow>
   filter_query \<Rightarrow> u64 \<Rightarrow> u64 \<Rightarrow> u64 \<Rightarrow> 'q \<times> 'r \<Rightarrow> (unit res \<times> ('q \<times> 'r)) option"
where
  "batch_loop L h chain filterLogs query batchSize toBlock lo s =
     (if lo \<le> toBlock then
        (case filterLogs (batch_query query lo (batch_end batchSize toBlock lo)) of
           Inl err \<Rightarrow> batch_loop L h chain filterLogs query batchSize toBlock (lo + batchSize) s
         | Inr logs \<Rightarrow>
             (case process_logs L h chain logs s of
                (Inl p, s1) \<Rightarrow> Some (Inl p, s1)
              | (Inr u, s1) \<Rightarrow>
                  batch_loop L h chain filterLogs query batchSize toBlock (lo + batchSize) s1))
      else Some (Inr (), s))"

definition batch_size :: "ChainListener \<Rightarrow> u64" where
  "batch_size l = (if ls_backfillMode l then 5000 else 1000)"

text \<open>One turn of the polling loop: the result and the new value of \<^verbatim>\<open>lastBlock\<close>.\<close>

definition poll_once ::
  "lib \<Rightarrow> ('q, 'r) EventHandler \<Rightarrow> ChainListener \<Rightarrow> poll \<Rightarrow> u64 \<Rightarrow> 'q \<times> 'r \<Rightarrow>
   (u64 res \<times> ('q \<times> 'r)) option" where
  "poll_once L h l p lastBlock s =
     (case po_BlockNumber p of
        Inl err \<Rightarrow> Some (Inr lastBlock, s)
      | Inr latestBlock \<Rightarrow>
          if latestBlock \<le> lastBlock then Some (Inr lastBlock, s)
          else
            (case batch_loop L h (ls_name l) (po_FilterLogs p) (listener_query L l) (batch_size l)
                    latestBlock (lastBlock + 1) s of
               None \<Rightarrow> None
             | Some (Inl pn, s1) \<Rightarrow> Some (Inl pn, s1)
             | Some (Inr u, s1) \<Rightarrow> Some (Inr latestBlock, s1)))"

definition start_block :: "ChainListener \<Rightarrow> goerr + u64 \<Rightarrow> u64" where
  "start_block l blockNumber =
     (if ls_startBlock l > 0 then ls_startBlock l
      else (case blockNumber of Inl err \<Rightarrow> 0 | Inr block \<Rightarrow> block))"

text \<open>
  The polls a listener makes until its context is cancelled, one after each interval. A panic ends
  the process.
\<close>

fun poll_loop ::
  "lib \<Rightarrow> ('q, 'r) EventHandler \<Rightarrow> ChainListener \<Rightarrow> poll list \<Rightarrow> u64 \<Rightarrow> 'q \<times> 'r \<Rightarrow>
   (u64 res \<times> ('q \<times> 'r)) option" where
  "poll_loop L h l [] lastBlock s = Some (Inr lastBlock, s)"
| "poll_loop L h l (p # ps) lastBlock s =
     (case poll_once L h l p lastBlock s of
        None \<Rightarrow> None
      | Some (Inl pn, s1) \<Rightarrow> Some (Inl pn, s1)
      | Some (Inr lb, s1) \<Rightarrow> poll_loop L h l ps lb s1)"

definition startEventListener ::
  "lib \<Rightarrow> ('q, 'r) EventHandler \<Rightarrow> rpc \<Rightarrow> ChainListener \<Rightarrow> poll list \<Rightarrow> 'q \<times> 'r \<Rightarrow>
   (u64 res \<times> ('q \<times> 'r)) option" where
  "startEventListener L h net l polls s =
     poll_loop L h l polls (start_block l (BlockNumber net (ls_client l))) s"

section \<open>Starting\<close>

definition new_listener ::
  "lib \<Rightarrow> rpc \<Rightarrow> IxConfig \<Rightarrow> string \<Rightarrow> string \<Rightarrow> string \<Rightarrow> ChainListener option" where
  "new_listener L net cfg nm rpcURL contractAddr =
     (case DialContext net rpcURL of
        Inl err \<Rightarrow> None
      | Inr client \<Rightarrow>
          (case ChainID net client of
             Inl err \<Rightarrow> None
           | Inr chainID \<Rightarrow>
               (let listener = \<lparr> ls_name = nm, ls_rpcURL = rpcURL, ls_contractAddr = HexToAddress L contractAddr,
                                 ls_client = client, ls_startBlock = 0, ls_backfillMode = False \<rparr>
                in Some (if ix_BackfillFromBlock cfg > 0
                         then listener\<lparr> ls_startBlock := ix_BackfillFromBlock cfg, ls_backfillMode := True \<rparr>
                         else listener))))"

definition poll_interval :: "IxConfig \<Rightarrow> int" where
  "poll_interval cfg =
     (let pollInterval = i64 (ix_PollIntervalSeconds cfg * Second)
      in if pollInterval = 0 then 12 * Second else pollInterval)"

text \<open>The \<open>polls\<close> are those made at multiples of \<open>poll_interval\<close> until the cancellation.\<close>

definition listenChain ::
  "lib \<Rightarrow> ('q, 'r) EventHandler \<Rightarrow> rpc \<Rightarrow> (int \<Rightarrow> poll list) \<Rightarrow> IxConfig \<Rightarrow> string \<times> string \<times> string \<Rightarrow>
   'q \<times> 'r \<Rightarrow> (unit res \<times> ('q \<times> 'r)) option" where
  "listenChain L h net polls cfg chain s =
     (case chain of
        (nm, rpcURL, contractAddr) \<Rightarrow>
          (case new_listener L net cfg nm rpcURL contractAddr of
             None \<Rightarrow> Some (Inr (), s)
           | Some listener \<Rightarrow>
               map_option (\<lambda>(r, s1). (map_sum id (\<lambda>_. ()) r, s1))
                 (startEventListener L h net listener (polls (poll_interval cfg)) s)))"

definition chain_table :: "IxConfig \<Rightarrow> (string \<times> string \<times> string) list" where
  "chain_table cfg =
     (let c = ix_Chains cfg in
      [(''sepolia'', SepoliaRPC c, SepoliaRegistry c),
       (''bsc-testnet'', BSCTestnetRPC c, BSCTestnetRegistry c),
       (''amoy'', AmoyRPC c, AmoyRegistry c),
       (''palm-testnet'', PalmTestnetRPC c, PalmTestnetRegistry c),
       (''base-sepolia'', BaseSepoliaRPC c, BaseSepoliaRegistry c)])"

text \<open>What \<^verbatim>\<open>main\<close> sets up: the handler, with a nil store where connecting failed, and the chains
  it starts a listener for. The connection attempts are the arguments.\<close>

definition started_chains :: "IxConfig \<Rightarrow> (string \<times> string \<times> string) list" where
  "started_chains cfg =
     filter (\<lambda>(nm, rpcURL, contract). \<not> (rpcURL = '''' \<or> contract = '''')) (chain_table cfg)"

definition indexer_start ::
  "(string \<Rightarrow> goerr + 'q qdrant_srv) \<Rightarrow> (string \<Rightarrow> goerr + redis_opts) \<Rightarrow> (redis_opts \<Rightarrow> goerr option) \<Rightarrow>
   (redis_opts \<Rightarrow> 'r redis_srv) \<Rightarrow> environ \<Rightarrow>
   ('q, 'r) EventHandler \<times> (string \<times> string \<times> string) list" where
  "indexer_start dial parseURL ping connect env =
     (let cfg = ix_Load env;
          qdrant = (case ix_qdrant_NewClient dial (ix_Qdrant cfg) of Inl err \<Rightarrow> None | Inr c \<Rightarrow> c);
          redis = (case ix_redis_NewClient parseURL ping (ix_Redis cfg) of
                     Inl err \<Rightarrow> None | Inr opts \<Rightarrow> Some (connect opts))
      in (\<lparr> eh_cfg = cfg, eh_qdrant = qdrant, eh_redis = redis \<rparr>, started_chains cfg))"

end
