(* ===== verification/Indexer_Facts.thy ===== *)
theory Indexer_Facts
  imports Indexer
begin

text \<open>
  Facts about the event indexer: which arrays a log's data is read as and when reading panics, how
  the batch loop covers a range of blocks, and what the listener never asks for.
\<close>

section \<open>Reading arrays\<close>

lemma signed_le_iff: "unat w < 2 ^ 63 \<Longrightarrow> i64_of_u64 w \<le> int n \<longleftrightarrow> unat w \<le> n"
  by (simp only: i64_of_u64_small of_nat_le_iff)

lemma unat_nat_u64: "n < 2 ^ 64 \<Longrightarrow> unat (word_of_nat n :: u64) = n"
  by (simp add: unat_of_nat)

lemma unat_slot:
  assumes "unat off + 32 * i + k < 2 ^ 64"
  shows "unat (off + word_of_nat i * 32 + word_of_nat k :: u64) = unat off + 32 * i + k"
proof -
  have "(off + word_of_nat i * 32 + word_of_nat k :: u64) = word_of_nat (unat off + 32 * i + k)"
    by (simp add: mult.commute)
  then show ?thesis using assms unat_nat_u64 by metis
qed

lemma slot_bounds:
  assumes "unat off + 32 * i + 64 < 2 ^ 63" "unat skip \<le> 32"
  shows "unat (off + 32 + word_of_nat i * 32 + 32 :: u64) = unat off + 32 * i + 64"
    "unat (off + 32 + word_of_nat i * 32 + skip :: u64) = unat off + 32 * i + 32 + unat skip"
proof -
  have "off + 32 + word_of_nat i * 32 + 32 = off + word_of_nat i * 32 + word_of_nat 64"
    by simp
  then show "unat (off + 32 + word_of_nat i * 32 + 32 :: u64) = unat off + 32 * i + 64"
    using assms(1) unat_slot [of off i 64] by (simp add: ac_simps)
  have "off + 32 + word_of_nat i * 32 + skip = off + word_of_nat i * 32 + word_of_nat (32 + unat skip)"
    by simp
  then show "unat (off + 32 + word_of_nat i * 32 + skip :: u64) = unat off + 32 * i + 32 + unat skip"
    using assms unat_slot [of off i "32 + unat skip"] by (simp add: ac_simps)
qed

lemma event_slots_step:
  assumes "i < cnt" "unat off + 32 * i + 64 < 2 ^ 63" "unat skip \<le> 32" "cnt < 2 ^ 64"
    "unat off + 32 * i + 64 \<le> length data"
  shows "event_slots data off skip (word_of_nat cnt) (word_of_nat i) =
    rbind (event_slots data off skip (word_of_nat cnt) (word_of_nat (Suc i)))
      (\<lambda>bs. Inr (take (32 - unat skip) (drop (unat off + 32 * i + 32 + unat skip) data) # bs))"
proof -
  have "unat (word_of_nat i :: u64) = i" "unat (word_of_nat cnt :: u64) = cnt"
    using assms(1,4) by (intro unat_nat_u64; linarith)+
  then have lt: "(word_of_nat i :: u64) < word_of_nat cnt"
    using assms(1) by (simp add: word_less_nat_alt)
  note b = slot_bounds [OF assms(2,3)]
  have c: "i64_of_u64 (off + 32 + word_of_nat i * 32 + 32) \<le> int (length data)"
    using assms(2,5) by (subst signed_le_iff) (simp_all only: b)
  have nx: "(word_of_nat i + 1 :: u64) = word_of_nat (Suc i)" by simp
  have sl: "slice (unat off + 32 * i + 32 + unat skip) (unat off + 32 * i + 64) data =
      Inr (take (32 - unat skip) (drop (unat off + 32 * i + 32 + unat skip) data))"
    using assms(3,5) by (subst slice_ok) simp_all
  show ?thesis
    by (subst event_slots.simps) (simp only: lt Let_def c b nx sl if_True rbind_simps)
qed

lemma event_slots_skip:
  assumes "i < cnt" "unat off + 32 * i + 64 < 2 ^ 63" "unat skip \<le> 32" "cnt < 2 ^ 64"
    "length data < unat off + 32 * i + 64"
  shows "event_slots data off skip (word_of_nat cnt) (word_of_nat i) =
    event_slots data off skip (word_of_nat cnt) (word_of_nat (Suc i))"
proof -
  have "unat (word_of_nat i :: u64) = i" "unat (word_of_nat cnt :: u64) = cnt"
    using assms(1,4) by (intro unat_nat_u64; linarith)+
  then have lt: "(word_of_nat i :: u64) < word_of_nat cnt"
    using assms(1) by (simp add: word_less_nat_alt)
  note b = slot_bounds [OF assms(2,3)]
  have c: "\<not> i64_of_u64 (off + 32 + word_of_nat i * 32 + 32) \<le> int (length data)"
    using assms(2,5) by (subst signed_le_iff) (simp_all only: b not_le)
  have nx: "(word_of_nat i + 1 :: u64) = word_of_nat (Suc i)" by simp
  show ?thesis
    by (subst event_slots.simps) (simp only: lt Let_def c nx if_True if_False)
qed

lemma event_slots_end: "event_slots data off skip (word_of_nat cnt) (word_of_nat cnt) = Inr []"
  by (subst event_slots.simps) simp

lemma event_slots_layout:
  assumes "list_all (\<lambda>x. length x = 32) elems" "unat off = length pre" "length w = 32" "unat skip \<le> 32"
    and "length pre + 64 + 32 * length elems < 2 ^ 63" "i \<le> length elems"
  shows "event_slots (pre @ w @ concat elems @ post) off skip (word_of_nat (length elems)) (word_of_nat i) =
    Inr (map (drop (unat skip)) (drop i elems))"
  using assms(6)
proof (induction "length elems - i" arbitrary: i)
  case 0
  then show ?case by (simp add: event_slots_end)
next
  case (Suc n)
  let ?data = "pre @ w @ concat elems @ post"
  have i: "i < length elems" using Suc(2) by simp
  have len: "length (concat elems) = 32 * length elems" by (rule length_concat_uniform [OF assms(1)])
  have "unat off + 32 * i + 64 \<le> length ?data" using i assms(2,3) len by simp
  moreover have "take (32 - unat skip) (drop (unat off + 32 * i + 32 + unat skip) ?data) =
      drop (unat skip) (elems ! i)"
  proof -
    have "drop (unat off + 32 * i + 32 + unat skip) ?data =
        drop (unat skip) (drop (32 * i) (drop 32 (drop (length pre) ?data)))"
      using assms(2) by (simp only: drop_drop ac_simps)
    also have "drop 32 (drop (length pre) ?data) = concat elems @ post" using assms(3) by simp
    finally have "drop (unat off + 32 * i + 32 + unat skip) ?data =
        drop (unat skip) (drop (32 * i) (concat elems @ post))" .
    then show ?thesis using take_drop_concat [OF assms(1) i, of post] by (metis drop_take)
  qed
  ultimately have "event_slots ?data off skip (word_of_nat (length elems)) (word_of_nat i) =
      rbind (event_slots ?data off skip (word_of_nat (length elems)) (word_of_nat (Suc i)))
        (\<lambda>bs. Inr (drop (unat skip) (elems ! i) # bs))"
    using event_slots_step [OF i, of off skip ?data] assms(2,4,5) i by simp
  also have "event_slots ?data off skip (word_of_nat (length elems)) (word_of_nat (Suc i)) =
      Inr (map (drop (unat skip)) (drop (Suc i) elems))"
    using Suc(2) i by (intro Suc(1)) simp_all
  finally show ?case using i by (simp flip: Cons_nth_drop_Suc)
qed

lemma event_slots_no_panic:
  assumes "unat off + 64 + 32 * cnt < 2 ^ 63" "unat skip \<le> 32" "i \<le> cnt"
  shows "\<exists>bs. event_slots data off skip (word_of_nat cnt) (word_of_nat i) = Inr bs"
  using assms(3)
proof (induction "cnt - i" arbitrary: i)
  case 0
  then show ?case by (simp add: event_slots_end)
next
  case (Suc n)
  have i: "i < cnt" "unat off + 32 * i + 64 < 2 ^ 63" "cnt < 2 ^ 64" using Suc(2) assms(1) by simp_all
  have "\<exists>bs. event_slots data off skip (word_of_nat cnt) (word_of_nat (Suc i)) = Inr bs"
    using Suc(2) by (intro Suc(1)) simp_all
  then obtain bs where "event_slots data off skip (word_of_nat cnt) (word_of_nat (Suc i)) = Inr bs" ..
  then show ?case
    using event_slots_step [OF i(1,2) assms(2) i(3), of data] event_slots_skip [OF i(1,2) assms(2) i(3), of data]
    by (cases "unat off + 32 * i + 64 \<le> length data") simp_all
qed

lemma count_at:
  assumes "n < 2 ^ 64"
  shows "big_Uint64 (big_SetBytes (be_bytes 32 n)) = word_of_nat n"
proof -
  have "nat_of_be (be_bytes 32 n) = n"
    using small_in_word [OF assms] by (simp only: nat_of_be_be_bytes mod_less)
  then show ?thesis by (simp only: big_Uint64_SetBytes)
qed

lemma event_array_layout:
  assumes "list_all (\<lambda>x. length x = 32) elems" "unat off = length pre" "unat skip \<le> 32"
    and "length pre + 64 + 32 * length elems < 2 ^ 63"
  shows "event_array (pre @ be_bytes 32 (length elems) @ concat elems @ post) skip off =
    Inr (map (drop (unat skip)) elems)"
proof -
  let ?data = "pre @ be_bytes 32 (length elems) @ concat elems @ post"
  have u: "unat (off + 32) = length pre + 32"
    using assms(2,4) unat_add_u64 [of off 32] by simp
  have "i64_of_u64 (off + 32) \<le> int (length ?data)"
  proof (subst signed_le_iff)
    show "unat (off + 32) < 2 ^ 63" using assms(4) u by linarith
    show "unat (off + 32) \<le> length ?data" using u by simp
  qed
  moreover have "slice (length pre) (length pre + 32) ?data = Inr (be_bytes 32 (length elems))"
    by simp
  moreover have "length elems < 2 ^ 64" using assms(4) by simp
  moreover have "event_slots ?data off skip (word_of_nat (length elems)) 0 = Inr (map (drop (unat skip)) elems)"
    using event_slots_layout [OF assms(1,2) length_be_bytes assms(3,4), of 0] by simp
  ultimately show ?thesis
    unfolding event_array_def u assms(2) by (simp only: if_True rbind_simps count_at)
qed

text \<open>
  An offset so large that the signed comparison sees a negative number, or that the sum wraps
  around, passes the check and the slice panics.
\<close>

lemma event_array_panics:
  assumes "2 ^ 63 - 32 \<le> unat off" "length data < 2 ^ 63" "32 \<le> length data"
  shows "event_array data skip off = Inl SliceOutOfRange"
proof (cases "unat off < 2 ^ 64 - 32")
  case True
  then have u: "unat (off + 32) = unat off + 32"
    using unat_add_u64 [of off 32] by simp
  then have "i64_of_u64 (off + 32) < 0"
    using assms(1) by (simp add: i64_of_u64_neg_iff)
  then have "i64_of_u64 (off + 32) \<le> int (length data)" by linarith
  moreover have "length data < unat off + 32" using assms by linarith
  ultimately show ?thesis
    by (simp only: event_array_def u if_True slice_beyond rbind_simps)
next
  case False
  have "unat (off + 32) = (unat off + 32) mod 2 ^ 64"
    by (subst unat_word_ariths(1)) simp
  also have "\<dots> = unat off + 32 - 2 ^ 64"
  proof -
    have "2 ^ 64 \<le> unat off + 32" using False by linarith
    moreover have "unat off + 32 - 2 ^ 64 < 2 ^ 64"
      by (rule le_less_trans [OF _ unat_u64_less [of off]]) simp
    ultimately show ?thesis by (simp only: le_mod_geq mod_less)
  qed
  finally have u: "unat (off + 32) = unat off + 32 - 2 ^ 64" .
  moreover have "0 < unat off" using False by (cases "unat off = 0") simp_all
  ultimately have less: "unat (off + 32) < unat off" by simp
  have small: "unat (off + 32) < 32"
  proof -
    have "x + 32 - 2 ^ 64 < 32" if "x < 2 ^ 64" for x :: nat
      using that by simp
    then show ?thesis using u unat_u64_less [of off] by metis
  qed
  have "i64_of_u64 (off + 32) \<le> int (length data)"
  proof (subst signed_le_iff)
    show "unat (off + 32) < 2 ^ 63" using small by (rule order_less_le_trans) simp
    show "unat (off + 32) \<le> length data" using small assms(3) by linarith
  qed
  then show ?thesis
    by (simp add: event_array_def slice_reversed [OF less])
qed

section \<open>The event's layout\<close>

text \<open>
  The data of \<^verbatim>\<open>ConsentRegistered(bytes32,address[],bytes32[],uint256,uint256)\<close> by the ABI's rules
  when no parameter is indexed: the signature the listener subscribes to.
\<close>

definition event_data :: "bytes \<Rightarrow> address list \<Rightarrow> bytes list \<Rightarrow> nat \<Rightarrow> nat \<Rightarrow> bytes" where
  "event_data consentID parties scopes validFrom validUntil =
     consentID @ be_bytes 32 160 @ be_bytes 32 (192 + 32 * length parties) @ be_bytes 32 validFrom @
     be_bytes 32 validUntil @ be_bytes 32 (length parties) @ concat (map pad_address parties) @
     be_bytes 32 (length scopes) @ concat scopes"

text \<open>The document such an event stands for.\<close>

definition event_document ::
  "lib \<Rightarrow> string \<Rightarrow> hash \<Rightarrow> bytes \<Rightarrow> address list \<Rightarrow> bytes list \<Rightarrow> u64 \<Rightarrow> u64 \<Rightarrow> ConsentCache" where
  "event_document L chain txHash consentID parties scopes validFrom validUntil =
     \<lparr> cc_ConsentID = HashHex L consentID,
       cc_Parties = map (\<lambda>p. strings_ToLower (unicode_lower L) (AddressHex L p)) parties,
       cc_Scopes = Bytes32ArrayToStrings scopes, cc_ValidFrom = validFrom, cc_ValidUntil = validUntil,
       cc_Revoked = False, cc_Chain = chain, cc_TxHash = HashHex L txHash, cc_CreatedAt = validFrom \<rparr>"

lemma event_data_arrays:
  assumes "length consentID = 32" "list_all (\<lambda>p. length p = 20) parties"
    "list_all (\<lambda>b. length b = 32) scopes" "length parties < 2 ^ 32" "length scopes < 2 ^ 32"
  shows "event_array (event_data consentID parties scopes f u) 12 160 = Inr (map (drop 12) (map pad_address parties))"
    "event_array (event_data consentID parties scopes f u) 0 (word_of_nat (192 + 32 * length parties)) =
      Inr scopes"
proof -
  let ?pre = "consentID @ be_bytes 32 160 @ be_bytes 32 (192 + 32 * length parties) @ be_bytes 32 f @ be_bytes 32 u"
  let ?es = "map pad_address parties"
  have "unat (12 :: u64) = 12" by simp
  then show "event_array (event_data consentID parties scopes f u) 12 160 = Inr (map (drop 12) ?es)"
    using event_array_layout [OF pad_addresses_uniform [OF assms(2)], of 160 ?pre 12
        "be_bytes 32 (length scopes) @ concat scopes"] assms(1,4)
    by (simp add: event_data_def)
  have "unat (word_of_nat (192 + 32 * length parties) :: u64) = 192 + 32 * length parties"
    using assms(4) by (intro unat_nat_u64) simp
  moreover have "length (concat ?es) = 32 * length parties"
    using length_concat_uniform [OF pad_addresses_uniform [OF assms(2)]] by simp
  ultimately show "event_array (event_data consentID parties scopes f u) 0 (word_of_nat (192 + 32 * length parties)) =
      Inr scopes"
    using event_array_layout [OF assms(3), of "word_of_nat (192 + 32 * length parties)"
        "?pre @ be_bytes 32 (length parties) @ concat ?es" 0 "[]"] assms(1,4,5)
    by (simp add: event_data_def)
qed

lemma event_data_words:
  assumes "length consentID = 32"
  shows "take 32 (event_data consentID parties scopes f u) = consentID"
    "take 32 (drop 32 (event_data consentID parties scopes f u)) = be_bytes 32 160"
    "take 32 (drop 64 (event_data consentID parties scopes f u)) = be_bytes 32 (192 + 32 * length parties)"
    "take 32 (drop 96 (event_data consentID parties scopes f u)) = be_bytes 32 f"
    "take 32 (drop 128 (event_data consentID parties scopes f u)) = be_bytes 32 u"
    "160 \<le> length (event_data consentID parties scopes f u)"
  using assms by (simp_all add: event_data_def)

lemma parse_event_layout:
  assumes "lib_bytes L" "length consentID = 32" "list_all (\<lambda>p. length p = 20) parties"
    "list_all (\<lambda>b. length b = 32) scopes" "length parties < 2 ^ 32" "length scopes < 2 ^ 32"
    "f < 2 ^ 64" "u < 2 ^ 64" "lg_Data vLog = event_data consentID parties scopes f u"
  shows "parse_event L chain vLog =
    Inr (event_document L chain (lg_TxHash vLog) consentID parties scopes (word_of_nat f) (word_of_nat u))"
proof -
  have off: "big_Uint64 (big_SetBytes (be_bytes 32 160)) = 160"
    using count_at [of 160] by simp
  have "192 + 32 * length parties < 2 ^ 64" using assms(5) by simp
  note soff = count_at [OF this]
  have ps: "map (BytesToAddress L) (map (drop 12) (map pad_address parties)) = parties"
    using assms(3) by (induction parties) (simp_all add: pad_address_def lib_bytesD [OF assms(1)])
  have id: "BytesToHash L consentID = consentID" by (rule lib_bytesD(2) [OF assms(1,2)])
  note arr = event_data_arrays [OF assms(2-6)]
  show ?thesis
    by (simp only: parse_event_def Let_def assms(9) event_data_words [OF assms(2)] off soff arr
        rbind_simps ps id count_at [OF assms(7)] count_at [OF assms(8)] if_True event_document_def)
      (simp add: Bytes32ArrayToStrings_def Bytes32ToString_def)
qed

text \<open>Both kinds of log through \<^verbatim>\<open>processEventLog\<close>, when the handler has a Redis client.\<close>

definition sig_registered :: "lib \<Rightarrow> eth_log \<Rightarrow> bool" where
  "sig_registered L v \<longleftrightarrow> (\<exists>ts. lg_Topics v = Keccak256 L (bytes_of_string registered_signature) # ts)"

definition sig_revoked :: "lib \<Rightarrow> eth_log \<Rightarrow> bool" where
  "sig_revoked L v \<longleftrightarrow> (\<exists>ts. lg_Topics v = Keccak256 L (bytes_of_string revoked_signature) # ts) \<and>
     Keccak256 L (bytes_of_string revoked_signature) \<noteq> Keccak256 L (bytes_of_string registered_signature)"

lemma processEventLog_dispatch:
  "sig_registered L v \<Longrightarrow> processEventLog L h chain v = handleConsentRegistered L h chain v"
  "sig_revoked L v \<Longrightarrow> processEventLog L h chain v = handleConsentRevoked L h chain v"
  by (auto simp: processEventLog_def sig_registered_def sig_revoked_def Let_def)

lemma stores_return:
  "\<exists>x r'. CacheConsent (Some srv) d t r = (Inr x, r')"
  "\<exists>x r'. InvalidateConsent (Some srv) ch i r = (Inr x, r')"
  "\<exists>x q'. ix_UpdateConsentRevoked (Some qc) ctx i b q = (Inr x, q')"
proof -
  obtain e r' where "rd_Set srv (cache_key (cc_Chain d) (cc_ConsentID d)) (RDoc (marshal_cache d)) t r = (e, r')"
    by (rule prod.exhaust)
  then show "\<exists>x r'. CacheConsent (Some srv) d t r = (Inr x, r')"
    by (cases e) (simp_all add: CacheConsent_def)
  obtain e r' where "rd_Del srv (cache_key ch i) r = (e, r')"
    by (rule prod.exhaust)
  then show "\<exists>x r'. InvalidateConsent (Some srv) ch i r = (Inr x, r')"
    by (cases e) (simp_all add: InvalidateConsent_def)
  obtain s cfg where c: "qc = (s, cfg)" by (rule prod.exhaust)
  obtain w q' where "qd_Scroll s (ix_authContext cfg ctx) (ixq_CollectionName cfg)
      [MatchText ''consent_id'' i] 100 q = (w, q')"
    by (rule prod.exhaust)
  with c show "\<exists>x q'. ix_UpdateConsentRevoked (Some qc) ctx i b q = (Inr x, q')"
    by (cases w) (simp_all add: ix_UpdateConsentRevoked_def Let_def split: prod.split)
qed

lemma processEventLog_registered:
  assumes "sig_registered L v" "128 \<le> length (lg_Data v)" "parse_event L chain v = Inr d" "eh_redis h = Some srv"
  shows "processEventLog L h chain v (q, r) =
    (Inr (), q, snd (CacheConsent (Some srv) d hours24 r))"
proof -
  obtain x r' where c: "CacheConsent (Some srv) d hours24 r = (Inr x, r')"
    using stores_return(1) [of srv d hours24 r] by (elim exE)
  then have "gzoom snd (\<lambda>r s. (fst s, r)) (CacheConsent (Some srv) d hours24) (q, r) = (Inr x, q, r')"
    by (simp add: gzoom_def)
  with c assms(2-4) show ?thesis
    by (simp add: processEventLog_dispatch(1) [OF assms(1)] handleConsentRegistered_def ix_redis_same gbind_def)
qed

lemma processEventLog_revoked:
  assumes "sig_revoked L v" "32 \<le> length (lg_Data v)" "eh_redis h = Some srv" "eh_qdrant h = Some qc"
    and "i = HashHex L (BytesToHash L (take 32 (lg_Data v)))"
  shows "processEventLog L h chain v (q, r) =
    (Inr (), snd (ix_UpdateConsentRevoked (Some qc) [] i True q), snd (InvalidateConsent (Some srv) chain i r))"
proof -
  obtain x q' where u: "ix_UpdateConsentRevoked (Some qc) [] i True q = (Inr x, q')"
    using stores_return(3) [of qc "[]" i True q] by (elim exE)
  obtain y r' where c: "InvalidateConsent (Some srv) chain i r = (Inr y, r')"
    using stores_return(2) [of srv chain i r] by (elim exE)
  have "gzoom fst (\<lambda>q s. (q, snd s)) (ix_UpdateConsentRevoked (Some qc) [] i True) (q, r) = (Inr x, q', r)"
    "gzoom snd (\<lambda>r s. (fst s, r)) (InvalidateConsent (Some srv) chain i) (q', r) = (Inr y, q', r')"
    using u c by (simp_all add: gzoom_def)
  with u c assms(2-4) show ?thesis
    by (simp add: processEventLog_dispatch(2) [OF assms(1)] handleConsentRevoked_def ix_redis_same Let_def
        assms(5) gbind_def)
qed

section \<open>Ranges of blocks\<close>

text \<open>
  The specification of the batch loop: the ranges of at most \<open>b\<close> blocks that cover
  \<open>lo, \<dots>, hi\<close>, in order, and one request and its logs per range.
\<close>

function block_ranges :: "nat \<Rightarrow> nat \<Rightarrow> nat \<Rightarrow> (nat \<times> nat) list" where
  "block_ranges b lo hi =
     (if 0 < b \<and> lo \<le> hi then (lo, min (lo + b - 1) hi) # block_ranges b (lo + b) hi else [])"
  by pat_completeness auto
termination
  by (relation "measure (\<lambda>(b, lo, hi). Suc hi - lo)") auto

declare block_ranges.simps [simp del]

fun run_ranges ::
  "lib \<Rightarrow> ('q, 'r) EventHandler \<Rightarrow> string \<Rightarrow> (filter_query \<Rightarrow> goerr + eth_log list) \<Rightarrow>
   filter_query \<Rightarrow> (nat \<times> nat) list \<Rightarrow> ('q \<times> 'r, unit) go" where
  "run_ranges L h chain flt query [] = gret ()"
| "run_ranges L h chain flt query ((a, b) # rs) =
     (case flt (batch_query query (word_of_nat a) (word_of_nat b)) of
        Inl err \<Rightarrow> run_ranges L h chain flt query rs
      | Inr logs \<Rightarrow> gbind (process_logs L h chain logs) (\<lambda>_. run_ranges L h chain flt query rs))"

lemma block_ranges_cover:
  "0 < b \<Longrightarrow> concat (map (\<lambda>(x, y). [x..<Suc y]) (block_ranges b lo hi)) = [lo..<Suc hi]"
proof (induction b lo hi rule: block_ranges.induct)
  case (1 b lo hi)
  show ?case
  proof (cases "lo \<le> hi")
    case True
    then have ih: "concat (map (\<lambda>(x, y). [x..<Suc y]) (block_ranges b (lo + b) hi)) = [lo + b..<Suc hi]"
      using 1 by simp
    have "[lo..<Suc (min (lo + b - 1) hi)] @ [lo + b..<Suc hi] = [lo..<Suc hi]"
    proof (cases "lo + b \<le> hi")
      case True
      then have "Suc (min (lo + b - 1) hi) = lo + b" using 1(2) by simp
      moreover have "[lo..<lo + b] @ [lo + b..<Suc hi] = [lo..<Suc hi]"
        using upt_add_eq_append [of lo "lo + b" "Suc hi - (lo + b)"] True by simp
      ultimately show ?thesis by (simp only:)
    next
      case False
      then have "min (lo + b - 1) hi = hi" using 1(2) by simp
      then show ?thesis using False by simp
    qed
    with ih True 1(2) show ?thesis by (subst block_ranges.simps) simp
  next
    case False
    then show ?thesis by (subst block_ranges.simps) simp
  qed
qed

lemma block_ranges_mem:
  "(x, y) \<in> set (block_ranges b lo hi) \<Longrightarrow> lo \<le> x \<and> x \<le> y \<and> y \<le> hi \<and> y - x < b"
proof (induction b lo hi rule: block_ranges.induct)
  case (1 b lo hi)
  show ?case
  proof (cases "0 < b \<and> lo \<le> hi")
    case True
    then have "block_ranges b lo hi = (lo, min (lo + b - 1) hi) # block_ranges b (lo + b) hi"
      by (subst block_ranges.simps) simp
    with 1(2) consider "(x, y) = (lo, min (lo + b - 1) hi)" | "(x, y) \<in> set (block_ranges b (lo + b) hi)"
      by auto
    then show ?thesis
    proof cases
      case 1
      with True show ?thesis by auto
    next
      case 2
      from "1.IH" [OF True this] show ?thesis by simp
    qed
  next
    case False
    then have "block_ranges b lo hi = []" by (subst block_ranges.simps) simp
    with 1(2) show ?thesis by simp
  qed
qed

end
