(* ===== verification/Indexer_Loops.thy ===== *)
theory Indexer_Loops
  imports Indexer_Facts
begin

text \<open>
  The batch loop and the polling loop of the event indexer against their specifications: the ranges
  of a poll, the logs of a chain, and what failed or skipped ranges leave out.
\<close>

section \<open>The batch loop runs the ranges\<close>

lemma batch_end_nat:
  assumes "unat to + unat batchSize < 2 ^ 64" "lo \<le> to" "0 < batchSize"
  shows "batch_end batchSize to lo = word_of_nat (min (unat lo + unat batchSize - 1) (unat to))"
proof -
  have pos: "0 < unat batchSize" using assms(3) by (simp add: word_less_nat_alt)
  have le: "unat lo \<le> unat to" using assms(2) by (simp add: word_le_nat_alt)
  have w: "lo + batchSize - 1 = word_of_nat (unat lo + unat batchSize - 1)"
    using pos by (simp add: of_nat_diff)
  moreover have "unat lo + unat batchSize - 1 < 2 ^ 64" using le assms(1) by linarith
  ultimately have "unat (lo + batchSize - 1) = unat lo + unat batchSize - 1"
    using unat_nat_u64 by metis
  then show ?thesis
    using w by (auto simp: batch_end_def Let_def min_def word_less_nat_alt)
qed

lemma batch_loop_ranges:
  assumes "unat toBlock + unat batchSize < 2 ^ 64" "0 < batchSize"
  shows "batch_loop L h chain flt query batchSize toBlock lo s =
    Some (run_ranges L h chain flt query (block_ranges (unat batchSize) (unat lo) (unat toBlock)) s)"
proof (induction "Suc (unat toBlock) - unat lo" arbitrary: lo s rule: less_induct)
  case less
  have pos: "0 < unat batchSize" using assms(2) by (simp add: word_less_nat_alt)
  show ?case
  proof (cases "lo \<le> toBlock")
    case False
    then have "\<not> unat lo \<le> unat toBlock" by (simp add: word_le_nat_alt)
    then have "block_ranges (unat batchSize) (unat lo) (unat toBlock) = []"
      by (subst block_ranges.simps) simp
    then show ?thesis using False by (subst batch_loop.simps) simp
  next
    case True
    then have le: "unat lo \<le> unat toBlock" by (simp add: word_le_nat_alt)
    then have nxt: "unat (lo + batchSize) = unat lo + unat batchSize"
      using assms(1) by (intro unat_add_u64) linarith
    note hi = batch_end_nat [OF assms(1) True assms(2)]
    have br: "block_ranges (unat batchSize) (unat lo) (unat toBlock) =
        (unat lo, min (unat lo + unat batchSize - 1) (unat toBlock)) #
        block_ranges (unat batchSize) (unat (lo + batchSize)) (unat toBlock)"
      using pos le by (subst block_ranges.simps) (simp add: nxt)
    have ih: "batch_loop L h chain flt query batchSize toBlock (lo + batchSize) s' =
        Some (run_ranges L h chain flt query
          (block_ranges (unat batchSize) (unat (lo + batchSize)) (unat toBlock)) s')" for s'
      using pos le by (intro less.hyps) (simp add: nxt)
    show ?thesis
      using True
      by (subst batch_loop.simps)
        (simp add: br ih hi gbind_def split: sum.split prod.split)
  qed
qed

definition ranges_of :: "ChainListener \<Rightarrow> u64 \<Rightarrow> u64 \<Rightarrow> (nat \<times> nat) list" where
  "ranges_of l lastBlock latest = block_ranges (unat (batch_size l)) (Suc (unat lastBlock)) (unat latest)"

lemma batch_size_pos: "0 < batch_size l" "0 < unat (batch_size l)" "unat (batch_size l) \<le> 5000"
  by (simp_all add: batch_size_def)

lemma poll_once_ranges:
  assumes "po_BlockNumber p = Inr latest" "lastBlock < latest" "unat latest < 2 ^ 63"
  shows "poll_once L h l p lastBlock s = Some
    (case run_ranges L h (ls_name l) (po_FilterLogs p) (listener_query L l) (ranges_of l lastBlock latest) s of
       (Inl pn, s1) \<Rightarrow> (Inl pn, s1) | (Inr u, s1) \<Rightarrow> (Inr latest, s1))"
proof -
  have "unat latest + unat (batch_size l) < 2 ^ 64"
    using assms(3) batch_size_pos(3) [of l] by simp
  note loop = batch_loop_ranges [OF this batch_size_pos(1)]
  have "unat (lastBlock + 1) = Suc (unat lastBlock)" by (rule unat_next [OF assms(2)])
  then show ?thesis
    using assms(1,2)
    by (simp add: poll_once_def loop ranges_of_def not_le [THEN iffD2] split: prod.split sum.split)
qed

lemma poll_once_idle:
  "po_BlockNumber p = Inl err \<Longrightarrow> poll_once L h l p lastBlock s = Some (Inr lastBlock, s)"
  "po_BlockNumber p = Inr latest \<Longrightarrow> latest \<le> lastBlock \<Longrightarrow> poll_once L h l p lastBlock s = Some (Inr lastBlock, s)"
  by (simp_all add: poll_once_def)

section \<open>A node that answers\<close>

text \<open>
  The logs of the contract by block, as \<^verbatim>\<open>eth_getLogs\<close> returns them: those of every block of the
  range, in the order of the blocks. A node is consistent when every range query answers so.
\<close>

definition answers_from :: "filter_query \<Rightarrow> (nat \<Rightarrow> eth_log list) \<Rightarrow> (filter_query \<Rightarrow> goerr + eth_log list) \<Rightarrow> bool"
where
  "answers_from query logs_of flt \<longleftrightarrow>
     (\<forall>a b. a \<le> b \<longrightarrow> flt (query\<lparr> fq_FromBlock := Some (int a), fq_ToBlock := Some (int b) \<rparr>) =
        Inr (concat (map logs_of [a..<Suc b])))"

lemma process_logs_append:
  "process_logs L h chain (xs @ ys) = gbind (process_logs L h chain xs) (\<lambda>_. process_logs L h chain ys)"
  by (induction xs) (simp_all add: gbind_assoc)

lemma batch_query_small:
  assumes "a < 2 ^ 63" "b < 2 ^ 63"
  shows "batch_query query (word_of_nat a) (word_of_nat b) =
    query\<lparr> fq_FromBlock := Some (int a), fq_ToBlock := Some (int b) \<rparr>"
proof -
  have "i64_of_u64 (word_of_nat n) = int n" if "n < 2 ^ 63" for n
  proof -
    have "unat (word_of_nat n :: u64) = n" using that by (intro unat_nat_u64) simp
    then show ?thesis using that by (simp only: i64_of_u64_small)
  qed
  with assms show ?thesis by (simp add: batch_query_def)
qed

lemma run_ranges_answered:
  assumes "answers_from query logs_of flt" "\<And>a b. (a, b) \<in> set rs \<Longrightarrow> a \<le> b \<and> b < 2 ^ 63"
  shows "run_ranges L h chain flt query rs =
    process_logs L h chain (concat (map logs_of (concat (map (\<lambda>(a, b). [a..<Suc b]) rs))))"
  using assms(2)
proof (induction rs)
  case Nil
  then show ?case by simp
next
  case (Cons ab rs)
  obtain a b where ab: "ab = (a, b)" by (rule prod.exhaust)
  then have le: "a \<le> b" "b < 2 ^ 63" using Cons.prems by auto
  then have "a < 2 ^ 63" by linarith
  then have "flt (batch_query query (word_of_nat a) (word_of_nat b)) = Inr (concat (map logs_of [a..<Suc b]))"
    using assms(1) le by (simp add: batch_query_small answers_from_def)
  moreover have "run_ranges L h chain flt query rs =
      process_logs L h chain (concat (map logs_of (concat (map (\<lambda>(a, b). [a..<Suc b]) rs))))"
    by (rule Cons.IH) (rule Cons.prems, simp)
  ultimately show ?case by (simp add: ab process_logs_append del: upt_Suc)
qed

lemma poll_once_answered:
  assumes "po_BlockNumber p = Inr latest" "lastBlock < latest" "unat latest < 2 ^ 63"
    and "answers_from (listener_query L l) logs_of (po_FilterLogs p)"
  shows "poll_once L h l p lastBlock s = Some
    (case process_logs L h (ls_name l) (concat (map logs_of [Suc (unat lastBlock)..<Suc (unat latest)])) s of
       (Inl pn, s1) \<Rightarrow> (Inl pn, s1) | (Inr u, s1) \<Rightarrow> (Inr latest, s1))"
proof -
  let ?rs = "ranges_of l lastBlock latest"
  have "a \<le> b \<and> b < 2 ^ 63" if "(a, b) \<in> set ?rs" for a b
    using block_ranges_mem [OF that [unfolded ranges_of_def]] assms(3) by simp
  note run = run_ranges_answered [OF assms(4) this]
  have "concat (map (\<lambda>(a, b). [a..<Suc b]) ?rs) = [Suc (unat lastBlock)..<Suc (unat latest)]"
    unfolding ranges_of_def by (rule block_ranges_cover [OF batch_size_pos(2)])
  then show ?thesis
    unfolding poll_once_ranges [OF assms(1-3)] by (simp only: run)
qed

text \<open>The height a sequence of polls reaches.\<close>

fun reached :: "u64 \<Rightarrow> poll list \<Rightarrow> u64" where
  "reached lastBlock [] = lastBlock"
| "reached lastBlock (p # ps) =
     (case po_BlockNumber p of Inl err \<Rightarrow> reached lastBlock ps
      | Inr latest \<Rightarrow> reached (if latest \<le> lastBlock then lastBlock else latest) ps)"

lemma reached_mono: "lastBlock \<le> reached lastBlock ps"
proof (induction ps arbitrary: lastBlock)
  case Nil
  then show ?case by simp
next
  case (Cons p ps)
  show ?case
  proof (cases "po_BlockNumber p")
    case (Inl err)
    then show ?thesis using Cons by simp
  next
    case (Inr latest)
    have "lastBlock \<le> (if latest \<le> lastBlock then lastBlock else latest)" by (simp add: not_le less_imp_le)
    also have "\<dots> \<le> reached (if latest \<le> lastBlock then lastBlock else latest) ps" by (rule Cons)
    finally show ?thesis using Inr by simp
  qed
qed

definition honest_polls :: "lib \<Rightarrow> ChainListener \<Rightarrow> (nat \<Rightarrow> eth_log list) \<Rightarrow> poll list \<Rightarrow> bool" where
  "honest_polls L l logs_of ps \<longleftrightarrow>
     list_all (\<lambda>p. (case po_BlockNumber p of Inl err \<Rightarrow> True | Inr b \<Rightarrow> unat b < 2 ^ 63) \<and>
       answers_from (listener_query L l) logs_of (po_FilterLogs p)) ps"

lemma poll_loop_answered:
  assumes "honest_polls L l logs_of ps"
  shows "poll_loop L h l ps lastBlock s = Some
    (case process_logs L h (ls_name l)
            (concat (map logs_of [Suc (unat lastBlock)..<Suc (unat (reached lastBlock ps))])) s of
       (Inl pn, s1) \<Rightarrow> (Inl pn, s1) | (Inr u, s1) \<Rightarrow> (Inr (reached lastBlock ps), s1))"
  using assms
proof (induction ps arbitrary: lastBlock s)
  case Nil
  then show ?case by simp
next
  case (Cons p ps)
  have ps: "honest_polls L l logs_of ps"
    and hp: "answers_from (listener_query L l) logs_of (po_FilterLogs p)"
    using Cons.prems by (simp_all add: honest_polls_def)
  note ih = Cons.IH [OF ps]
  show ?case
  proof (cases "\<exists>latest. po_BlockNumber p = Inr latest \<and> lastBlock < latest")
    case False
    then have "poll_once L h l p lastBlock s = Some (Inr lastBlock, s)" "reached lastBlock (p # ps) = reached lastBlock ps"
      by (cases "po_BlockNumber p"; auto simp: poll_once_idle not_less)+
    then show ?thesis by (simp only: poll_loop.simps option.case prod.case sum.case ih)
  next
    case True
    then obtain latest where b: "po_BlockNumber p = Inr latest" "lastBlock < latest" by blast
    then have small: "unat latest < 2 ^ 63" using Cons.prems by (simp add: honest_polls_def)
    have r: "reached lastBlock (p # ps) = reached latest ps" using b by (simp add: not_le [THEN iffD2])
    have "unat lastBlock < unat latest" "unat latest \<le> unat (reached latest ps)"
      using b(2) reached_mono [of latest ps] by (simp_all add: word_less_nat_alt word_le_nat_alt)
    then have split: "[Suc (unat lastBlock)..<Suc (unat (reached latest ps))] =
        [Suc (unat lastBlock)..<Suc (unat latest)] @ [Suc (unat latest)..<Suc (unat (reached latest ps))]"
      using upt_add_eq_append [of "Suc (unat lastBlock)" "Suc (unat latest)"
          "unat (reached latest ps) - unat latest"] by simp
    show ?thesis
      unfolding r split
      by (simp only: poll_loop.simps poll_once_answered [OF b small hp] map_append concat_append
          process_logs_append) (simp add: gbind_def ih split: prod.split sum.split del: upt_Suc)
  qed
qed

section \<open>What is never asked for\<close>

text \<open>The same poll, except that every request starting at block \<open>n\<close> or below fails.\<close>

definition fails_below :: "u64 \<Rightarrow> poll \<Rightarrow> poll" where
  "fails_below n p =
     p\<lparr> po_FilterLogs := (\<lambda>q. case fq_FromBlock q of
          None \<Rightarrow> po_FilterLogs p q
        | Some a \<Rightarrow> if a \<le> int (unat n) then Inl ''unavailable'' else po_FilterLogs p q) \<rparr>"

definition low_heights :: "poll list \<Rightarrow> bool" where
  "low_heights ps \<longleftrightarrow>
     list_all (\<lambda>p. case po_BlockNumber p of Inl err \<Rightarrow> True | Inr b \<Rightarrow> unat b < 2 ^ 63) ps"

lemma run_ranges_cong:
  assumes "\<And>a b. (a, b) \<in> set rs \<Longrightarrow>
    flt (batch_query query (word_of_nat a) (word_of_nat b)) = flt' (batch_query query (word_of_nat a) (word_of_nat b))"
  shows "run_ranges L h chain flt query rs s = run_ranges L h chain flt' query rs s"
  using assms
proof (induction rs arbitrary: s)
  case Nil
  then show ?case by simp
next
  case (Cons ab rs)
  obtain a b where "ab = (a, b)" by (rule prod.exhaust)
  moreover have "run_ranges L h chain flt query rs s' = run_ranges L h chain flt' query rs s'" for s'
    by (rule Cons.IH) (rule Cons.prems, simp)
  ultimately show ?case
    using Cons.prems [of a b] by (simp add: gbind_def split: sum.split prod.split)
qed

lemma poll_once_fails_below:
  assumes "unat n \<le> unat lastBlock" "low_heights [p]"
  shows "poll_once L h l (fails_below n p) lastBlock s = poll_once L h l p lastBlock s"
proof (cases "\<exists>latest. po_BlockNumber p = Inr latest \<and> lastBlock < latest")
  case False
  have "po_BlockNumber (fails_below n p) = po_BlockNumber p" by (simp add: fails_below_def)
  with False show ?thesis
    by (cases "po_BlockNumber p") (auto simp: poll_once_idle not_less)
next
  case True
  then obtain latest where b: "po_BlockNumber p = Inr latest" "lastBlock < latest" by blast
  then have small: "unat latest < 2 ^ 63" using assms(2) by (simp add: low_heights_def)
  have b': "po_BlockNumber (fails_below n p) = Inr latest" using b(1) by (simp add: fails_below_def)
  have "po_FilterLogs (fails_below n p) (batch_query q (word_of_nat x) (word_of_nat y)) =
      po_FilterLogs p (batch_query q (word_of_nat x) (word_of_nat y))"
    if "(x, y) \<in> set (ranges_of l lastBlock latest)" for x y q
  proof -
    have "Suc (unat lastBlock) \<le> x \<and> x \<le> y \<and> y \<le> unat latest"
      using block_ranges_mem [OF that [unfolded ranges_of_def]] by simp
    moreover from this have "x < 2 ^ 63" "y < 2 ^ 63" using small by linarith+
    moreover have "\<not> int x \<le> int (unat n)"
      using calculation(1) assms(1) by linarith
    ultimately show ?thesis
      by (simp add: batch_query_small fails_below_def)
  qed
  then have "run_ranges L h c (po_FilterLogs (fails_below n p)) q (ranges_of l lastBlock latest) s =
      run_ranges L h c (po_FilterLogs p) q (ranges_of l lastBlock latest) s" for c q
    by (rule run_ranges_cong)
  then show ?thesis
    by (simp only: poll_once_ranges [OF b small] poll_once_ranges [OF b' b(2) small])
qed

lemma poll_once_height:
  "poll_once L h l p lastBlock s = Some (Inr lb, s1) \<Longrightarrow> lastBlock \<le> lb"
  by (auto simp: poll_once_def not_le less_imp_le split: sum.splits if_splits option.splits prod.splits)

lemma poll_loop_fails_below:
  assumes "unat n \<le> unat lastBlock" "low_heights ps"
  shows "poll_loop L h l (map (fails_below n) ps) lastBlock s = poll_loop L h l ps lastBlock s"
  using assms
proof (induction ps arbitrary: lastBlock s)
  case Nil
  then show ?case by simp
next
  case (Cons p ps)
  have "low_heights [p]" "low_heights ps" using Cons.prems(2) by (simp_all add: low_heights_def)
  note once = poll_once_fails_below [OF Cons.prems(1) this(1)] and tl = this(2)
  have "poll_loop L h l (map (fails_below n) ps) lb s1 = poll_loop L h l ps lb s1"
    if "poll_once L h l p lastBlock s = Some (Inr lb, s1)" for lb s1
  proof (rule Cons.IH [OF _ tl])
    show "unat n \<le> unat lb"
      using poll_once_height [OF that] Cons.prems(1) by (simp add: word_le_nat_alt)
  qed
  then show ?case by (simp add: once split: option.split prod.split sum.split)
qed

lemma run_ranges_failing:
  "(\<And>q. \<exists>err. flt q = Inl err) \<Longrightarrow> run_ranges L h chain flt query rs s = (Inr (), s)"
proof (induction rs)
  case Nil
  then show ?case by simp
next
  case (Cons ab rs)
  obtain a b where ab: "ab = (a, b)" by (rule prod.exhaust)
  obtain err where "flt (batch_query query (word_of_nat a) (word_of_nat b)) = Inl err"
    using Cons.prems by blast
  then show ?case using Cons by (simp add: ab)
qed

end
