(* ===== verification/Indexer_Results.thy ===== *)
theory Indexer_Results
  imports Indexer_Loops Sample_World
begin

text \<open>
  The properties of the event indexer, and of the API reading what the indexer wrote.
\<close>

section \<open>Polling\<close>

text \<open>A node with one log at block 7 and the listener of one chain, for the witnesses.\<close>

definition sample_log :: eth_log where
  "sample_log =
     \<lparr> lg_Topics = [Keccak256 sample_lib (bytes_of_string registered_signature)],
       lg_Data = event_data (replicate 32 5) [replicate 20 7] [StringToBytes32 ''photo''] 100 200,
       lg_BlockNumber = 7, lg_TxHash = replicate 32 9 \<rparr>"

definition sample_logs :: "nat \<Rightarrow> eth_log list" where
  "sample_logs n = (if n = 7 then [sample_log] else [])"

definition sample_poll :: "u64 \<Rightarrow> poll" where
  "sample_poll latest =
     \<lparr> po_BlockNumber = Inr latest,
       po_FilterLogs = (\<lambda>q. case (fq_FromBlock q, fq_ToBlock q) of
          (Some a, Some b) \<Rightarrow> Inr (concat (map sample_logs [nat a..<Suc (nat b)]))
        | _ \<Rightarrow> Inl ''invalid range'') \<rparr>"

definition sample_listener :: ChainListener where
  "sample_listener =
     \<lparr> ls_name = ''sepolia'', ls_rpcURL = ''u'', ls_contractAddr = zero_address, ls_client = 1,
       ls_startBlock = 5, ls_backfillMode = True \<rparr>"

definition sample_events :: "(points, kv) EventHandler" where
  "sample_events =
     \<lparr> eh_cfg = ix_Load sample_env, eh_qdrant = Some (sample_qdrant, ix_Qdrant (ix_Load sample_env)),
       eh_redis = Some sample_redis \<rparr>"

lemma sample_polls_honest: "unat n < 2 ^ 63 \<Longrightarrow> honest_polls L l sample_logs [sample_poll n]"
  by (simp add: honest_polls_def answers_from_def sample_poll_def)

text \<open>
  C9: The listener handles every block once. Against a node that answers every range with the logs
  of its blocks, any number of polls with any growth of the chain has exactly the effect of handling
  the logs of the blocks after the start block up to the highest one seen, one by one in order: no
  batch boundary loses a block or repeats one, and the loop always ends.
\<close>
theorem blocks_handled_once:
  assumes "honest_polls L l logs_of polls" "start = start_block l (BlockNumber net (ls_client l))"
    and "height = reached start polls"
  shows "startEventListener L h net l polls s = Some
    (case process_logs L h (ls_name l) (concat (map logs_of [Suc (unat start)..<Suc (unat height)])) s of
       (Inl p, s1) \<Rightarrow> (Inl p, s1)
     | (Inr u, s1) \<Rightarrow> (Inr height, s1))"
  using poll_loop_answered [OF assms(1), of h start s]
  by (simp only: startEventListener_def flip: assms(2,3))

theorem blocks_handled_once_witness:
  "startEventListener sample_lib sample_events (sample_net []) sample_listener [sample_poll 6] ([], Map.empty) =
     Some (Inr 6, ([], Map.empty))"
proof -
  have start: "start_block sample_listener (BlockNumber (sample_net []) 1) = 5"
    by (simp add: start_block_def sample_listener_def)
  have height: "reached 5 [sample_poll 6] = 6" by (simp add: sample_poll_def)
  have six: "concat (map sample_logs [Suc (unat (5 :: u64))..<Suc (unat (6 :: u64))]) = []"
    by (simp add: sample_logs_def)
  have "ls_client sample_listener = 1" by (simp add: sample_listener_def)
  with start height six
    blocks_handled_once [OF sample_polls_honest [of 6], of 5 sample_listener "sample_net []" 6 sample_lib sample_events
      "([], Map.empty)"]
  show ?thesis by simp
qed

text \<open>
  C29: A failed request is never repeated. When a poll sees new blocks and the node refuses every
  request for logs, the listener still moves on to the new height, with nothing handled, and from
  then on behaves as if the blocks up to it could not be asked for at all.
\<close>
theorem failed_batches_are_lost:
  assumes "po_BlockNumber p = Inr latest" "lastBlock < latest" "unat latest < 2 ^ 63"
    and "\<And>q. \<exists>err. po_FilterLogs p q = Inl err" "low_heights ps"
  shows "poll_loop L h l (p # ps) lastBlock s = poll_loop L h l (map (fails_below latest) ps) latest s"
proof -
  have "poll_once L h l p lastBlock s = Some (Inr latest, s)"
    unfolding poll_once_ranges [OF assms(1-3)]
    by (simp add: run_ranges_failing [OF assms(4)])
  then show ?thesis
    using poll_loop_fails_below [of latest latest ps L h l s] assms(5) by simp
qed

theorem failed_batches_are_lost_witness:
  "poll_loop sample_lib sample_events sample_listener
     [(sample_poll 7)\<lparr>po_FilterLogs := \<lambda>q. Inl ''timeout''\<rparr>] 5 ([], Map.empty) = Some (Inr 7, ([], Map.empty))"
proof -
  let ?p = "(sample_poll 7)\<lparr>po_FilterLogs := \<lambda>q. Inl ''timeout''\<rparr>"
  have "po_BlockNumber ?p = Inr 7" by (simp add: sample_poll_def)
  from failed_batches_are_lost [OF this, of 5 "[]" sample_lib sample_events sample_listener] show ?thesis
    by (simp add: low_heights_def)
qed

text \<open>
  C38: A backfill skips the block it is told to start from. With a positive
  \<^verbatim>\<open>BACKFILL_FROM_BLOCK\<close>, what the listener does is the same when the node answers nothing for that
  block: its first request starts at the next one.
\<close>
theorem backfill_skips_its_start:
  assumes "0 < ix_BackfillFromBlock cfg" "new_listener L net cfg nm url addr = Some l" "low_heights ps"
  shows "startEventListener L h net l ps s =
    startEventListener L h net l (map (fails_below (ix_BackfillFromBlock cfg)) ps) s"
proof -
  have "ls_startBlock l = ix_BackfillFromBlock cfg"
    using assms(1,2) by (auto simp: new_listener_def Let_def split: sum.splits)
  then have "start_block l (BlockNumber net (ls_client l)) = ix_BackfillFromBlock cfg"
    using assms(1) by (simp add: start_block_def)
  then show ?thesis
    by (simp only: startEventListener_def poll_loop_fails_below [OF order.refl assms(3)])
qed

definition backfill_env :: "string \<Rightarrow> environ" where
  "backfill_env n k = (if k = ''BACKFILL_FROM_BLOCK'' then n else '''')"

lemma backfill_env_start:
  "strconv_Atoi n = Some i \<Longrightarrow> ix_BackfillFromBlock (ix_Load (backfill_env n)) = word_of_int i"
  by (simp add: ix_Load_def getEnvInt_valid backfill_env_def)

lemma sample_listens:
  "\<exists>l. new_listener sample_lib (sample_net []) cfg ''sepolia'' ''u'' ''0x01'' = Some l"
  by (simp add: new_listener_def sample_net_def Let_def)

theorem backfill_skips_its_start_witness:
  "\<exists>l. new_listener sample_lib (sample_net []) (ix_Load (backfill_env ''7'')) ''sepolia'' ''u'' ''0x01'' = Some l \<and>
     startEventListener sample_lib sample_events (sample_net []) l [sample_poll 9] ([], Map.empty) =
     startEventListener sample_lib sample_events (sample_net []) l [fails_below 7 (sample_poll 9)] ([], Map.empty)"
proof -
  obtain l where l: "new_listener sample_lib (sample_net []) (ix_Load (backfill_env ''7'')) ''sepolia'' ''u'' ''0x01'' = Some l"
    using sample_listens by blast
  have "strconv_Atoi ''7'' = Some 7"
    by (simp add: strconv_Atoi_def parse_nat_def digit_value_def)
  then have "ix_BackfillFromBlock (ix_Load (backfill_env ''7'')) = 7"
    by (simp add: backfill_env_start)
  with backfill_skips_its_start [OF _ l, of "[sample_poll 9]" sample_events "([], Map.empty)"] l show ?thesis
    by (simp add: low_heights_def sample_poll_def)
qed

text \<open>
  A negative \<^verbatim>\<open>BACKFILL_FROM_BLOCK\<close> silences the indexer. It is read as an unsigned number
  beyond every block, so on a chain of any realistic height no poll ever handles anything.
\<close>
theorem negative_backfill_is_silent:
  assumes "strconv_Atoi (env ''BACKFILL_FROM_BLOCK'') = Some n" "n < 0"
    and "new_listener L net (ix_Load env) nm url addr = Some l" "low_heights ps"
  shows "startEventListener L h net l ps s = Some (Inr (word_of_int n), s)"
proof -
  let ?b = "word_of_int n :: u64"
  have b: "ix_BackfillFromBlock (ix_Load env) = ?b"
    using assms(1) by (simp add: ix_Load_def getEnvInt_valid)
  have "int (unat ?b) = n mod 2 ^ 64" by (simp add: uint_word_of_int)
  also have "\<dots> = n + 2 ^ 64"
  proof -
    have "(n + 2 ^ 64) mod 2 ^ 64 = n + 2 ^ 64"
      using Atoi_range [OF assms(1)] assms(2) by (intro mod_pos_pos_trivial) simp_all
    then show ?thesis by (simp only: mod_add_self2)
  qed
  finally have "int (unat ?b) = n + 2 ^ 64" .
  then have "int (2 ^ 63) \<le> int (unat ?b)" using Atoi_range [OF assms(1)] by simp
  then have big: "2 ^ 63 \<le> unat ?b" by (simp only: of_nat_le_iff)
  then have "0 < ?b" by (simp add: word_less_nat_alt)
  then have "ls_startBlock l = ?b"
    using assms(3) b by (auto simp: new_listener_def Let_def split: sum.splits)
  with \<open>0 < ?b\<close> have st: "start_block l x = ?b" for x by (simp add: start_block_def)
  have "poll_loop L h l ps ?b s = Some (Inr ?b, s)"
    using assms(4)
  proof (induction ps)
    case Nil
    then show ?case by simp
  next
    case (Cons p ps)
    have "poll_once L h l p ?b s = Some (Inr ?b, s)"
    proof (cases "po_BlockNumber p")
      case (Inl err)
      then show ?thesis by (rule poll_once_idle(1))
    next
      case (Inr latest)
      then have "unat latest < 2 ^ 63" using Cons.prems by (simp add: low_heights_def)
      then have "latest \<le> ?b" using big by (simp only: word_le_nat_alt)
      then show ?thesis by (rule poll_once_idle(2) [OF Inr])
    qed
    then show ?case using Cons by (simp add: low_heights_def)
  qed
  then show ?thesis by (simp add: startEventListener_def st)
qed

theorem negative_backfill_is_silent_witness:
  "\<exists>l. new_listener sample_lib (sample_net []) (ix_Load (backfill_env ''-1'')) ''sepolia'' ''u'' ''0x01'' = Some l \<and>
     startEventListener sample_lib sample_events (sample_net []) l [sample_poll 9] ([], Map.empty) =
       Some (Inr (- 1), ([], Map.empty))"
proof -
  obtain l where l: "new_listener sample_lib (sample_net []) (ix_Load (backfill_env ''-1'')) ''sepolia'' ''u'' ''0x01'' = Some l"
    using sample_listens by blast
  have "strconv_Atoi (backfill_env ''-1'' ''BACKFILL_FROM_BLOCK'') = Some (- 1)"
    by (simp add: strconv_Atoi_def parse_nat_def digit_value_def backfill_env_def)
  from negative_backfill_is_silent [OF this _ l, of "[sample_poll 9]" sample_events "([], Map.empty)"] l
  show ?thesis by (simp add: low_heights_def sample_poll_def)
qed

section \<open>Handling a log\<close>

text \<open>
  C30: A crafted offset ends the process. A registration log whose first or second array offset is at
  least \<open>2 ^ 63 - 32\<close> passes the length check, which compares a wrapped or negative number, and the
  slice that follows panics before the log or anything after it has had an effect.
\<close>
theorem crafted_offset_panics:
  assumes "sig_registered L v" "128 \<le> length (lg_Data v)" "length (lg_Data v) < 2 ^ 63"
    and "2 ^ 63 - 32 \<le> nat_of_be (take 32 (drop 32 (lg_Data v))) mod 2 ^ 64 \<or>
      (\<exists>ps. event_array (lg_Data v) 12 (big_Uint64 (big_SetBytes (take 32 (drop 32 (lg_Data v))))) = Inr ps) \<and>
      2 ^ 63 - 32 \<le> nat_of_be (take 32 (drop 64 (lg_Data v))) mod 2 ^ 64"
  shows "process_logs L h chain (v # logs) s = (Inl SliceOutOfRange, s)"
proof -
  have u: "unat (big_Uint64 (big_SetBytes bs)) = nat_of_be bs mod 2 ^ 64" for bs
    by (simp add: big_Uint64_SetBytes unat_of_nat)
  have p: "event_array (lg_Data v) skip (big_Uint64 (big_SetBytes bs)) = Inl SliceOutOfRange"
    if "2 ^ 63 - 32 \<le> nat_of_be bs mod 2 ^ 64" for skip bs
  proof (rule event_array_panics)
    show "2 ^ 63 - 32 \<le> unat (big_Uint64 (big_SetBytes bs))" using that by (simp only: u)
    show "length (lg_Data v) < 2 ^ 63" by (rule assms(3))
    show "32 \<le> length (lg_Data v)" using assms(2) by simp
  qed
  from assms(4) have "parse_event L chain v = Inl SliceOutOfRange"
    using p [of _ 12] p [of _ 0] by (auto simp: parse_event_def Let_def)
  then show ?thesis
    using assms(2) by (simp add: gbind_def processEventLog_dispatch(1) [OF assms(1)] handleConsentRegistered_def)
qed

theorem crafted_offset_panics_witness:
  "process_logs sample_lib sample_events ''sepolia''
     [sample_log\<lparr>lg_Data := replicate 32 0 @ be_bytes 32 (2 ^ 64 - 1) @ replicate 64 0\<rparr>] ([], Map.empty) =
   (Inl SliceOutOfRange, [], Map.empty)"
proof -
  let ?v = "sample_log\<lparr>lg_Data := replicate 32 0 @ be_bytes 32 (2 ^ 64 - 1) @ replicate 64 0\<rparr>"
  have "sig_registered sample_lib ?v" by (simp add: sig_registered_def sample_log_def)
  moreover have "128 \<le> length (lg_Data ?v)" "length (lg_Data ?v) < 2 ^ 63" by simp_all
  moreover have "take 32 (drop 32 (lg_Data ?v)) = be_bytes 32 (2 ^ 64 - 1)" by simp
  moreover have "nat_of_be (be_bytes 32 (2 ^ 64 - 1)) mod 2 ^ 64 = 2 ^ 64 - 1"
    by (simp only: nat_of_be_be_bytes) simp
  ultimately show ?thesis
    by (intro crafted_offset_panics disjI1) (simp_all only:, simp)
qed
end
