(* ===== verification/Indexer_Replay.thy ===== *)
theory Indexer_Replay
  imports Indexer_Results
begin

text \<open>
  What the indexer makes of a chain, without batches, stores or other chains: the cache of a chain is
  the replay of its logs. One log's effect on the stores is compared with its effect on the replay.
\<close>

section \<open>The replay of a chain\<close>

type_synonym documents = "string \<rightharpoonup> ConsentCache"

definition log_effect :: "lib \<Rightarrow> string \<Rightarrow> eth_log \<Rightarrow> documents \<Rightarrow> documents" where
  "log_effect L chain v M =
     (if sig_registered L v then
        (if length (lg_Data v) < 128 then M
         else case parse_event L chain v of
           Inl p \<Rightarrow> M
         | Inr d \<Rightarrow> M(cc_ConsentID d \<mapsto> clean_cache d))
      else if sig_revoked L v then
        (if length (lg_Data v) < 32 then M
         else M(HashHex L (BytesToHash L (take 32 (lg_Data v))) := None))
      else M)"

definition replay :: "lib \<Rightarrow> string \<Rightarrow> eth_log list \<Rightarrow> documents \<Rightarrow> documents" where
  "replay L chain vs M = fold (log_effect L chain) vs M"

lemma replay_simps [simp]:
  "replay L chain [] M = M"
  "replay L chain (vs @ ws) M = replay L chain ws (replay L chain vs M)"
  "replay L chain [v] M = log_effect L chain v M"
  by (simp_all add: replay_def)

section \<open>One log\<close>

definition no_colon :: "string \<Rightarrow> bool" where
  "no_colon s \<longleftrightarrow> CHR '':'' \<notin> set s"

lemma parse_event_chain: "parse_event L chain v = Inr d \<Longrightarrow> cc_Chain d = chain"
  by (auto simp: parse_event_def Let_def rbind_Inr_iff)

text \<open>A document that is put, or deleted, changes its own entry of its own chain.\<close>

lemma put_documents:
  assumes "redis_ok srv view" "CacheConsent (Some srv) d t r = (Inr None, r')" "no_colon (cc_Chain d)" "no_colon ch"
  shows "cached view r' ch =
    (if ch = cc_Chain d then (cached view r ch)(cc_ConsentID d \<mapsto> clean_cache d) else cached view r ch)"
proof
  fix i
  show "cached view r' ch i = (if ch = cc_Chain d
    then (cached view r ch)(cc_ConsentID d \<mapsto> clean_cache d) else cached view r ch) i"
  proof (cases "ch = cc_Chain d \<and> i = cc_ConsentID d")
    case True
    then show ?thesis using redis_store.put_found [OF assms(1,2)] by simp
  next
    case False
    then have "keys_apart (cc_Chain d) (cc_ConsentID d) ch i"
      using assms(3,4) by (auto simp: keys_apart_iff no_colon_def)
    then show ?thesis using redis_store.put_apart [OF assms(1,2)] False by auto
  qed
qed

lemma del_documents:
  assumes "redis_ok srv view" "InvalidateConsent (Some srv) chain i r = (Inr None, r')" "no_colon chain" "no_colon ch"
  shows "cached view r' ch = (if ch = chain then (cached view r ch)(i := None) else cached view r ch)"
proof
  fix j
  show "cached view r' ch j = (if ch = chain then (cached view r ch)(i := None) else cached view r ch) j"
  proof (cases "ch = chain \<and> j = i")
    case True
    then show ?thesis using redis_store.del_found [OF assms(1,2)] by simp
  next
    case False
    then have "keys_apart chain i ch j" using assms(3,4) by (auto simp: keys_apart_iff no_colon_def)
    then show ?thesis using redis_store.del_apart [OF assms(1,2)] False by auto
  qed
qed

lemma other_log:
  assumes "\<not> sig_registered L v" "\<not> sig_revoked L v"
  shows "processEventLog L h chain v s = (Inr (), s)"
  using assms
  by (cases "lg_Topics v") (auto simp: processEventLog_def sig_registered_def sig_revoked_def Let_def)

lemma handleConsentRevoked_redis:
  assumes "handleConsentRevoked L h chain v (q, r) = (Inr u, q', r')" "32 \<le> length (lg_Data v)" "eh_redis h = Some srv"
    "redis_up srv"
  shows "InvalidateConsent (Some srv) chain (HashHex L (BytesToHash L (take 32 (lg_Data v)))) r = (Inr None, r')"
proof -
  let ?i = "HashHex L (BytesToHash L (take 32 (lg_Data v)))"
  obtain r1 where "InvalidateConsent (Some srv) chain ?i r = (Inr None, r1)"
    using redis_upD(2) [OF assms(4)] by blast
  with assms(1-3) show ?thesis
    by (auto simp: handleConsentRevoked_def Let_def gbind_def gzoom_def ix_redis_same
        split: prod.splits sum.splits if_splits)
qed

lemma processEventLog_effect:
  assumes "processEventLog L h chain v (q, r) = (Inr u, q', r')"
    and "eh_redis h = Some srv" "redis_ok srv view" "redis_up srv" "no_colon chain" "no_colon ch"
  shows "cached view r' ch = (if ch = chain then log_effect L chain v (cached view r ch) else cached view r ch)"
proof -
  consider (registered) "sig_registered L v" | (revoked) "\<not> sig_registered L v" "sig_revoked L v"
    | (other) "\<not> sig_registered L v" "\<not> sig_revoked L v" by blast
  then show ?thesis
  proof cases
    case registered
    note run = assms(1) [unfolded processEventLog_dispatch(1) [OF registered] handleConsentRegistered_def]
    show ?thesis
    proof (cases "length (lg_Data v) < 128")
      case True
      with run have "r' = r" by simp
      with True registered show ?thesis by (simp add: log_effect_def)
    next
      case False
      with run obtain d where d: "parse_event L chain v = Inr d"
        by (cases "parse_event L chain v") auto
      obtain r1 where c: "CacheConsent (Some srv) d hours24 r = (Inr None, r1)"
        using redis_upD(1) [OF assms(4)] by blast
      have "128 \<le> length (lg_Data v)" using False by simp
      with c assms(1) have "r' = r1"
        using processEventLog_registered [OF registered _ d assms(2), of q r] by simp
      with c have c: "CacheConsent (Some srv) d hours24 r = (Inr None, r')" by simp
      show ?thesis
        using put_documents [OF assms(3) c _ assms(6)] assms(5) registered False d
        by (simp add: parse_event_chain log_effect_def)
    qed
  next
    case revoked
    note run = assms(1) [unfolded processEventLog_dispatch(2) [OF revoked(2)]]
    show ?thesis
    proof (cases "length (lg_Data v) < 32")
      case True
      with run have "r' = r" by (simp add: handleConsentRevoked_def)
      with True revoked show ?thesis by (simp add: log_effect_def)
    next
      case False
      then have "32 \<le> length (lg_Data v)" by simp
      note c = handleConsentRevoked_redis [OF run this assms(2,4)]
      show ?thesis
        using del_documents [OF assms(3) c assms(5,6)] revoked False by (simp add: log_effect_def)
    qed
  next
    case other
    with assms(1) have "r' = r" by (simp add: other_log)
    with other show ?thesis by (simp add: log_effect_def)
  qed
qed

end
