(* ===== verification/Indexer_Concurrent.thy ===== *)
theory Indexer_Concurrent
  imports Indexer_Replay
begin

text \<open>
  The event indexer as one process, \<^verbatim>\<open>main\<close> of \<^verbatim>\<open>backend/event-indexer/cmd/main.go\<close>: a goroutine per
  listener, and the one handler they share. \<^verbatim>\<open>processEventLog\<close> holds the handler's mutex from its
  first to its last line, so a log is one step; between two logs, and while a listener waits for its
  node, the others run.
\<close>

section \<open>Listeners\<close>

text \<open>
  Where a listener is: about to read its first height, waiting for the next poll, or inside the batch
  loop with the next block to ask for, the last one, and the logs of the current batch that are still
  to be handled. \<open>ln_start\<close> and \<open>ln_handled\<close> only record where it began and what it has handled.
\<close>

datatype mode = Starting | Polling | Batch u64 u64 "eth_log list" | Ended

record listener =
  ln_chain :: ChainListener
  ln_mode :: mode
  ln_last :: u64
  ln_start :: u64
  ln_handled :: "eth_log list"

text \<open>What the node of a listener may answer.\<close>

record node =
  nd_block :: "goerr + u64 \<Rightarrow> bool"
  nd_logs :: "filter_query \<Rightarrow> goerr + eth_log list \<Rightarrow> bool"

text \<open>
  The steps of one listener: those that leave the stores alone. A poll that sees no new block, or no
  block at all, changes nothing.
\<close>

inductive listener_step :: "lib \<Rightarrow> node \<Rightarrow> bool \<Rightarrow> listener \<Rightarrow> listener \<Rightarrow> bool" for L nd cancelled where
  begin_polling: "ln_mode l = Starting \<Longrightarrow> nd_block nd answer \<Longrightarrow> b = start_block (ln_chain l) answer \<Longrightarrow>
     listener_step L nd cancelled l (l\<lparr>ln_mode := Polling, ln_last := b, ln_start := b\<rparr>)"
| poll: "ln_mode l = Polling \<Longrightarrow> nd_block nd (Inr latest) \<Longrightarrow> ln_last l < latest \<Longrightarrow>
     listener_step L nd cancelled l (l\<lparr>ln_mode := Batch (ln_last l + 1) latest []\<rparr>)"
| refused: "ln_mode l = Batch lo to [] \<Longrightarrow> lo \<le> to \<Longrightarrow>
     nd_logs nd (batch_query (listener_query L (ln_chain l)) lo (batch_end (batch_size (ln_chain l)) to lo)) (Inl err) \<Longrightarrow>
     listener_step L nd cancelled l (l\<lparr>ln_mode := Batch (lo + batch_size (ln_chain l)) to []\<rparr>)"
| fetched: "ln_mode l = Batch lo to [] \<Longrightarrow> lo \<le> to \<Longrightarrow>
     nd_logs nd (batch_query (listener_query L (ln_chain l)) lo (batch_end (batch_size (ln_chain l)) to lo)) (Inr logs) \<Longrightarrow>
     listener_step L nd cancelled l (l\<lparr>ln_mode := Batch (lo + batch_size (ln_chain l)) to logs\<rparr>)"
| caught_up: "ln_mode l = Batch lo to [] \<Longrightarrow> \<not> lo \<le> to \<Longrightarrow>
     listener_step L nd cancelled l (l\<lparr>ln_mode := Polling, ln_last := to\<rparr>)"
| end_polling: "ln_mode l = Polling \<Longrightarrow> cancelled \<Longrightarrow>
     listener_step L nd cancelled l (l\<lparr>ln_mode := Ended\<rparr>)"

record ('q, 'r) indexer =
  in_stores :: "'q \<times> 'r"
  in_listeners :: "listener list"
  in_cancelled :: bool
  in_panic :: "go_panic option"
  in_closed :: "resource list option"

text \<open>
  A panic in the handler ends the process; \<^verbatim>\<open>main\<close> returns when every listener has (each having
  closed its own connection) and closes the stores it has clients of.
\<close>

inductive indexer_step ::
  "lib \<Rightarrow> ('q, 'r) EventHandler \<Rightarrow> (string \<Rightarrow> node) \<Rightarrow> ('q, 'r) indexer \<Rightarrow> ('q, 'r) indexer \<Rightarrow> bool"
  for L h nodes where
  listens: "in_panic x = None \<Longrightarrow> i < length (in_listeners x) \<Longrightarrow> l = in_listeners x ! i \<Longrightarrow>
     listener_step L (nodes (ls_name (ln_chain l))) (in_cancelled x) l l' \<Longrightarrow>
     indexer_step L h nodes x (x\<lparr>in_listeners := (in_listeners x)[i := l']\<rparr>)"
| handles: "in_panic x = None \<Longrightarrow> i < length (in_listeners x) \<Longrightarrow> l = in_listeners x ! i \<Longrightarrow>
     ln_mode l = Batch lo to (v # vs) \<Longrightarrow>
     processEventLog L h (ls_name (ln_chain l)) v (in_stores x) = (Inr u, s) \<Longrightarrow>
     indexer_step L h nodes x (x\<lparr>in_stores := s, in_listeners := (in_listeners x)
       [i := l\<lparr>ln_mode := Batch lo to vs, ln_handled := ln_handled l @ [v]\<rparr>]\<rparr>)"
| panics: "in_panic x = None \<Longrightarrow> i < length (in_listeners x) \<Longrightarrow> l = in_listeners x ! i \<Longrightarrow>
     ln_mode l = Batch lo to (v # vs) \<Longrightarrow>
     processEventLog L h (ls_name (ln_chain l)) v (in_stores x) = (Inl p, s) \<Longrightarrow>
     indexer_step L h nodes x (x\<lparr>in_stores := s, in_panic := Some p\<rparr>)"
| stop_signal: "in_panic x = None \<Longrightarrow> \<not> in_cancelled x \<Longrightarrow> indexer_step L h nodes x (x\<lparr>in_cancelled := True\<rparr>)"
| exits: "in_panic x = None \<Longrightarrow> in_cancelled x \<Longrightarrow> in_closed x = None \<Longrightarrow>
     \<forall>l\<in>set (in_listeners x). ln_mode l = Ended \<Longrightarrow>
     indexer_step L h nodes x (x\<lparr>in_closed := Some
       ((if eh_qdrant h \<noteq> None then [QdrantConn] else []) @ (if eh_redis h \<noteq> None then [RedisConn] else []))\<rparr>)"

inductive_cases listener_stepE: "listener_step L nd cancelled l l'"
inductive_cases indexer_stepE: "indexer_step L h nodes x x'"

text \<open>The listeners \<^verbatim>\<open>main\<close> starts: one per configured chain whose node answers.\<close>

definition new_listeners :: "lib \<Rightarrow> rpc \<Rightarrow> IxConfig \<Rightarrow> listener list" where
  "new_listeners L net cfg =
     map (\<lambda>c. \<lparr> ln_chain = c, ln_mode = Starting, ln_last = 0, ln_start = 0, ln_handled = [] \<rparr>)
       (List.map_filter (\<lambda>(nm, rpcURL, contract). new_listener L net cfg nm rpcURL contract) (started_chains cfg))"

definition indexer_init :: "lib \<Rightarrow> rpc \<Rightarrow> IxConfig \<Rightarrow> 'q \<times> 'r \<Rightarrow> ('q, 'r) indexer" where
  "indexer_init L net cfg s =
     \<lparr> in_stores = s, in_listeners = new_listeners L net cfg, in_cancelled = False, in_panic = None,
       in_closed = None \<rparr>"

section \<open>The names of the chains\<close>

definition names :: "('q, 'r) indexer \<Rightarrow> string list" where
  "names x = map (ls_name \<circ> ln_chain) (in_listeners x)"

lemma new_listener_name: "new_listener L net cfg nm u c = Some l \<Longrightarrow> ls_name l = nm"
  by (auto simp: new_listener_def Let_def split: sum.splits if_splits)

lemma map_filter_names:
  "map ls_name (List.map_filter (\<lambda>(nm, u, c). new_listener L net cfg nm u c) xs) =
     map fst (filter (\<lambda>(nm, u, c). new_listener L net cfg nm u c \<noteq> None) xs)"
  by (induction xs) (auto simp: List.map_filter_def new_listener_name)

lemma distinct_map_filterI: "distinct (map f xs) \<Longrightarrow> distinct (map f (filter P xs))"
  by (induction xs) auto

lemma chain_table_names:
  "distinct (map fst (chain_table cfg))" "list_all no_colon (map fst (chain_table cfg))"
  by (simp_all add: chain_table_def Let_def no_colon_def)

lemma indexer_names:
  "distinct (names (indexer_init L net cfg s))" "list_all no_colon (names (indexer_init L net cfg s))"
proof -
  have n: "names (indexer_init L net cfg s) = map fst (filter (\<lambda>(nm, u, c). new_listener L net cfg nm u c \<noteq> None)
      (filter (\<lambda>(nm, rpcURL, contract). \<not> (rpcURL = '''' \<or> contract = '''')) (chain_table cfg)))"
    unfolding names_def indexer_init_def new_listeners_def started_chains_def
    using map_filter_names [of L net cfg] by (simp add: comp_def)
  show "distinct (names (indexer_init L net cfg s))"
    unfolding n by (intro distinct_map_filterI chain_table_names)
  show "list_all no_colon (names (indexer_init L net cfg s))"
    using chain_table_names(2) [of cfg] unfolding n by (auto simp: list_all_iff)
qed

lemma listener_step_chain: "listener_step L nd c l l' \<Longrightarrow> ln_chain l' = ln_chain l"
  by (erule listener_stepE) simp_all

lemma indexer_step_names:
  assumes "indexer_step L h nodes x x'"
  shows "names x' = names x"
  using assms
proof cases
  case (listens i l l')
  then show ?thesis
    using listener_step_chain [OF listens(5)] by (simp add: names_def map_update list_update_same_conv)
qed (simp_all add: names_def map_update list_update_same_conv)

section \<open>Each chain's cache follows the replay of its listener's logs\<close>

text \<open>The documents of every chain are related, by \<open>R\<close>, to the replay of the logs its listener handled.\<close>

definition tracked ::
  "(documents \<Rightarrow> documents \<Rightarrow> bool) \<Rightarrow> lib \<Rightarrow> ('r \<Rightarrow> string \<rightharpoonup> rval) \<Rightarrow> 'r \<Rightarrow> ('q, 'r) indexer \<Rightarrow> bool" where
  "tracked R L view r0 x \<longleftrightarrow>
     (in_panic x = None \<longrightarrow> (\<forall>l\<in>set (in_listeners x). let nm = ls_name (ln_chain l) in
        R (cached view (snd (in_stores x)) nm) (replay L nm (ln_handled l) (cached view r0 nm))))"

lemma listener_step_handled: "listener_step L nd c l l' \<Longrightarrow> ln_handled l' = ln_handled l"
  by (erule listener_stepE) simp_all

lemma names_at: "i < length (in_listeners x) \<Longrightarrow> ls_name (ln_chain (in_listeners x ! i)) = names x ! i"
  by (simp add: names_def)

text \<open>
  What the process relies on to keep such a relation: one log relates, on its own chain, the documents
  after it to its effect on those before, and on every other chain to those before; the relation is
  transitive, and an effect respects it.
\<close>

locale log_tracker =
  fixes R :: "documents \<Rightarrow> documents \<Rightarrow> bool" and L :: lib and h :: "('q, 'r) EventHandler"
    and view :: "'r \<Rightarrow> string \<rightharpoonup> rval" and live :: bool
  assumes effect: "live \<Longrightarrow> processEventLog L h chain v (q, r) = (Inr u, q', r') \<Longrightarrow> no_colon chain \<Longrightarrow> no_colon ch \<Longrightarrow>
      R (cached view r' ch) (if ch = chain then log_effect L chain v (cached view r ch) else cached view r ch)"
    and rel_refl: "R M M"
    and rel_trans: "R M N \<Longrightarrow> R N K \<Longrightarrow> R M K"
    and rel_effect: "R M N \<Longrightarrow> R (log_effect L chain v M) (log_effect L chain v N)"
begin

lemma tracked_init: "tracked R L view (snd s) (indexer_init L net cfg s)"
  by (auto simp: tracked_def indexer_init_def new_listeners_def Let_def rel_refl)

lemma tracked_step:
  assumes "indexer_step L h nodes x x'" "tracked R L view r0 x" "live"
    and "distinct (names x)" "list_all no_colon (names x)"
  shows "tracked R L view r0 x'"
  using assms(1)
proof cases
  case (listens i l l')
  have "in_listeners x ! i \<in> set (in_listeners x)" using listens(3) by simp
  with listens assms(2) listener_step_chain [OF listens(5)] listener_step_handled [OF listens(5)]
  show ?thesis
    by (auto simp: tracked_def Let_def dest!: set_update_subset_insert [THEN subsetD])
next
  case (handles i l lo to v vs u s)
  let ?ls = "in_listeners x" and ?nm = "ls_name (ln_chain l)"
  let ?l' = "l\<lparr>ln_mode := Batch lo to vs, ln_handled := ln_handled l @ [v]\<rparr>"
  obtain q r q' r' where s: "in_stores x = (q, r)" "s = (q', r')" by (metis surj_pair)
  have nc: "no_colon (ls_name (ln_chain k))" if "k \<in> set ?ls" for k
    using assms(5) that by (auto simp: names_def list_all_iff)
  have mem: "l \<in> set ?ls" using handles(3,4) by simp
  note eff = effect [OF assms(3) handles(6) [unfolded s] nc [OF mem]]
  have old: "R (cached view r (ls_name (ln_chain k)))
      (replay L (ls_name (ln_chain k)) (ln_handled k) (cached view r0 (ls_name (ln_chain k))))"
    if "k \<in> set ?ls" for k
    using assms(2) that handles(2) s(1) by (simp add: tracked_def Let_def)
  have "R (cached view r' (ls_name (ln_chain k)))
      (replay L (ls_name (ln_chain k)) (ln_handled k) (cached view r0 (ls_name (ln_chain k))))"
    if inl: "k \<in> set (?ls[i := ?l'])" for k
  proof -
    obtain j where j: "j < length ?ls" "k = ?ls[i := ?l'] ! j"
      using inl unfolding in_set_conv_nth length_list_update by blast
    show ?thesis
    proof (cases "j = i")
      case True
      then have "k = ?l'" using j by simp
      then show ?thesis using rel_trans [OF eff [OF nc [OF mem]]] rel_effect [OF old [OF mem]] by simp
    next
      case False
      then have k: "k = ?ls ! j" "k \<in> set ?ls" using j by simp_all
      have "length (names x) = length ?ls" by (simp add: names_def)
      then have "names x ! j \<noteq> names x ! i"
        using nth_eq_iff_index_eq [OF assms(4), of j i] False j(1) handles(3) by simp
      then have "ls_name (ln_chain k) \<noteq> ?nm"
        using k(1) j(1) handles(3,4) names_at by metis
      then show ?thesis using rel_trans [OF eff [OF nc [OF k(2)]]] old [OF k(2)] by simp
    qed
  qed
  then show ?thesis using handles(1) s(2) by (simp add: tracked_def Let_def)
qed (use assms(2) in \<open>simp_all add: tracked_def\<close>)

lemma tracked_reach:
  assumes "(indexer_step L h nodes)\<^sup>*\<^sup>* (indexer_init L net cfg s0) x" "live"
  shows "tracked R L view (snd s0) x"
  using assms(1)
proof (induction rule: rtranclp_induct)
  case base
  show ?case by (rule tracked_init)
next
  case (step x x')
  have nm: "names x = names (indexer_init L net cfg s0)"
    using step.hyps(1) by (induction rule: rtranclp_induct) (simp_all add: indexer_step_names)
  have "distinct (names x)" "list_all no_colon (names x)" unfolding nm by (rule indexer_names)+
  then show ?case using tracked_step [OF step.hyps(2) step.IH assms(2)] by blast
qed

end

text \<open>A Redis that does what it is told and forgets nothing: the documents are equal to the replay.\<close>

interpretation exact: log_tracker "(=)" L h view "eh_redis h = Some srv \<and> redis_ok srv view \<and> redis_up srv"
  for L h view srv
proof
  show "cached view r' ch = (if ch = chain then log_effect L chain v (cached view r ch) else cached view r ch)"
    if "eh_redis h = Some srv \<and> redis_ok srv view \<and> redis_up srv"
      "processEventLog L h chain v (q, r) = (Inr u, q', r')" "no_colon chain" "no_colon ch"
    for chain v q r u q' r' ch
    by (rule processEventLog_effect [OF that(2) that(1) [THEN conjunct1] that(1) [THEN conjunct2, THEN conjunct1]
      that(1) [THEN conjunct2, THEN conjunct2] that(3,4)])
qed simp_all

section \<open>Every listener handles the logs of its blocks, in order\<close>

text \<open>A node that knows one sequence of logs, and answers every range of blocks with it.\<close>

definition honest_node :: "lib \<Rightarrow> ChainListener \<Rightarrow> (nat \<Rightarrow> eth_log list) \<Rightarrow> node \<Rightarrow> bool" where
  "honest_node L c logs_of nd \<longleftrightarrow>
     (\<forall>b. nd_block nd (Inr b) \<longrightarrow> unat b < 2 ^ 63) \<and>
     (\<forall>a b ans. a \<le> b \<longrightarrow>
        nd_logs nd ((listener_query L c)\<lparr> fq_FromBlock := Some (int a), fq_ToBlock := Some (int b) \<rparr>) ans \<longrightarrow>
        ans = Inr (concat (map logs_of [a..<Suc b])))"

definition logs_upto :: "(nat \<Rightarrow> eth_log list) \<Rightarrow> u64 \<Rightarrow> nat \<Rightarrow> eth_log list" where
  "logs_upto logs_of b n = concat (map logs_of [Suc (unat b)..<n])"

definition progress :: "(nat \<Rightarrow> eth_log list) \<Rightarrow> listener \<Rightarrow> bool" where
  "progress logs_of l \<longleftrightarrow>
     (case ln_mode l of
        Starting \<Rightarrow> ln_handled l = []
      | Batch lo to vs \<Rightarrow>
          unat to < 2 ^ 63 \<and> ln_start l \<le> ln_last l \<and> ln_last l < lo \<and>
          ln_last l < to \<and> unat lo \<le> unat to + 5000 \<and>
          ln_handled l @ vs = logs_upto logs_of (ln_start l) (min (unat lo) (Suc (unat to)))
      | _ \<Rightarrow> ln_start l \<le> ln_last l \<and>
          ln_handled l = logs_upto logs_of (ln_start l) (Suc (unat (ln_last l))))"

lemma logs_upto_append:
  "Suc (unat b) \<le> m \<Longrightarrow> m \<le> n \<Longrightarrow>
    logs_upto logs_of b m @ concat (map logs_of [m..<n]) = logs_upto logs_of b n"
  unfolding logs_upto_def using upt_add_eq_append [of "Suc (unat b)" m "n - m"]
  by (simp flip: concat_append map_append)

lemma progress_fetch:
  assumes "honest_node L (ln_chain l) logs_of nd" "progress logs_of l" "ln_mode l = Batch lo to []" "lo \<le> to"
    and "nd_logs nd (batch_query (listener_query L (ln_chain l)) lo (batch_end (batch_size (ln_chain l)) to lo)) ans"
  shows "\<exists>logs. ans = Inr logs \<and> progress logs_of (l\<lparr>ln_mode := Batch (lo + batch_size (ln_chain l)) to logs\<rparr>)"
proof -
  let ?bs = "batch_size (ln_chain l)"
  define a where "a = unat lo"
  define e where "e = min (a + unat ?bs - 1) (unat to)"
  have old: "unat to < 2 ^ 63" "ln_start l \<le> ln_last l" "ln_last l < lo" "ln_last l < to"
    "ln_handled l = logs_upto logs_of (ln_start l) (min a (Suc (unat to)))"
    using assms(2,3) by (simp_all add: progress_def a_def)
  have le: "a \<le> unat to" using assms(4) by (simp add: a_def word_le_nat_alt)
  note bs = batch_size_pos [of "ln_chain l"]
  have sum: "unat (lo + ?bs) = a + unat ?bs"
    unfolding a_def using le bs(3) old(1) by (intro unat_add_u64) (simp add: a_def)
  have ae: "a \<le> e" "e \<le> unat to" using le bs(2) by (auto simp: e_def)
  then have small: "a < 2 ^ 63" "e < 2 ^ 63" using old(1) by linarith+
  have "unat to + unat ?bs < 2 ^ 64" using old(1) bs(3) by simp
  then have be: "batch_end ?bs to lo = word_of_nat e"
    unfolding e_def a_def using assms(4) bs(1) by (intro batch_end_nat)
  have lo: "lo = word_of_nat a" by (simp add: a_def)
  have "nd_logs nd ((listener_query L (ln_chain l))\<lparr> fq_FromBlock := Some (int a), fq_ToBlock := Some (int e) \<rparr>) ans"
    using assms(5) unfolding be by (subst (asm) lo) (simp only: batch_query_small [OF small])
  then have ans: "ans = Inr (concat (map logs_of [a..<Suc e]))"
    using assms(1) ae(1) unfolding honest_node_def by blast
  have lo': "Suc (unat (ln_start l)) \<le> a"
    using old(2,3) by (simp add: a_def word_le_nat_alt word_less_nat_alt)
  have "Suc e = min (a + unat ?bs) (Suc (unat to))" using bs(2) by (simp add: e_def)
  moreover have "min a (Suc (unat to)) = a" using le by simp
  ultimately have "ln_handled l @ concat (map logs_of [a..<Suc e]) =
      logs_upto logs_of (ln_start l) (min (unat (lo + ?bs)) (Suc (unat to)))"
    using old(5) logs_upto_append [OF lo', of "Suc e" logs_of] ae(1) sum by simp
  moreover have "ln_last l < lo + ?bs" using old(3) sum by (simp add: word_less_nat_alt a_def)
  ultimately show ?thesis
    using old(1,2,4) le sum bs(3) ans by (simp add: progress_def)
qed

lemma progress_step:
  assumes "listener_step L nd c l l'" "honest_node L (ln_chain l) logs_of nd" "progress logs_of l"
  shows "progress logs_of l'"
  using assms(1)
proof cases
  case (begin_polling answer b)
  with assms(3) show ?thesis by (simp add: progress_def logs_upto_def)
next
  case (poll latest)
  then have "unat latest < 2 ^ 63" using assms(2) by (simp add: honest_node_def)
  moreover have n: "unat (ln_last l + 1) = Suc (unat (ln_last l))" by (rule unat_next [OF poll(4)])
  moreover have "unat (ln_last l) < unat latest" using poll(4) by (simp add: word_less_nat_alt)
  ultimately show ?thesis
    using poll assms(3) by (simp add: progress_def word_less_nat_alt)
next
  case (refused lo to err)
  from progress_fetch [OF assms(2,3) refused(2-4)] show ?thesis by simp
next
  case (fetched lo to logs)
  from progress_fetch [OF assms(2,3) fetched(2-4)] show ?thesis using fetched(1) by simp
next
  case (caught_up lo to)
  then have "min (unat lo) (Suc (unat to)) = Suc (unat to)" by (simp add: word_le_nat_alt)
  with caught_up assms(3) show ?thesis
    by (auto simp: progress_def word_le_nat_alt word_less_nat_alt)
next
  case end_polling
  with assms(3) show ?thesis by (simp add: progress_def)
qed

definition all_progress :: "(string \<Rightarrow> nat \<Rightarrow> eth_log list) \<Rightarrow> ('q, 'r) indexer \<Rightarrow> bool" where
  "all_progress logs_of x \<longleftrightarrow> (\<forall>l\<in>set (in_listeners x). progress (logs_of (ls_name (ln_chain l))) l)"

definition honest_nodes ::
  "lib \<Rightarrow> (string \<Rightarrow> nat \<Rightarrow> eth_log list) \<Rightarrow> (string \<Rightarrow> node) \<Rightarrow> ('q, 'r) indexer \<Rightarrow> bool" where
  "honest_nodes L logs_of nodes x \<longleftrightarrow>
     (\<forall>l\<in>set (in_listeners x).
        honest_node L (ln_chain l) (logs_of (ls_name (ln_chain l))) (nodes (ls_name (ln_chain l))))"

lemma indexer_step_progress:
  assumes "indexer_step L h nodes x x'" "honest_nodes L logs_of nodes x" "all_progress logs_of x"
  shows "honest_nodes L logs_of nodes x' \<and> all_progress logs_of x'"
  using assms(1)
proof cases
  case (listens i l l')
  have mem: "l \<in> set (in_listeners x)" using listens(3,4) by simp
  have "progress (logs_of (ls_name (ln_chain l'))) l'"
    using progress_step [OF listens(5)] mem assms(2,3) listener_step_chain [OF listens(5)]
    by (simp add: honest_nodes_def all_progress_def)
  with listens(1) mem assms(2,3) listener_step_chain [OF listens(5)] show ?thesis
    by (auto simp: honest_nodes_def all_progress_def dest!: set_update_subset_insert [THEN subsetD])
next
  case (handles i l lo to v vs u s)
  let ?l' = "l\<lparr>ln_mode := Batch lo to vs, ln_handled := ln_handled l @ [v]\<rparr>"
  have mem: "l \<in> set (in_listeners x)" using handles(3,4) by simp
  then have "progress (logs_of (ls_name (ln_chain ?l'))) ?l'"
    using assms(3) handles(5) by (auto simp: all_progress_def progress_def)
  with handles(1) mem assms(2,3) show ?thesis
    by (auto simp: honest_nodes_def all_progress_def dest!: set_update_subset_insert [THEN subsetD])
qed (use assms(2,3) in \<open>simp_all add: honest_nodes_def all_progress_def\<close>)

section \<open>The whole indexer\<close>

lemma progress_init: "all_progress logs_of (indexer_init L net cfg s)"
  by (auto simp: all_progress_def indexer_init_def new_listeners_def progress_def Let_def)

lemma progress_reach:
  assumes "(indexer_step L h nodes)\<^sup>*\<^sup>* (indexer_init L net cfg s0) x"
    and "honest_nodes L logs_of nodes (indexer_init L net cfg s0)"
  shows "honest_nodes L logs_of nodes x \<and> all_progress logs_of x"
  using assms(1)
proof (induction rule: rtranclp_induct)
  case base
  show ?case using assms(2) progress_init by blast
next
  case (step x x')
  then show ?case using indexer_step_progress [OF step(2), of logs_of] by blast
qed

text \<open>What a listener that waits for its next poll has handled.\<close>

lemma polling_handled:
  assumes "(indexer_step L h nodes)\<^sup>*\<^sup>* (indexer_init L net cfg s0) x"
    and "honest_nodes L logs_of nodes (indexer_init L net cfg s0)"
    and "l \<in> set (in_listeners x)" "ln_mode l = Polling" "nm = ls_name (ln_chain l)"
  shows "ln_handled l = concat (map (logs_of nm) [Suc (unat (ln_start l))..<Suc (unat (ln_last l))])"
  using progress_reach [OF assms(1,2)] assms(3-5) by (auto simp: all_progress_def progress_def logs_upto_def)

text \<open>
  C6: The whole indexer keeps every chain's cache. Let Redis accept and answer every command and forget
  nothing that was stored, so that no document reaches the end of its 24 hours within the run. Started
  for the configured chains against nodes that answer with one sequence of logs each, and however its
  listeners interleave and whatever heights they see when: as long as no log has made it panic, whenever
  a listener waits for its next poll, the cache holds for its chain exactly what replaying the logs of
  the blocks after its start up to its height, in order, makes of what was there at first. The other
  chains make no difference.
\<close>
theorem cache_is_replay:
  assumes "(indexer_step L h nodes)\<^sup>*\<^sup>* (indexer_init L net cfg s0) x"
    and "honest_nodes L logs_of nodes (indexer_init L net cfg s0)"
    and "eh_redis h = Some srv" "redis_ok srv view" "redis_up srv"
    and "in_panic x = None" "l \<in> set (in_listeners x)" "ln_mode l = Polling" "nm = ls_name (ln_chain l)"
  shows "cached view (snd (in_stores x)) nm =
    replay L nm (concat (map (logs_of nm) [Suc (unat (ln_start l))..<Suc (unat (ln_last l))]))
      (cached view (snd s0) nm)"
proof -
  have "tracked (=) L view (snd s0) x"
    using exact.tracked_reach [OF assms(1)] assms(3-5) by blast
  then have "cached view (snd (in_stores x)) nm = replay L nm (ln_handled l) (cached view (snd s0) nm)"
    using assms(6,7,9) by (simp add: tracked_def Let_def)
  then show ?thesis by (simp only: polling_handled [OF assms(1,2,7-9)])
qed

text \<open>A node at height 6, then 7, with one log at block 7, and the sample indexer that handles it.\<close>

definition sample_node :: node where
  "sample_node =
     \<lparr> nd_block = (\<lambda>a. a = Inr 6 \<or> a = Inr 7), nd_logs = (\<lambda>q ans. ans = po_FilterLogs (sample_poll 7) q) \<rparr>"

lemma sample_node_honest: "honest_node L c sample_logs sample_node"
  by (auto simp: honest_node_def sample_node_def sample_poll_def)

definition two_chains :: environ where
  "two_chains k = (if k = ''SEPOLIA_RPC_URL'' \<or> k = ''BSC_TESTNET_RPC_URL'' then ''u'' else sample_env k)"

definition sample_indexer :: "(points, kv) indexer" where
  "sample_indexer = indexer_init sample_lib (sample_net []) (ix_Load two_chains) ([], Map.empty)"

lemma sample_indexer_first:
  "\<exists>c ls. sample_indexer =
     \<lparr> in_stores = ([], Map.empty), in_listeners =
         \<lparr> ln_chain = c, ln_mode = Starting, ln_last = 0, ln_start = 0, ln_handled = [] \<rparr> # ls,
       in_cancelled = False, in_panic = None, in_closed = None \<rparr> \<and>
     ls_name c = ''sepolia'' \<and> ls_startBlock c = 0"
  by (simp add: sample_indexer_def indexer_init_def new_listeners_def started_chains_def chain_table_def Let_def
      ix_Load_def load_chains_def getEnv_def two_chains_def sample_env_def map_filter_simps new_listener_def sample_net_def)

lemma sample_log_parsed:
  "sig_registered sample_lib sample_log" "128 \<le> length (lg_Data sample_log)"
  "parse_event sample_lib ''sepolia'' sample_log = Inr (event_document sample_lib ''sepolia'' (lg_TxHash sample_log)
     (replicate 32 5) [replicate 20 7] [StringToBytes32 ''photo''] (word_of_nat 100) (word_of_nat 200))"
proof -
  have v: "lg_Data sample_log = event_data (replicate 32 5) [replicate 20 7] [StringToBytes32 ''photo''] 100 200"
    by (simp add: sample_log_def)
  show "sig_registered sample_lib sample_log" by (simp add: sig_registered_def sample_log_def)
  show "128 \<le> length (lg_Data sample_log)"
    using event_data_words(6) [of "replicate 32 5" "[replicate 20 7]" "[StringToBytes32 ''photo'']" 100 200]
    by (simp add: v)
  show "parse_event sample_lib ''sepolia'' sample_log = Inr (event_document sample_lib ''sepolia'' (lg_TxHash sample_log)
     (replicate 32 5) [replicate 20 7] [StringToBytes32 ''photo''] (word_of_nat 100) (word_of_nat 200))"
    by (rule parse_event_layout [OF sample_bytes _ _ _ _ _ _ _ v]) simp_all
qed

lemma sample_log_handled:
  "\<exists>s. processEventLog sample_lib sample_events ''sepolia'' sample_log ([], r) = (Inr (), s)"
proof -
  have "eh_redis sample_events = Some sample_redis" by (simp add: sample_events_def)
  then show ?thesis
    by (intro exI) (rule processEventLog_registered [OF sample_log_parsed])
qed

lemma first_listens:
  assumes "listener_step L (nodes (ls_name (ln_chain l))) False l l'"
  shows "(indexer_step L h nodes)\<^sup>*\<^sup>*
    \<lparr> in_stores = s, in_listeners = l # ls, in_cancelled = False, in_panic = None, in_closed = None \<rparr>
    \<lparr> in_stores = s, in_listeners = l' # ls, in_cancelled = False, in_panic = None, in_closed = None \<rparr>"
  using listens [of "\<lparr> in_stores = s, in_listeners = l # ls, in_cancelled = False, in_panic = None, in_closed = None \<rparr>"
      0 l L nodes l' h] assms
  by (intro r_into_rtranclp) simp

lemma sample_indexer_run:
  assumes c: "ls_name c = ''sepolia''" "ls_startBlock c = 0"
    and s: "processEventLog sample_lib sample_events ''sepolia'' sample_log ([], Map.empty) = (Inr (), s)"
  shows "(indexer_step sample_lib sample_events (\<lambda>nm. sample_node))\<^sup>*\<^sup>*
    \<lparr> in_stores = ([], Map.empty), in_listeners =
        \<lparr> ln_chain = c, ln_mode = Starting, ln_last = 0, ln_start = 0, ln_handled = [] \<rparr> # ls,
      in_cancelled = False, in_panic = None, in_closed = None \<rparr>
    \<lparr> in_stores = s, in_listeners =
        \<lparr> ln_chain = c, ln_mode = Polling, ln_last = 7, ln_start = 6, ln_handled = [sample_log] \<rparr> # ls,
      in_cancelled = False, in_panic = None, in_closed = None \<rparr>"
proof -
  let ?step = "indexer_step sample_lib sample_events (\<lambda>nm. sample_node)"
  let ?first = "\<lparr> ln_chain = c, ln_mode = Starting, ln_last = 0, ln_start = 0, ln_handled = [] \<rparr>"
  let ?l = "\<lambda>m b vs. \<lparr> ln_chain = c, ln_mode = m, ln_last = b, ln_start = 6, ln_handled = vs \<rparr>"
  let ?x = "\<lambda>st l. \<lparr> in_stores = st, in_listeners = l # ls, in_cancelled = False, in_panic = None, in_closed = None \<rparr>"
  let ?e = "([], Map.empty)" and ?to = "7 + batch_size c"
  have "listener_step sample_lib sample_node False ?first (?l Polling 6 [])"
    using begin_polling [of ?first sample_node "Inr 6" 6] c(2) by (simp add: sample_node_def start_block_def)
  then have r1: "?step\<^sup>*\<^sup>* (?x ?e ?first) (?x ?e (?l Polling 6 []))" by (rule first_listens)
  have "listener_step sample_lib sample_node False (?l Polling 6 []) (?l (Batch 7 7 []) 6 [])"
    using poll [of "?l Polling 6 []" sample_node 7] by (simp add: sample_node_def)
  then have r2: "?step\<^sup>*\<^sup>* (?x ?e (?l Polling 6 [])) (?x ?e (?l (Batch 7 7 []) 6 []))" by (rule first_listens)
  have "listener_step sample_lib sample_node False (?l (Batch 7 7 []) 6 []) (?l (Batch ?to 7 [sample_log]) 6 [])"
  proof -
    have b: "batch_end (batch_size c) 7 7 = 7" by (simp add: batch_end_def batch_size_def Let_def)
    have "nd_logs sample_node (batch_query (listener_query sample_lib c) 7 7) (Inr [sample_log])"
      using batch_query_small [of 7 7 "listener_query sample_lib c"]
      by (simp add: sample_node_def sample_poll_def sample_logs_def)
    then show ?thesis
      using fetched [of "?l (Batch 7 7 []) 6 []" 7 7 sample_node sample_lib "[sample_log]" False] by (simp add: b)
  qed
  then have r3: "?step\<^sup>*\<^sup>* (?x ?e (?l (Batch 7 7 []) 6 [])) (?x ?e (?l (Batch ?to 7 [sample_log]) 6 []))"
    by (rule first_listens)
  have r4: "?step\<^sup>*\<^sup>* (?x ?e (?l (Batch ?to 7 [sample_log]) 6 [])) (?x s (?l (Batch ?to 7 []) 6 [sample_log]))"
    using handles [of "?x ?e (?l (Batch ?to 7 [sample_log]) 6 [])" 0 "?l (Batch ?to 7 [sample_log]) 6 []" ?to 7
        sample_log "[]" sample_lib sample_events "()" s "\<lambda>nm. sample_node"] s c(1)
    by (intro r_into_rtranclp) simp
  have "listener_step sample_lib sample_node False (?l (Batch ?to 7 []) 6 [sample_log]) (?l Polling 7 [sample_log])"
    using caught_up [of "?l (Batch ?to 7 []) 6 [sample_log]" ?to 7] by (simp add: batch_size_def)
  then have r5: "?step\<^sup>*\<^sup>* (?x s (?l (Batch ?to 7 []) 6 [sample_log])) (?x s (?l Polling 7 [sample_log]))"
    by (rule first_listens)
  show ?thesis
    by (rule rtranclp_trans [OF rtranclp_trans [OF rtranclp_trans [OF r1 r2] rtranclp_trans [OF r3 r4]] r5])
qed

theorem cache_is_replay_witness:
  "\<exists>x. (indexer_step sample_lib sample_events (\<lambda>nm. sample_node))\<^sup>*\<^sup>* sample_indexer x \<and>
     cached (\<lambda>r. r) (snd (in_stores x)) ''sepolia'' =
       replay sample_lib ''sepolia'' [sample_log] (cached (\<lambda>r. r) Map.empty ''sepolia'')"
proof -
  obtain c ls where x0: "sample_indexer = \<lparr> in_stores = ([], Map.empty), in_listeners =
        \<lparr> ln_chain = c, ln_mode = Starting, ln_last = 0, ln_start = 0, ln_handled = [] \<rparr> # ls,
      in_cancelled = False, in_panic = None, in_closed = None \<rparr>"
    and c: "ls_name c = ''sepolia''" "ls_startBlock c = 0"
    using sample_indexer_first by blast
  obtain s where s: "processEventLog sample_lib sample_events ''sepolia'' sample_log ([], Map.empty) = (Inr (), s)"
    using sample_log_handled by blast
  note run = sample_indexer_run [OF c s, of ls, folded x0]
  have h: "honest_nodes sample_lib (\<lambda>nm. sample_logs) (\<lambda>nm. sample_node) sample_indexer"
    by (simp add: honest_nodes_def sample_node_honest)
  have e: "eh_redis sample_events = Some sample_redis" by (simp add: sample_events_def)
  have "concat (map sample_logs [Suc (unat (6 :: u64))..<Suc (unat (7 :: u64))]) = [sample_log]"
    by (simp add: sample_logs_def)
  with cache_is_replay [OF run [unfolded sample_indexer_def] h [unfolded sample_indexer_def] e sample_redis_ok sample_redis_up,
      of "\<lparr> ln_chain = c, ln_mode = Polling, ln_last = 7, ln_start = 6, ln_handled = [sample_log] \<rparr>" "''sepolia''"] c(1)
  have "cached (\<lambda>r. r) (snd s) ''sepolia'' =
      replay sample_lib ''sepolia'' [sample_log] (cached (\<lambda>r. r) Map.empty ''sepolia'')"
    by simp
  with run show ?thesis by fastforce
qed

end
