(* ===== verification/Services.thy ===== *)
theory Services
  imports Process Provenance Indexer_Concurrent
begin

text \<open>
  The whole program: the API server and the event indexer as two processes over the same Redis and
  the same Qdrant, interleaved in any way. Their steps are those of \<open>Process\<close> and \<open>Indexer_Concurrent\<close>;
  each works on the stores as the other left them.
\<close>

section \<open>Two processes, one pair of stores\<close>

record ('q, 'r) services =
  sv_server :: "('q, 'r) process"
  sv_indexer :: "('q, 'r) indexer"

definition server_stores :: "('q, 'r) process \<Rightarrow> 'q \<times> 'r" where
  "server_stores s = (as_qdrant (pr_api s), as_redis (pr_api s))"

definition set_server_stores :: "'q \<times> 'r \<Rightarrow> ('q, 'r) process \<Rightarrow> ('q, 'r) process" where
  "set_server_stores st s = s\<lparr>pr_api := (pr_api s)\<lparr>as_qdrant := fst st, as_redis := snd st\<rparr>\<rparr>"

inductive services_step ::
  "jwt_parser \<Rightarrow> router \<Rightarrow> ('q, 'r) Handler \<Rightarrow> lib \<Rightarrow> ('q, 'r) EventHandler \<Rightarrow> (string \<Rightarrow> node) \<Rightarrow>
    ('q, 'r) services \<Rightarrow> ('q, 'r) services \<Rightarrow> bool"
  for jwt R h L eh nodes where
  server_acts: "process_step jwt R h (sv_server x) s \<Longrightarrow>
     services_step jwt R h L eh nodes x
       \<lparr> sv_server = s, sv_indexer = (sv_indexer x)\<lparr>in_stores := server_stores s\<rparr> \<rparr>"
| indexer_acts: "indexer_step L eh nodes (sv_indexer x) i \<Longrightarrow>
     services_step jwt R h L eh nodes x
       \<lparr> sv_server = set_server_stores (in_stores i) (sv_server x), sv_indexer = i \<rparr>"

text \<open>Both processes started, on the same stores.\<close>

definition services_init ::
  "task_data pool \<Rightarrow> ('q, 'r) api_state \<Rightarrow> lib \<Rightarrow> rpc \<Rightarrow> IxConfig \<Rightarrow> ('q, 'r) services" where
  "services_init p s L net cfg =
     \<lparr> sv_server = listening p s, sv_indexer = indexer_init L net cfg (as_qdrant s, as_redis s) \<rparr>"

text \<open>
  The documents the two have made so far: those of requests the server has answered, and those of
  registration logs the indexer has handled.
\<close>

definition made ::
  "jwt_parser \<Rightarrow> router \<Rightarrow> ('q, 'r) Handler \<Rightarrow> lib \<Rightarrow> ('q, 'r) services \<Rightarrow> ConsentCache \<Rightarrow> bool" where
  "made jwt R h L x d \<longleftrightarrow>
     (\<exists>w rq a. (w, rq, a) \<in> set (pr_answered (sv_server x)) \<and> request_makes jwt R h w rq d) \<or>
     (\<exists>l v. l \<in> set (in_listeners (sv_indexer x)) \<and> v \<in> set (ln_handled l) \<and> sig_registered L v \<and>
        parse_event L (ls_name (ln_chain l)) v = Inr d)"

section \<open>One step\<close>

text \<open>What a step may add to the list of answers, and to the cache.\<close>

lemma server_stores_simps [simp]:
  "server_stores (set_server_stores st s) = st"
  "pr_answered (set_server_stores st s) = pr_answered s"
  by (simp_all add: server_stores_def set_server_stores_def)

lemma process_step_answers:
  assumes "process_step jwt R h s s'"
  obtains (same) "pr_answered s' = pr_answered s" "server_stores s' = server_stores s"
  | (answer) w now rq a where "pr_answered s' = pr_answered s @ [(w, rq, a)]"
      "serve jwt R h w now rq (pr_api s) = (a, pr_api s')"
  using assms
proof cases
  case quiet
  then show ?thesis
    by (intro same; cases rule: quiet_step.cases) (simp_all add: close_all_apply server_stores_def)
next
  case (request w now rq a api)
  then show ?thesis by (intro answer [of w rq a now]) simp_all
qed (auto intro!: same simp: server_stores_def)

lemma CacheConsent_returns: "CacheConsent (Some srv) d t r \<noteq> (Inl p, r')"
  using stores_return(1) [of srv d t r] by auto

lemma log_new_in:
  assumes "processEventLog L eh chain v (q, r) = (x, q', r')" "eh_redis eh = Some srv" "redis_holds srv view"
  shows "new_in view (\<lambda>d. sig_registered L v \<and> x = Inr () \<and> parse_event L chain v = Inr d) r r'"
proof -
  consider (registered) "sig_registered L v" | (revoked) "\<not> sig_registered L v" "sig_revoked L v"
    | (other) "\<not> sig_registered L v" "\<not> sig_revoked L v" by blast
  then show ?thesis
  proof cases
    case registered
    with assms show ?thesis
      using client_new_in(1) [OF assms(3)]
      by (auto simp: CacheConsent_returns processEventLog_dispatch handleConsentRegistered_def ix_redis_same gzoom_def
          split: if_splits prod.splits elim!: gbind_cases)
  next
    case revoked
    with assms show ?thesis
      using client_new_in(3) [OF assms(3)]
      by (auto simp: processEventLog_dispatch handleConsentRevoked_def ix_redis_same gzoom_def Let_def
          split: if_splits prod.splits elim!: gbind_cases)
  next
    case other
    with assms(1) show ?thesis by (simp add: other_log)
  qed
qed


section \<open>What both maintain\<close>

text \<open>No name of a chain holds a colon, as \<^verbatim>\<open>strings.ToLower\<close> keeps one where it is.\<close>

definition lib_colon :: "lib \<Rightarrow> bool" where
  "lib_colon L \<longleftrightarrow> (\<forall>s. CHR '':'' \<in> set s \<longrightarrow> CHR '':'' \<in> set (unicode_lower L s))"

lemma supported_no_colon:
  assumes "lib_colon L" "canon_chain L c \<noteq> None"
  shows "no_colon c"
proof (rule ccontr)
  assume "\<not> no_colon c"
  then have c: "CHR '':'' \<in> set c" by (simp add: no_colon_def)
  have "CHR '':'' \<in> set (strings_ToLower (unicode_lower L) c)"
  proof (cases "is_ascii c")
    case True
    have "ascii_lower (CHR '':'') = CHR '':''" by (simp add: ascii_lower_def)
    with c have "CHR '':'' \<in> ascii_lower ` set c" by (metis imageI)
    with True show ?thesis by (simp add: strings_ToLower_def)
  next
    case False
    with assms(1) c show ?thesis by (simp add: strings_ToLower_def lib_colon_def)
  qed
  with assms(2) show False by (auto simp: canon_chain_def canonical_def split: if_splits)
qed

definition colons_kept :: "('q, 'r) services \<Rightarrow> bool" where
  "colons_kept x \<longleftrightarrow> (\<forall>w rq a. (w, rq, a) \<in> set (pr_answered (sv_server x)) \<longrightarrow> lib_colon (w_lib w))"

lemma request_makes_no_colon: "request_makes jwt R h w rq d \<Longrightarrow> lib_colon (w_lib w) \<Longrightarrow> no_colon (cc_Chain d)"
proof -
  assume "request_makes jwt R h w rq d" and L: "lib_colon (w_lib w)"
  then obtain e params where e: "endpoint_makes h w e (rq\<lparr>rq_Param := params\<rparr>) d"
    unfolding request_makes_def by blast
  have "canon_chain (w_lib w) (cc_Chain d) \<noteq> None"
  proof (cases e)
    case E_CreateConsent
    with e show ?thesis
      by (auto simp: asked_to_create_def created_cache_def createConsentCache_def Let_def)
  next
    case E_GetConsent
    with e show ?thesis
      by (auto simp: read_from_contract_def record_document_def createConsentCache_def asked_chain_def
          GetRegistryAddress_canon split: option.splits)
  qed (use e in simp_all)
  with supported_no_colon [OF L] show ?thesis by blast
qed

lemma made_no_colon:
  assumes "made jwt R h L x d" "colons_kept x" "list_all no_colon (names (sv_indexer x))"
  shows "no_colon (cc_Chain d)"
  using assms(1) unfolding made_def
proof (elim disjE exE conjE)
  fix w rq a
  assume "(w, rq, a) \<in> set (pr_answered (sv_server x))" "request_makes jwt R h w rq d"
  with assms(2) show ?thesis unfolding colons_kept_def by (blast intro: request_makes_no_colon)
next
  fix l v
  assume "l \<in> set (in_listeners (sv_indexer x))" "parse_event L (ls_name (ln_chain l)) v = Inr d"
  with assms(3) show ?thesis by (auto simp: names_def list_all_iff dest: parse_event_chain)
qed

text \<open>A consent was answered as one of the documents made, with the chain and the id asked for.\<close>

definition answers_ok ::
  "jwt_parser \<Rightarrow> router \<Rightarrow> ('q, 'r) Handler \<Rightarrow> lib \<Rightarrow> ('q, 'r) services \<Rightarrow> bool" where
  "answers_ok jwt R h L x \<longleftrightarrow>
     (\<forall>w rq b params. (w, rq, 200, ConsentBody b) \<in> set (pr_answered (sv_server x)) \<longrightarrow>
        find_route R rq api_routes = Some (E_GetConsent, params) \<longrightarrow>
        authenticates jwt (h_cfg h) rq \<and>
        (\<exists>d. made jwt R h L x d \<and> shows_document b d \<and> cc_Chain d = asked_chain rq \<and>
           cc_ConsentID d = params ''id''))"

definition services_ok ::
  "jwt_parser \<Rightarrow> router \<Rightarrow> ('q, 'r) Handler \<Rightarrow> lib \<Rightarrow> ('r \<Rightarrow> string \<rightharpoonup> rval) \<Rightarrow> ('q, 'r) services \<Rightarrow> bool"
where
  "services_ok jwt R h L view x \<longleftrightarrow>
     in_stores (sv_indexer x) = server_stores (sv_server x) \<and>
     list_all no_colon (names (sv_indexer x)) \<and>
     (\<forall>k v. view (snd (in_stores (sv_indexer x))) k = Some v \<longrightarrow> filed (made jwt R h L x) k v) \<and>
     answers_ok jwt R h L x"

lemma made_mono:
  assumes "set (pr_answered (sv_server x)) \<subseteq> set (pr_answered (sv_server y))"
    and "\<And>l v. l \<in> set (in_listeners (sv_indexer x)) \<Longrightarrow> v \<in> set (ln_handled l) \<Longrightarrow>
      \<exists>l'\<in>set (in_listeners (sv_indexer y)). ln_chain l' = ln_chain l \<and> v \<in> set (ln_handled l')"
    and "made jwt R h L x d"
  shows "made jwt R h L y d"
  using assms(3) unfolding made_def
proof (elim disjE exE conjE)
  fix w rq a
  assume "(w, rq, a) \<in> set (pr_answered (sv_server x))" "request_makes jwt R h w rq d"
  with assms(1) show "(\<exists>w rq a. (w, rq, a) \<in> set (pr_answered (sv_server y)) \<and> request_makes jwt R h w rq d) \<or>
      (\<exists>l v. l \<in> set (in_listeners (sv_indexer y)) \<and> v \<in> set (ln_handled l) \<and> sig_registered L v \<and>
        parse_event L (ls_name (ln_chain l)) v = Inr d)" by blast
next
  fix l v
  assume l: "l \<in> set (in_listeners (sv_indexer x))" "v \<in> set (ln_handled l)"
    and v: "sig_registered L v" "parse_event L (ls_name (ln_chain l)) v = Inr d"
  obtain l' where "l' \<in> set (in_listeners (sv_indexer y))" "ln_chain l' = ln_chain l" "v \<in> set (ln_handled l')"
    using assms(2) [OF l] by blast
  with v show "(\<exists>w rq a. (w, rq, a) \<in> set (pr_answered (sv_server y)) \<and> request_makes jwt R h w rq d) \<or>
      (\<exists>l v. l \<in> set (in_listeners (sv_indexer y)) \<and> v \<in> set (ln_handled l) \<and> sig_registered L v \<and>
        parse_event L (ls_name (ln_chain l)) v = Inr d)" by (metis (no_types))
qed

lemma answers_ok_mono:
  assumes "answers_ok jwt R h L x" "\<And>d. made jwt R h L x d \<Longrightarrow> made jwt R h L y d"
    and "pr_answered (sv_server y) = pr_answered (sv_server x)"
  shows "answers_ok jwt R h L y"
  using assms unfolding answers_ok_def by metis


section \<open>The steps of the indexer\<close>

lemma listener_in:
  assumes "i < length ls" "l' = ls ! i \<or> ln_chain l' = ln_chain (ls ! i) \<and> set (ln_handled (ls ! i)) \<subseteq> set (ln_handled l')"
    and "l \<in> set ls" "v \<in> set (ln_handled l)"
  shows "\<exists>k\<in>set (ls[i := l']). ln_chain k = ln_chain l \<and> v \<in> set (ln_handled k)"
proof -
  obtain j where j: "j < length ls" "l = ls ! j" using assms(3) by (auto simp: in_set_conv_nth)
  let ?k = "ls[i := l'] ! j"
  have "?k \<in> set (ls[i := l'])" using j(1) by simp
  moreover have "ln_chain ?k = ln_chain l \<and> v \<in> set (ln_handled ?k)"
    using assms(1,2,4) j by (cases "j = i") auto
  ultimately show ?thesis by blast
qed

lemma indexer_step_handled:
  assumes "indexer_step L eh nodes y y'" "l \<in> set (in_listeners y)" "v \<in> set (ln_handled l)"
  shows "\<exists>k\<in>set (in_listeners y'). ln_chain k = ln_chain l \<and> v \<in> set (ln_handled k)"
  using assms(1)
proof cases
  case (listens i k k')
  from listener_step_chain [OF listens(5)] listener_step_handled [OF listens(5)] listens(3,4)
  show ?thesis unfolding listens(1)
    using listener_in [OF listens(3) _ assms(2,3), of k'] by simp
next
  case (handles i k lo to u vs z s)
  show ?thesis unfolding handles(1)
    using listener_in [OF handles(3) _ assms(2,3), of "k\<lparr>ln_mode := Batch lo to vs, ln_handled := ln_handled k @ [u]\<rparr>"]
      handles(4) by auto
qed (use assms(2,3) in auto)

text \<open>A step of the indexer adds only documents of logs it has then handled.\<close>

lemma indexer_step_new_in:
  assumes "indexer_step L eh nodes y y'" "eh_redis eh = Some srv" "redis_holds srv view"
  shows "new_in view (\<lambda>d. \<exists>l v. l \<in> set (in_listeners y') \<and> v \<in> set (ln_handled l) \<and> sig_registered L v \<and>
    parse_event L (ls_name (ln_chain l)) v = Inr d) (snd (in_stores y)) (snd (in_stores y'))"
  using assms(1)
proof cases
  case (handles i l lo to v vs u s)
  let ?l = "l\<lparr>ln_mode := Batch lo to vs, ln_handled := ln_handled l @ [v]\<rparr>"
  obtain q r q' r' where s: "in_stores y = (q, r)" "s = (q', r')" by (metis surj_pair)
  have "?l \<in> set ((in_listeners y)[i := ?l])" using handles(3) by (rule set_update_memI)
  then have "\<exists>k w. k \<in> set (in_listeners y') \<and> w \<in> set (ln_handled k) \<and> sig_registered L w \<and>
      parse_event L (ls_name (ln_chain k)) w = Inr d"
    if "sig_registered L v" "parse_event L (ls_name (ln_chain l)) v = Inr d" for d
    using that handles(1) by (intro exI [of _ ?l] exI [of _ v]) simp
  then show ?thesis
    using new_in_mono [OF log_new_in [OF handles(6) [unfolded s] assms(2,3)]] handles(1) s by simp
next
  case (panics i l lo to v vs p s)
  obtain q r q' r' where s: "in_stores y = (q, r)" "s = (q', r')" by (metis surj_pair)
  show ?thesis
    using new_in_mono [OF log_new_in [OF panics(6) [unfolded s] assms(2,3)]] panics(1) s by simp
qed simp_all


section \<open>Every step keeps what both maintain\<close>

lemma held_document:
  assumes "filed (made jwt R h L x) (cache_key ch i) v" "decode_cached v = Some hit" "no_colon ch"
    and "colons_kept x" "list_all no_colon (names (sv_indexer x))"
  shows "\<exists>d. made jwt R h L x d \<and> cc_Chain d = ch \<and> cc_ConsentID d = i \<and> hit = clean_cache d"
proof -
  obtain d where d: "made jwt R h L x d" "cache_key ch i = cache_key (cc_Chain d) (cc_ConsentID d)"
    "v = RDoc (marshal_cache d)"
    using assms(1) unfolding filed_def by blast
  have "no_colon (cc_Chain d)" by (rule made_no_colon [OF d(1) assms(4,5)])
  with d(2) assms(3) have "cc_Chain d = ch" "cc_ConsentID d = i"
    using cache_key_inj [of ch "cc_Chain d" i "cc_ConsentID d"] by (simp_all add: no_colon_def)
  moreover have "hit = clean_cache d"
    using assms(2) d(3) by (simp add: decode_cached_def unmarshal_marshal)
  ultimately show ?thesis using d(1) by blast
qed

lemma read_from_contract_ids:
  "read_from_contract h w rq d \<Longrightarrow> cc_Chain d = asked_chain rq \<and> cc_ConsentID d = rq_Param rq ''id''"
  by (auto simp: read_from_contract_def record_document_def createConsentCache_def)

lemma asked_chain_params [simp]: "asked_chain (rq\<lparr>rq_Param := f\<rparr>) = asked_chain rq"
  by (simp add: asked_chain_def)

lemma answer_made:
  assumes "services_ok jwt R h L view x" "redis_holds srv view" "h_redis h = Some srv"
    and "serve jwt R h w now rq (pr_api (sv_server x)) = ((200, ConsentBody b), api)"
    and "find_route R rq api_routes = Some (E_GetConsent, params)"
    and "colons_kept x" "lib_colon (w_lib w)"
  shows "authenticates jwt (h_cfg h) rq \<and>
    (\<exists>d. (made jwt R h L x d \<or> request_makes jwt R h w rq d) \<and> shows_document b d \<and>
      cc_Chain d = asked_chain rq \<and> cc_ConsentID d = params ''id'')"
proof -
  let ?rq = "rq\<lparr>rq_Param := params\<rparr>"
  obtain s1 s2 where s1: "as_redis s1 = as_redis (pr_api (sv_server x))" "authenticates jwt (h_cfg h) rq"
    "GetConsent_handler h w ?rq s1 = (Inr (200, ConsentBody b), s2)"
    using serve_answer [OF assms(2-5)] by blast
  note ans = GetConsent_answer [OF assms(2,3) s1(3)]
  have "no_colon (asked_chain rq)" using ans supported_no_colon [OF assms(7)] by simp
  from ans consider
    (held) v hit where "view (as_redis s1) (cache_key (asked_chain rq) (params ''id'')) = Some v"
      "decode_cached v = Some hit" "b = toConsentResponse hit"
  | (read) d where "read_from_contract h w ?rq d" "b = toConsentResponse d" by auto
  then show ?thesis
  proof cases
    case held
    have "filed (made jwt R h L x) (cache_key (asked_chain rq) (params ''id'')) v"
      using assms(1) held(1) s1(1) by (simp add: services_ok_def server_stores_def)
    from held_document [OF this held(2) \<open>no_colon (asked_chain rq)\<close> assms(6)] assms(1)
    obtain d where "made jwt R h L x d" "cc_Chain d = asked_chain rq" "cc_ConsentID d = params ''id''"
      "hit = clean_cache d" by (auto simp: services_ok_def)
    with held(3) s1(2) show ?thesis unfolding shows_document_def by blast
  next
    case read
    have "request_makes jwt R h w rq d"
      using s1(2) assms(5) read(1) unfolding request_makes_def by (metis endpoint_makes.simps(2))
    with read read_from_contract_ids [OF read(1)] s1(2) show ?thesis
      unfolding shows_document_def by auto
  qed
qed

lemma indexer_acts_ok:
  assumes "services_ok jwt R h L view x" "indexer_step L eh nodes (sv_indexer x) i"
    and "redis_holds srv view" "eh_redis eh = Some srv"
    and y: "y = \<lparr> sv_server = set_server_stores (in_stores i) (sv_server x), sv_indexer = i \<rparr>"
  shows "services_ok jwt R h L view y"
proof -
  have sv: "sv_indexer y = i" "pr_answered (sv_server y) = pr_answered (sv_server x)"
    "server_stores (sv_server y) = in_stores i"
    by (simp_all add: y)
  have mono: "made jwt R h L y d" if "made jwt R h L x d" for d
    by (rule made_mono [OF _ _ that]) (simp_all add: sv indexer_step_handled [OF assms(2)])
  have made: "made jwt R h L y d"
    if "\<exists>l v. l \<in> set (in_listeners i) \<and> v \<in> set (ln_handled l) \<and> sig_registered L v \<and>
      parse_event L (ls_name (ln_chain l)) v = Inr d" for d
    using that unfolding made_def sv by blast
  have new: "new_in view (made jwt R h L y) (snd (in_stores (sv_indexer x))) (snd (in_stores i))"
    by (rule new_in_mono [OF indexer_step_new_in [OF assms(2,4,3)] made])
  have old: "filed (made jwt R h L y) k v" if "view (snd (in_stores (sv_indexer x))) k = Some v" for k v
  proof -
    have "filed (made jwt R h L x) k v" using assms(1) that by (simp add: services_ok_def)
    then show ?thesis by (rule filed_mono) (rule mono)
  qed
  have "answers_ok jwt R h L x" using assms(1) by (simp add: services_ok_def)
  then have "answers_ok jwt R h L y" by (rule answers_ok_mono [OF _ mono sv(2)])
  then show ?thesis
    using assms(1) indexer_step_names [OF assms(2)] new_in_all [OF new old] by (simp add: services_ok_def sv)
qed


lemma answered_request_ok:
  assumes "services_ok jwt R h L view x" "redis_holds srv view" "h_redis h = Some srv"
    and "serve jwt R h w now rq (pr_api (sv_server x)) = (a, api)" "colons_kept x" "lib_colon (w_lib w)"
    and y: "pr_answered (sv_server y) = pr_answered (sv_server x) @ [(w, rq, a)]"
    and made: "\<And>d. made jwt R h L x d \<Longrightarrow> made jwt R h L y d" "\<And>d. request_makes jwt R h w rq d \<Longrightarrow> made jwt R h L y d"
  shows "answers_ok jwt R h L y"
  unfolding answers_ok_def
proof (intro allI impI)
  fix w' rq' b params
  assume in_y: "(w', rq', 200, ConsentBody b) \<in> set (pr_answered (sv_server y))"
    and f: "find_route R rq' api_routes = Some (E_GetConsent, params)"
  show "authenticates jwt (h_cfg h) rq' \<and> (\<exists>d. made jwt R h L y d \<and> shows_document b d \<and>
      cc_Chain d = asked_chain rq' \<and> cc_ConsentID d = params ''id'')"
  proof (cases "(w', rq', 200, ConsentBody b) \<in> set (pr_answered (sv_server x))")
    case True
    with assms(1) f have "authenticates jwt (h_cfg h) rq'" "\<exists>d. made jwt R h L x d \<and> shows_document b d \<and>
        cc_Chain d = asked_chain rq' \<and> cc_ConsentID d = params ''id''"
      unfolding services_ok_def answers_ok_def by blast+
    with made(1) show ?thesis by blast
  next
    case False
    then have e: "w' = w" "rq' = rq" "a = (200, ConsentBody b)" using in_y y by auto
    from answer_made [OF assms(1-3) assms(4) [unfolded e(3)] f [unfolded e(2)] assms(5,6)] made
    show ?thesis unfolding e(2) by blast
  qed
qed

lemma server_acts_ok:
  assumes "services_ok jwt R h L view x" "process_step jwt R h (sv_server x) s"
    and "redis_holds srv view" "h_redis h = Some srv"
    and y: "y = \<lparr> sv_server = s, sv_indexer = (sv_indexer x)\<lparr>in_stores := server_stores s\<rparr> \<rparr>"
    and "colons_kept x" "colons_kept y"
  shows "services_ok jwt R h L view y"
  using assms(2)
proof (cases rule: process_step_answers)
  case same
  then have "y = x\<lparr>sv_server := s\<rparr>" using assms(1) by (simp add: y services_ok_def)
  moreover have "made jwt R h L y = made jwt R h L x"
    using same by (intro ext) (simp add: made_def y)
  ultimately show ?thesis
    using assms(1) same by (simp add: services_ok_def answers_ok_def)
next
  case (answer w now rq a)
  have sv: "in_listeners (sv_indexer y) = in_listeners (sv_indexer x)"
    "pr_answered (sv_server y) = pr_answered (sv_server x) @ [(w, rq, a)]"
    "in_stores (sv_indexer y) = server_stores s" "sv_server y = s"
    using answer(1) by (simp_all add: y)
  have mono: "made jwt R h L y d" if "made jwt R h L x d" for d
    by (rule made_mono [OF _ _ that]) (auto simp: sv(1,2))
  have "(w, rq, a) \<in> set (pr_answered (sv_server y))" by (simp add: sv(2))
  note entry = this
  then have made: "made jwt R h L y d" if "request_makes jwt R h w rq d" for d
    using that unfolding made_def by blast
  have new: "new_in view (made jwt R h L y) (as_redis (pr_api (sv_server x))) (as_redis (pr_api s))"
    by (rule new_in_mono [OF serve_adds [OF assms(3,4) answer(2)] made])
  have old: "filed (made jwt R h L y) k v" if "view (as_redis (pr_api (sv_server x))) k = Some v" for k v
  proof -
    have "filed (made jwt R h L x) k v" using assms(1) that by (simp add: services_ok_def server_stores_def)
    then show ?thesis by (rule filed_mono) (rule mono)
  qed
  have c: "lib_colon (w_lib w)" using assms(7) entry unfolding colons_kept_def by blast
  have "answers_ok jwt R h L y"
    by (rule answered_request_ok [OF assms(1,3,4) answer(2) assms(6) c sv(2) mono made])
  moreover have "names (sv_indexer y) = names (sv_indexer x)" by (simp add: names_def sv(1))
  ultimately show ?thesis
    using assms(1) new_in_all [OF new old] by (simp add: services_ok_def sv server_stores_def)
qed

section \<open>What the API serves has a source\<close>

lemma services_step_answers:
  assumes "services_step jwt R h L eh nodes x y"
  shows "set (pr_answered (sv_server x)) \<subseteq> set (pr_answered (sv_server y))"
  using assms
proof cases
  case (server_acts s)
  from server_acts(2) have "set (pr_answered (sv_server x)) \<subseteq> set (pr_answered s)"
    by (cases rule: process_step_answers) auto
  with server_acts(1) show ?thesis by simp
qed simp

lemma services_step_ok:
  assumes "services_step jwt R h L eh nodes x y" "services_ok jwt R h L view x"
    and "redis_holds srv view" "h_redis h = Some srv" "eh_redis eh = Some srv" "colons_kept y"
  shows "services_ok jwt R h L view y"
  using assms(1)
proof cases
  case (server_acts s)
  have "colons_kept x"
    using assms(6) services_step_answers [OF assms(1)] unfolding colons_kept_def by blast
  then show ?thesis
    using server_acts_ok [OF assms(2) server_acts(2) assms(3,4) server_acts(1)] assms(6) by blast
next
  case (indexer_acts i)
  then show ?thesis using indexer_acts_ok [OF assms(2) _ assms(3,5)] by blast
qed

lemma services_reach_ok:
  assumes "(services_step jwt R h L eh nodes)\<^sup>*\<^sup>* x y" "services_ok jwt R h L view x"
    and "redis_holds srv view" "h_redis h = Some srv" "eh_redis eh = Some srv"
  shows "colons_kept y \<Longrightarrow> services_ok jwt R h L view y"
  using assms(1)
proof (induction rule: rtranclp_induct)
  case base
  show ?case by (rule assms(2))
next
  case (step y z)
  have "colons_kept y"
    using step.prems services_step_answers [OF step.hyps(2)] unfolding colons_kept_def by blast
  with step.IH show ?case
    using services_step_ok [OF step.hyps(2) _ assms(3-5) step.prems] by blast
qed

lemma services_init_ok:
  assumes "view (as_redis s) = Map.empty"
  shows "services_ok jwt R h L view (services_init p s L net cfg)"
proof -
  have "names (sv_indexer (services_init p s L net cfg)) = names (indexer_init L net cfg (as_qdrant s, as_redis s))"
    by (simp add: services_init_def)
  then show ?thesis
    using assms indexer_names(2) [of L net cfg "(as_qdrant s, as_redis s)"]
    by (simp add: services_ok_def services_init_def indexer_init_def listening_def server_stores_def
        RegisterRoutes_def answers_ok_def names_def)
qed

text \<open>
  C4: What the API serves has a source. Both services run on one Redis that is empty at first, which
  may lose documents but invents none, and their steps interleave in any way. Whenever a lookup of a
  consent was answered 200, the request carried valid credentials, and the answer shows, under the
  chain and the id that were asked for, a document which a creation with valid credentials asked for,
  or which the registry contract returned to a lookup with valid credentials, or which the indexer
  read from a registration log of that chain. No other request, and no other consent's document, is
  ever the source.
\<close>
theorem served_has_source:
  assumes "(services_step jwt R h L eh nodes)\<^sup>*\<^sup>* (services_init p s L net cfg) x"
    and "view (as_redis s) = Map.empty" "redis_holds srv view" "h_redis h = Some srv" "eh_redis eh = Some srv"
    and "colons_kept x" "(w, rq, 200, ConsentBody b) \<in> set (pr_answered (sv_server x))"
    and "find_route R rq api_routes = Some (E_GetConsent, params)"
  shows "authenticates jwt (h_cfg h) rq \<and>
    (\<exists>d. shows_document b d \<and> cc_Chain d = asked_chain rq \<and> cc_ConsentID d = params ''id'' \<and>
      ((\<exists>w' rq' a. (w', rq', a) \<in> set (pr_answered (sv_server x)) \<and> request_makes jwt R h w' rq' d) \<or>
       (\<exists>l v. l \<in> set (in_listeners (sv_indexer x)) \<and> v \<in> set (ln_handled l) \<and> sig_registered L v \<and>
          ls_name (ln_chain l) = asked_chain rq \<and> parse_event L (asked_chain rq) v = Inr d)))"
proof -
  have "services_ok jwt R h L view x"
    using services_reach_ok [OF assms(1) services_init_ok [where view = view and s = s, OF assms(2)] assms(3-6)] .
  then obtain d where d: "made jwt R h L x d" "shows_document b d" "cc_Chain d = asked_chain rq"
    "cc_ConsentID d = params ''id''" and auth: "authenticates jwt (h_cfg h) rq"
    using assms(7,8) unfolding services_ok_def answers_ok_def by blast
  have "ls_name c = asked_chain rq" if "parse_event L (ls_name c) v = Inr d" for c v
    using parse_event_chain [OF that] d(3) by simp
  with d auth show ?thesis unfolding made_def by metis
qed


text \<open>
  The indexer of \<open>sample_indexer\<close> handles the log at block 7; the API, which shares its stores, then
  answers a request with the API key for that consent.
\<close>

lemma indexer_alone:
  assumes "(indexer_step L eh nodes)\<^sup>*\<^sup>* i i'" "in_stores i = server_stores s"
  shows "(services_step jwt R h L eh nodes)\<^sup>*\<^sup>* \<lparr> sv_server = s, sv_indexer = i \<rparr>
    \<lparr> sv_server = set_server_stores (in_stores i') s, sv_indexer = i' \<rparr>"
  using assms(1)
proof (induction rule: rtranclp_induct)
  case base
  show ?case by (simp add: assms(2) set_server_stores_def server_stores_def)
next
  case (step j k)
  have "set_server_stores (in_stores k) (set_server_stores (in_stores j) s) = set_server_stores (in_stores k) s"
    by (simp add: set_server_stores_def)
  then have "services_step jwt R h L eh nodes \<lparr> sv_server = set_server_stores (in_stores j) s, sv_indexer = j \<rparr>
      \<lparr> sv_server = set_server_stores (in_stores k) s, sv_indexer = k \<rparr>"
    using indexer_acts [of L eh nodes "\<lparr> sv_server = set_server_stores (in_stores j) s, sv_indexer = j \<rparr>" k jwt R h]
      step.hyps(2) by simp
  with step.IH show ?case by (rule rtranclp.rtrancl_into_rtrancl)
qed

definition id_router :: router where
  "id_router =
     \<lparr> path_match = (\<lambda>pattern path. if pattern = ''/api/v1/consent/:id''
         then Some (\<lambda>k. if k = ''id'' then path else '''') else None),
       no_route = (\<lambda>rq. (404, NoBody)) \<rparr>"

definition key_request :: "string \<Rightarrow> request" where
  "key_request ident = (get_request ident '''' ''sepolia'')\<lparr>rq_Authorization := ''dev-key-change-in-production''\<rparr>"

lemma first_request_allowed: "fst (Allow ip 0 (NewRateLimiter 100 200))"
proof -
  have "fl64 200 = 200" using fl64_of_int [of 200] by simp
  then show ?thesis
    by (simp add: Allow_def NewRateLimiter_def new_bucket_def refill_def duration_Seconds_def time_Sub_def Let_def)
qed

lemma key_request_simps [simp]:
  "rq_Method (key_request i) = ''GET''" "rq_ClientIP (key_request i) = ''10.0.0.1''"
  "rq_Authorization (key_request i) = ''dev-key-change-in-production''"
  "rq_Query (key_request i) ''chain'' = ''sepolia''" "rq_Path (key_request i) = i"
  by (simp_all add: key_request_def get_request_def)

lemma key_request_route:
  "\<exists>params. find_route id_router (key_request i) api_routes = Some (E_GetConsent, params) \<and> params ''id'' = i"
  by (simp add: api_routes_def id_router_def)

lemma key_request_served:
  assumes "cached (\<lambda>r. r) (as_redis s) ''sepolia'' i = Some d" "i \<noteq> ''''" "as_limiter s = NewRateLimiter 100 200"
  shows "\<exists>s'. serve no_jwt id_router sample_handler (sample_world [] 1) 0 (key_request i) s =
    ((200, ConsentBody (toConsentResponse d)), s')"
proof (cases rule: serve_cases [of "key_request i" no_jwt id_router sample_handler "sample_world [] 1" 0 s])
  case passed
  obtain params where p: "find_route id_router (key_request i) api_routes = Some (E_GetConsent, params)"
    "params ''id'' = i" using key_request_route by blast
  let ?rq = "(key_request i)\<lparr>rq_Param := params\<rparr>"
  let ?s0 = "s\<lparr>as_keys := Map.empty, as_headers := cors_headers,
    as_limiter := snd (Allow (rq_ClientIP (key_request i)) 0 (as_limiter s))\<rparr>"
  let ?s1 = "set_key ''auth_type'' (CText ''api_key'') ?s0"
  have "cached (\<lambda>r. r) (as_redis ?s1) ''sepolia'' i = Some d" using assms(1) by simp
  then obtain s2 where "GetConsent_handler sample_handler (sample_world [] 1) ?rq ?s1 =
      (Inr (200, ConsentBody (toConsentResponse d)), s2)"
    using GetConsent_hit [of sample_handler sample_redis "\<lambda>r. r" "sample_world [] 1" "''sepolia''" i ?rq ?s1 d]
      assms(2) p(2) sample_redis_ok sample_redis_up sample_create_ready(2) by auto
  then have "api_group no_jwt id_router sample_handler (sample_world [] 1) (key_request i) ?s0 =
      (Inr (200, ConsentBody (toConsentResponse d)), s2)"
    using p by (simp add: api_group_def run_endpoint_def AuthMiddleware_def Let_def)
  with passed(3) show ?thesis
    by (simp add: Recovery_def RequestLogger_def gbind_def)
qed (use assms(3) first_request_allowed in simp_all)

lemma sample_log_cached:
  assumes "processEventLog sample_lib sample_events ''sepolia'' sample_log ([], Map.empty) = (Inr (), s)"
  shows "\<exists>d. cached (\<lambda>r. r) (snd s) ''sepolia'' (HashHex sample_lib (replicate 32 5)) = Some d"
proof -
  obtain q r where s: "s = (q, r)" by force
  have e: "eh_redis sample_events = Some sample_redis" by (simp add: sample_events_def)
  have c: "no_colon ''sepolia''" by (simp add: no_colon_def)
  have "cached (\<lambda>r. r) r ''sepolia'' = log_effect sample_lib ''sepolia'' sample_log (cached (\<lambda>r. r) Map.empty ''sepolia'')"
    using processEventLog_effect [OF assms [unfolded s] e sample_redis_ok sample_redis_up c c] by simp
  then show ?thesis
    using sample_log_parsed by (simp add: s log_effect_def event_document_def)
qed

definition sample_services :: "(points, kv) services" where
  "sample_services = services_init sample_booted sample_state sample_lib (sample_net []) (ix_Load two_chains)"

lemma sample_services_indexed:
  assumes st: "processEventLog sample_lib sample_events ''sepolia'' sample_log ([], Map.empty) = (Inr (), st)"
  shows "\<exists>i. (services_step no_jwt id_router sample_handler sample_lib sample_events (\<lambda>nm. sample_node))\<^sup>*\<^sup>* sample_services
    \<lparr> sv_server = set_server_stores st (listening sample_booted sample_state), sv_indexer = i \<rparr>"
proof -
  let ?step = "services_step no_jwt id_router sample_handler sample_lib sample_events (\<lambda>nm. sample_node)"
  let ?p = "listening sample_booted sample_state"
  obtain c ls where i0: "sample_indexer = \<lparr> in_stores = ([], Map.empty), in_listeners =
        \<lparr> ln_chain = c, ln_mode = Starting, ln_last = 0, ln_start = 0, ln_handled = [] \<rparr> # ls,
      in_cancelled = False, in_panic = None, in_closed = None \<rparr>"
    and c: "ls_name c = ''sepolia''" "ls_startBlock c = 0"
    using sample_indexer_first by blast
  let ?y = "\<lparr> in_stores = st, in_listeners =
        \<lparr> ln_chain = c, ln_mode = Polling, ln_last = 7, ln_start = 6, ln_handled = [sample_log] \<rparr> # ls,
      in_cancelled = False, in_panic = None, in_closed = None \<rparr>"
  have "(indexer_step sample_lib sample_events (\<lambda>nm. sample_node))\<^sup>*\<^sup>* sample_indexer ?y"
    using sample_indexer_run [OF c st, of ls] i0 by simp
  moreover have "in_stores sample_indexer = server_stores ?p"
    by (simp add: sample_indexer_def indexer_init_def server_stores_def listening_def RegisterRoutes_def
        sample_state_def)
  ultimately have run: "?step\<^sup>*\<^sup>* \<lparr> sv_server = ?p, sv_indexer = sample_indexer \<rparr>
      \<lparr> sv_server = set_server_stores st ?p, sv_indexer = ?y \<rparr>"
    using indexer_alone [of sample_lib sample_events "\<lambda>nm. sample_node" sample_indexer ?y ?p] by simp
  have init: "sample_services = \<lparr> sv_server = ?p, sv_indexer = sample_indexer \<rparr>"
    by (simp add: sample_services_def services_init_def sample_indexer_def sample_state_def RegisterRoutes_def)
  from run show ?thesis unfolding init by blast
qed

lemma sample_services_answered:
  "\<exists>x b. (services_step no_jwt id_router sample_handler sample_lib sample_events (\<lambda>nm. sample_node))\<^sup>*\<^sup>* sample_services x \<and>
     (sample_world [] 1, key_request (HashHex sample_lib (replicate 32 5)), 200, ConsentBody b)
       \<in> set (pr_answered (sv_server x)) \<and> colons_kept x"
proof -
  let ?step = "services_step no_jwt id_router sample_handler sample_lib sample_events (\<lambda>nm. sample_node)"
  let ?p = "listening sample_booted sample_state" and ?i = "HashHex sample_lib (replicate 32 5)"
  obtain st where st: "processEventLog sample_lib sample_events ''sepolia'' sample_log ([], Map.empty) = (Inr (), st)"
    using sample_log_handled by blast
  obtain i where run: "?step\<^sup>*\<^sup>* sample_services \<lparr> sv_server = set_server_stores st ?p, sv_indexer = i \<rparr>"
    using sample_services_indexed [OF st] by blast
  obtain d where "cached (\<lambda>r. r) (snd st) ''sepolia'' ?i = Some d" using sample_log_cached [OF st] by blast
  moreover have "?i \<noteq> ''''" by (simp add: sample_lib_def)
  ultimately obtain api where srv: "serve no_jwt id_router sample_handler (sample_world [] 1) 0 (key_request ?i)
      (pr_api (set_server_stores st ?p)) = ((200, ConsentBody (toConsentResponse d)), api)"
    using key_request_served [of "pr_api (set_server_stores st ?p)" ?i d]
    by (auto simp: set_server_stores_def listening_def RegisterRoutes_def)
  let ?q = "(set_server_stores st ?p)\<lparr>pr_api := api,
    pr_answered := [(sample_world [] 1, key_request ?i, 200, ConsentBody (toConsentResponse d))]\<rparr>"
  let ?x = "\<lparr> sv_server = ?q, sv_indexer = i\<lparr>in_stores := server_stores ?q\<rparr> \<rparr>"
  have "process_step no_jwt id_router sample_handler (set_server_stores st ?p) ?q"
    using request [OF _ srv] by (simp add: set_server_stores_def listening_def)
  then have "?step \<lparr> sv_server = set_server_stores st ?p, sv_indexer = i \<rparr> ?x"
    using server_acts [of no_jwt id_router sample_handler
        "\<lparr> sv_server = set_server_stores st ?p, sv_indexer = i \<rparr>" ?q] by simp
  with run have x: "?step\<^sup>*\<^sup>* sample_services ?x" by (rule rtranclp.rtrancl_into_rtrancl)
  have "colons_kept ?x" by (simp add: colons_kept_def lib_colon_def sample_lib_def)
  with x show ?thesis by force
qed

theorem served_has_source_witness:
  "\<exists>x b. (services_step no_jwt id_router sample_handler sample_lib sample_events (\<lambda>nm. sample_node))\<^sup>*\<^sup>* sample_services x \<and>
     (sample_world [] 1, key_request (HashHex sample_lib (replicate 32 5)), 200, ConsentBody b)
       \<in> set (pr_answered (sv_server x)) \<and>
     (\<exists>d. shows_document b d \<and> cc_Chain d = ''sepolia'' \<and> cc_ConsentID d = HashHex sample_lib (replicate 32 5))"
proof -
  let ?i = "HashHex sample_lib (replicate 32 5)"
  obtain x b where x: "(services_step no_jwt id_router sample_handler sample_lib sample_events (\<lambda>nm. sample_node))\<^sup>*\<^sup>*
      sample_services x" and m: "(sample_world [] 1, key_request ?i, 200, ConsentBody b) \<in> set (pr_answered (sv_server x))"
    and k: "colons_kept x"
    using sample_services_answered by blast
  obtain params where p: "find_route id_router (key_request ?i) api_routes = Some (E_GetConsent, params)"
    "params ''id'' = ?i" using key_request_route by blast
  have e: "as_redis sample_state = Map.empty" "eh_redis sample_events = Some sample_redis"
    by (simp_all add: sample_state_def RegisterRoutes_def sample_events_def)
  have "asked_chain (key_request ?i) = ''sepolia''" by (simp add: asked_chain_def)
  with served_has_source [OF x [unfolded sample_services_def] e(1) sample_redis_holds _ e(2) k m p(1)] p(2)
  have "\<exists>d. shows_document b d \<and> cc_Chain d = ''sepolia'' \<and> cc_ConsentID d = ?i" by auto
  with x m show ?thesis by blast
qed

end
