(* ===== verification/Indexer_End.thy ===== *)
theory Indexer_End
  imports Indexer_Concurrent
begin

text \<open>
  How the indexer ends: after the signal \<^verbatim>\<open>main\<close> cancels the context its listeners share and waits for
  them. A listener sees the cancellation only between two polls, so it first works off the blocks of
  the poll it is in.
\<close>

section \<open>Winding down\<close>

text \<open>
  When a tick and the cancellation are both ready, Go's \<^verbatim>\<open>select\<close> takes either. \<open>winds\<close> are the steps
  after the signal in which no listener takes the tick.
\<close>

definition starts_poll :: "('q, 'r) indexer \<Rightarrow> ('q, 'r) indexer \<Rightarrow> bool" where
  "starts_poll x x' \<longleftrightarrow>
     (\<exists>i lo to vs. i < length (in_listeners x) \<and> ln_mode (in_listeners x ! i) = Polling \<and>
        ln_mode (in_listeners x' ! i) = Batch lo to vs)"

definition winds ::
  "lib \<Rightarrow> ('q, 'r) EventHandler \<Rightarrow> (string \<Rightarrow> node) \<Rightarrow> ('q, 'r) indexer \<Rightarrow> ('q, 'r) indexer \<Rightarrow> bool" where
  "winds L h nodes x x' \<longleftrightarrow> in_cancelled x \<and> indexer_step L h nodes x x' \<and> \<not> starts_poll x x'"

text \<open>
  What a node must do: answer, if only with an error, and not claim a height of \<open>2 ^ 63\<close> or more.
\<close>

definition answering :: "(string \<Rightarrow> node) \<Rightarrow> bool" where
  "answering nodes \<longleftrightarrow>
     (\<forall>nm. (\<exists>a. nd_block (nodes nm) a) \<and> (\<forall>q. \<exists>a. nd_logs (nodes nm) q a) \<and>
        (\<forall>b. nd_block (nodes nm) (Inr b) \<longrightarrow> unat b < 2 ^ 63))"

section \<open>What is left to do\<close>

text \<open>The blocks still to be asked for, the logs at hand, and the turns of a listener until its end.\<close>

fun blocks_left :: "mode \<Rightarrow> nat" where
  "blocks_left (Batch lo to vs) = Suc (unat to) - unat lo"
| "blocks_left _ = 0"

fun logs_left :: "mode \<Rightarrow> nat" where
  "logs_left (Batch lo to vs) = length vs"
| "logs_left _ = 0"

fun turns_left :: "mode \<Rightarrow> nat" where
  "turns_left Starting = 2"
| "turns_left Polling = 1"
| "turns_left (Batch lo to vs) = 2"
| "turns_left Ended = 0"

definition total :: "(mode \<Rightarrow> nat) \<Rightarrow> ('q, 'r) indexer \<Rightarrow> nat" where
  "total f x = (\<Sum>l\<leftarrow>in_listeners x. f (ln_mode l))"

definition ends_left :: "('q, 'r) indexer \<Rightarrow> nat" where
  "ends_left x = total turns_left x + (if in_panic x = None then 1 else 0) + (if in_closed x = None then 1 else 0)"

definition to_do :: "(('q, 'r) indexer \<times> ('q, 'r) indexer) set" where
  "to_do = measures [total blocks_left, total logs_left, ends_left]"

lemma sum_list_update_nat:
  "i < length xs \<Longrightarrow> sum_list (map f (xs[i := y])) + f (xs ! i) = sum_list (map f xs) + (f y :: nat)"
proof (induction xs arbitrary: i)
  case (Cons x xs)
  then show ?case by (cases i) (auto simp: add.assoc add.left_commute)
qed simp

lemma total_update:
  "i < length (in_listeners x) \<Longrightarrow>
    total f (y\<lparr>in_listeners := (in_listeners x)[i := l]\<rparr>) + f (ln_mode (in_listeners x ! i)) =
      total f x + f (ln_mode l)"
  unfolding total_def using sum_list_update_nat [of i "in_listeners x" "\<lambda>l. f (ln_mode l)" l] by simp

text \<open>Every batch ends at a height a node has answered.\<close>

definition low :: "('q, 'r) indexer \<Rightarrow> bool" where
  "low x \<longleftrightarrow> (\<forall>l\<in>set (in_listeners x). \<forall>lo to vs. ln_mode l = Batch lo to vs \<longrightarrow> unat to < 2 ^ 63)"

lemma listener_step_low:
  assumes "listener_step L (nodes nm) c l l'" "answering nodes"
    and "\<And>lo to vs. ln_mode l = Batch lo to vs \<Longrightarrow> unat to < 2 ^ 63" "ln_mode l' = Batch lo to vs"
  shows "unat to < 2 ^ 63"
  using assms by (cases rule: listener_step.cases) (auto simp: answering_def)

lemma indexer_step_low:
  assumes "indexer_step L h nodes x x'" "answering nodes" "low x"
  shows "low x'"
  using assms(1)
proof cases
  case (listens i l l')
  have "l \<in> set (in_listeners x)" using listens(3,4) by simp
  then have "unat to < 2 ^ 63" if "ln_mode l' = Batch lo to vs" for lo to vs
    using listener_step_low [OF listens(5) assms(2) _ that] assms(3) by (auto simp: low_def)
  then show ?thesis
    using assms(3) listens(1) by (auto simp: low_def dest!: set_update_subset_insert [THEN subsetD])
next
  case (handles i l lo to v vs u s)
  have "l \<in> set (in_listeners x)" using handles(3,4) by simp
  then have "unat to < 2 ^ 63" using assms(3) handles(5) by (auto simp: low_def)
  then show ?thesis
    using assms(3) handles(1) by (auto simp: low_def dest!: set_update_subset_insert [THEN subsetD])
qed (use assms(3) in \<open>simp_all add: low_def\<close>)


section \<open>Every step leaves less\<close>

definition less_left :: "mode \<Rightarrow> mode \<Rightarrow> bool" where
  "less_left m' m \<longleftrightarrow> blocks_left m' < blocks_left m \<or>
     blocks_left m' = blocks_left m \<and> (logs_left m' < logs_left m \<or>
       logs_left m' = logs_left m \<and> turns_left m' < turns_left m)"

lemma next_batch_left:
  assumes "lo \<le> to" "unat to < 2 ^ 63"
  shows "blocks_left (Batch (lo + batch_size c) to vs) < blocks_left (Batch lo to ws)"
proof -
  have "unat (lo + batch_size c) = unat lo + unat (batch_size c)"
    using assms batch_size_pos [of c] by (intro unat_add_u64) (simp add: word_le_nat_alt)
  with assms(1) batch_size_pos(2) [of c] show ?thesis by (simp add: word_le_nat_alt)
qed

lemma listener_step_left:
  assumes "listener_step L nd c l l'" "\<And>lo to vs. ln_mode l = Batch lo to vs \<Longrightarrow> unat to < 2 ^ 63"
    and "ln_mode l = Polling \<Longrightarrow> \<nexists>lo to vs. ln_mode l' = Batch lo to vs"
  shows "less_left (ln_mode l') (ln_mode l)"
  using assms(1)
proof cases
  case (refused lo to err)
  from next_batch_left [OF refused(3) assms(2) [OF refused(2)]] show ?thesis
    unfolding less_left_def refused(1,2) by simp
next
  case (fetched lo to logs)
  from next_batch_left [OF fetched(3) assms(2) [OF fetched(2)]] show ?thesis
    unfolding less_left_def fetched(1,2) by simp
next
  case (caught_up lo to)
  then show ?thesis by (simp add: less_left_def word_le_nat_alt)
qed (use assms(3) in \<open>auto simp: less_left_def\<close>)

lemma total_left:
  assumes "i < length (in_listeners x)" "less_left (ln_mode l) (ln_mode (in_listeners x ! i))"
    and "y' = y\<lparr>in_listeners := (in_listeners x)[i := l]\<rparr>" "in_panic y = in_panic x" "in_closed y = in_closed x"
  shows "(y', x) \<in> to_do"
proof -
  note t = total_update [OF assms(1), where y = y and l = l, folded assms(3)]
  show ?thesis
    using assms(2,4,5) t [of blocks_left] t [of logs_left] t [of turns_left]
    by (auto simp: to_do_def less_left_def ends_left_def assms(3))
qed

lemma winds_left:
  assumes "winds L h nodes x x'" "low x"
  shows "(x', x) \<in> to_do"
proof -
  have s: "indexer_step L h nodes x x'" "\<not> starts_poll x x'" "in_cancelled x"
    using assms(1) by (simp_all add: winds_def)
  from s(1) show ?thesis
  proof cases
    case (listens i l l')
    have "l \<in> set (in_listeners x)" using listens(3,4) by simp
    with assms(2) have l: "unat to < 2 ^ 63" if "ln_mode l = Batch lo to vs" for lo to vs
      using that unfolding low_def by blast
    have "\<nexists>lo to vs. ln_mode l' = Batch lo to vs" if "ln_mode l = Polling"
      using s(2) that listens(1,3,4) by (auto simp: starts_poll_def)
    from listener_step_left [OF listens(5) l this] listens(4) show ?thesis
      by (intro total_left [OF listens(3) _ listens(1)]) simp_all
  next
    case (handles i l lo to v vs u s)
    have "less_left (Batch lo to vs) (Batch lo to (v # vs))" by (simp add: less_left_def)
    with handles(4,5) show ?thesis
      by (intro total_left [OF handles(3), where y = "x\<lparr>in_stores := s\<rparr>"]) (simp_all add: handles(1))
  next
    case (panics i l lo to v vs p s)
    then show ?thesis by (simp add: to_do_def ends_left_def total_def)
  next
    case stop_signal
    with s(3) show ?thesis by simp
  next
    case exits
    then show ?thesis by (simp add: to_do_def ends_left_def total_def)
  qed
qed

lemma winds_wf: "wf to_do"
  by (simp add: to_do_def)

section \<open>Where it stops\<close>

text \<open>When \<^verbatim>\<open>main\<close> has returned its listeners had, and it closed the stores it has clients of.\<close>

definition ix_conns :: "('q, 'r) EventHandler \<Rightarrow> resource list" where
  "ix_conns h = (if eh_qdrant h \<noteq> None then [QdrantConn] else []) @ (if eh_redis h \<noteq> None then [RedisConn] else [])"

definition closed_ok :: "('q, 'r) EventHandler \<Rightarrow> ('q, 'r) indexer \<Rightarrow> bool" where
  "closed_ok h x \<longleftrightarrow> (in_closed x \<noteq> None \<longrightarrow>
     in_closed x = Some (ix_conns h) \<and> (\<forall>l\<in>set (in_listeners x). ln_mode l = Ended))"

lemma ended_rests: "ln_mode l = Ended \<Longrightarrow> \<not> listener_step L nd c l l'"
  by (auto elim: listener_stepE)

lemma indexer_step_closed_ok:
  assumes "indexer_step L h nodes x x'" "closed_ok h x"
  shows "closed_ok h x'"
  using assms(1)
proof cases
  case (listens i l l')
  have "in_closed x = None"
  proof (rule ccontr)
    assume "in_closed x \<noteq> None"
    then have "ln_mode l = Ended" using assms(2) listens(3,4) by (simp add: closed_ok_def)
    then show False using ended_rests listens(5) by blast
  qed
  then show ?thesis by (simp add: closed_ok_def listens(1))
next
  case (handles i l lo to v vs u s)
  have "in_closed x = None"
  proof (rule ccontr)
    assume "in_closed x \<noteq> None"
    then have "ln_mode l = Ended" using assms(2) handles(3,4) by (simp add: closed_ok_def)
    then show False using handles(5) by simp
  qed
  then show ?thesis by (simp add: closed_ok_def handles(1))
qed (use assms(2) in \<open>simp_all add: closed_ok_def ix_conns_def\<close>)


lemma no_poll_started:
  assumes "in_listeners y = (in_listeners x)[i := l]" "i < length (in_listeners x)"
    and "ln_mode (in_listeners x ! i) = Polling \<Longrightarrow> \<nexists>lo to vs. ln_mode l = Batch lo to vs"
  shows "\<not> starts_poll x y"
proof
  assume "starts_poll x y"
  then obtain j lo to vs where "ln_mode (in_listeners x ! j) = Polling"
    "ln_mode ((in_listeners x)[i := l] ! j) = Batch lo to vs" by (auto simp: starts_poll_def assms(1))
  with assms(2,3) show False by (cases "j = i") auto
qed

lemma listens_winds:
  assumes "in_cancelled x" "in_panic x = None" "i < length (in_listeners x)"
    and "listener_step L (nodes (ls_name (ln_chain (in_listeners x ! i)))) True (in_listeners x ! i) l'"
    and "ln_mode (in_listeners x ! i) = Polling \<Longrightarrow> \<nexists>lo to vs. ln_mode l' = Batch lo to vs"
  shows "\<exists>x'. winds L h nodes x x'"
proof -
  let ?x = "x\<lparr>in_listeners := (in_listeners x)[i := l']\<rparr>"
  have "\<not> starts_poll x ?x" by (rule no_poll_started [OF _ assms(3,5)]) simp
  with listens [of x i "in_listeners x ! i" L nodes l' h] assms(1-4) show ?thesis
    unfolding winds_def by auto
qed

lemma handles_winds:
  assumes "in_cancelled x" "in_panic x = None" "i < length (in_listeners x)"
    and "ln_mode (in_listeners x ! i) = Batch lo to (v # vs)"
  shows "\<exists>x'. winds L h nodes x x'"
proof -
  obtain r s where p: "processEventLog L h (ls_name (ln_chain (in_listeners x ! i))) v (in_stores x) = (r, s)"
    by (metis surj_pair)
  have quiet: "\<not> starts_poll x (x\<lparr>in_stores := s, in_panic := q\<rparr>)"
    "\<not> starts_poll x (x\<lparr>in_stores := s, in_listeners := (in_listeners x)[i := l]\<rparr>)" for q l
    using assms(4) no_poll_started [OF _ assms(3), where y = "x\<lparr>in_stores := s, in_listeners := (in_listeners x)[i := l]\<rparr>"]
    by (auto simp: starts_poll_def)
  show ?thesis
  proof (cases r)
    case (Inl e)
    from panics [of x i "in_listeners x ! i" lo to v vs L h e s nodes] assms p quiet(1) Inl show ?thesis
      unfolding winds_def by blast
  next
    case (Inr u)
    from handles [of x i "in_listeners x ! i" lo to v vs L h u s nodes] assms p quiet(2) Inr show ?thesis
      unfolding winds_def by blast
  qed
qed

lemma winds_progress:
  assumes "answering nodes" "in_cancelled x" "in_panic x = None" "in_closed x = None"
  shows "\<exists>x'. winds L h nodes x x'"
proof (cases "\<forall>l\<in>set (in_listeners x). ln_mode l = Ended")
  case True
  from exits [OF assms(3,2,4) this, of L h nodes] assms(2) show ?thesis
    unfolding winds_def by (auto simp: starts_poll_def)
next
  case False
  then obtain i where i: "i < length (in_listeners x)" "ln_mode (in_listeners x ! i) \<noteq> Ended"
    by (auto simp: in_set_conv_nth)
  let ?l = "in_listeners x ! i"
  let ?nd = "nodes (ls_name (ln_chain ?l))"
  note step = listens_winds [OF assms(2,3) i(1), where nodes = nodes and L = L and h = h]
  show ?thesis
  proof (cases "ln_mode ?l")
    case Starting
    obtain a where "nd_block ?nd a" using assms(1) unfolding answering_def by blast
    from step [OF begin_polling [OF Starting this refl]] Starting show ?thesis by simp
  next
    case Polling
    from step [OF end_polling [OF Polling]] show ?thesis by simp
  next
    case (Batch lo to vs)
    show ?thesis
    proof (cases vs)
      case Nil
      show ?thesis
      proof (cases "lo \<le> to")
        case True
        obtain a where a: "nd_logs ?nd (batch_query (listener_query L (ln_chain ?l)) lo
            (batch_end (batch_size (ln_chain ?l)) to lo)) a"
          using assms(1) unfolding answering_def by blast
        show ?thesis
        proof (cases a)
          case (Inl e)
          from step [OF refused [OF Batch [unfolded Nil] True a [unfolded Inl]]] Batch show ?thesis by simp
        next
          case (Inr logs)
          from step [OF fetched [OF Batch [unfolded Nil] True a [unfolded Inr]]] Batch show ?thesis by simp
        qed
      next
        case False
        from step [OF caught_up [OF Batch [unfolded Nil] False]] Batch show ?thesis by simp
      qed
    next
      case (Cons v ws)
      from handles_winds [OF assms(2,3) i(1)] Batch Cons show ?thesis by blast
    qed
  next
    case Ended
    with i(2) show ?thesis by simp
  qed
qed

lemma indexer_reach_low:
  assumes "(indexer_step L h nodes)\<^sup>*\<^sup>* (indexer_init L net cfg s0) x" "answering nodes"
  shows "low x \<and> closed_ok h x"
  using assms(1)
proof (induction rule: rtranclp_induct)
  case base
  show ?case by (auto simp: low_def closed_ok_def indexer_init_def new_listeners_def)
next
  case (step y z)
  then show ?case using indexer_step_low [OF step.hyps(2) assms(2)] indexer_step_closed_ok [OF step.hyps(2)] by simp
qed

lemma winds_reach: "(winds L h nodes)\<^sup>*\<^sup>* x y \<Longrightarrow> (indexer_step L h nodes)\<^sup>*\<^sup>* x y"
  by (rule rtranclp_mono [THEN predicate2D]) (auto simp: winds_def)

lemma indexer_step_cancelled: "indexer_step L h nodes x x' \<Longrightarrow> in_cancelled x \<Longrightarrow> in_cancelled x'"
  by (erule indexer_stepE) simp_all

lemma winds_cancelled: "(winds L h nodes)\<^sup>*\<^sup>* x y \<Longrightarrow> in_cancelled x \<Longrightarrow> in_cancelled y"
  by (induction rule: rtranclp_induct) (auto simp: winds_def dest: indexer_step_cancelled)

text \<open>
  C17: A signal ends the indexer. However many chains it listens to and wherever their listeners are
  in their blocks, after the signal and unless a listener starts another poll the process makes only
  finitely many steps, if its nodes answer and claim no height of 2^63 or more; and where it can make
  none, either a log has crashed it, or every listener has ended and it has closed the stores it had
  clients of, in order.
\<close>
theorem signal_ends_indexer:
  assumes "(indexer_step L h nodes)\<^sup>*\<^sup>* (indexer_init L net cfg s0) x" "in_cancelled x" "answering nodes"
  shows "(\<nexists>f. f 0 = x \<and> (\<forall>n. winds L h nodes (f n) (f (Suc n)))) \<and>
    ((winds L h nodes)\<^sup>*\<^sup>* x y \<longrightarrow> (\<nexists>z. winds L h nodes y z) \<longrightarrow>
       in_panic y \<noteq> None \<or>
       (\<forall>l\<in>set (in_listeners y). ln_mode l = Ended) \<and> in_closed y =
         Some ((if eh_qdrant h \<noteq> None then [QdrantConn] else []) @ (if eh_redis h \<noteq> None then [RedisConn] else [])))"
proof (intro conjI impI notI)
  assume "\<exists>f. f 0 = x \<and> (\<forall>n. winds L h nodes (f n) (f (Suc n)))"
  then obtain f where f: "f 0 = x" "\<And>n. winds L h nodes (f n) (f (Suc n))" by blast
  have "(indexer_step L h nodes)\<^sup>*\<^sup>* x (f n)" for n
    by (induction n) (use f in \<open>auto simp: winds_def intro: rtranclp.rtrancl_into_rtrancl\<close>)
  then have "low (f n)" for n
    using indexer_reach_low [OF rtranclp_trans [OF assms(1)] assms(3)] by blast
  then have "(f (Suc n), f n) \<in> to_do" for n using winds_left [OF f(2)] by blast
  then show False using winds_wf unfolding wf_iff_no_infinite_down_chain by blast
next
  assume y: "(winds L h nodes)\<^sup>*\<^sup>* x y" "\<nexists>z. winds L h nodes y z"
  have c: "in_cancelled y" using winds_cancelled [OF y(1) assms(2)] .
  have "closed_ok h y"
    using indexer_reach_low [OF rtranclp_trans [OF assms(1) winds_reach [OF y(1)]] assms(3)] by simp
  moreover have "in_panic y \<noteq> None \<or> in_closed y \<noteq> None"
    using winds_progress [OF assms(3) c, of L h] y(2) by blast
  ultimately show "in_panic y \<noteq> None \<or> (\<forall>l\<in>set (in_listeners y). ln_mode l = Ended) \<and> in_closed y =
      Some ((if eh_qdrant h \<noteq> None then [QdrantConn] else []) @ (if eh_redis h \<noteq> None then [RedisConn] else []))"
    unfolding closed_ok_def ix_conns_def by blast
qed

text \<open>The sample indexer, signalled before its first poll.\<close>

lemma sample_answering: "answering (\<lambda>nm. sample_node)"
  by (auto simp: answering_def sample_node_def)

theorem signal_ends_indexer_witness:
  "(indexer_step sample_lib sample_events (\<lambda>nm. sample_node))\<^sup>*\<^sup>* sample_indexer (sample_indexer\<lparr>in_cancelled := True\<rparr>) \<and>
   (\<nexists>f. f 0 = sample_indexer\<lparr>in_cancelled := True\<rparr> \<and>
     (\<forall>n. winds sample_lib sample_events (\<lambda>nm. sample_node) (f n) (f (Suc n))))"
proof -
  have "indexer_step sample_lib sample_events (\<lambda>nm. sample_node) sample_indexer (sample_indexer\<lparr>in_cancelled := True\<rparr>)"
    by (rule stop_signal) (simp_all add: sample_indexer_def indexer_init_def)
  then have r: "(indexer_step sample_lib sample_events (\<lambda>nm. sample_node))\<^sup>*\<^sup>* sample_indexer
      (sample_indexer\<lparr>in_cancelled := True\<rparr>)" by (rule r_into_rtranclp)
  from signal_ends_indexer [OF r [unfolded sample_indexer_def] _ sample_answering, folded sample_indexer_def] r
  show ?thesis by simp
qed

end
