(* ===== verification/Indexer_Expiry.thy ===== *)
theory Indexer_Expiry
  imports Indexer_Concurrent
begin

text \<open>
  The indexer's cache when Redis forgets. Documents are stored with a time to live of 24 hours, and a
  server may evict keys: here a command that reports no error has done at most what it says, and any
  other key may have gone. The cache is then within the replay of the logs.
\<close>

section \<open>A server that may forget\<close>

definition redis_forgets :: "'r redis_srv \<Rightarrow> ('r \<Rightarrow> string \<rightharpoonup> rval) \<Rightarrow> bool" where
  "redis_forgets srv view \<longleftrightarrow>
     (\<forall>k v t r r'. rd_Set srv k v t r = (None, r') \<longrightarrow> view r' \<subseteq>\<^sub>m (view r)(k \<mapsto> v)) \<and>
     (\<forall>k r x r'. rd_Get srv k r = (x, r') \<longrightarrow> view r' \<subseteq>\<^sub>m view r) \<and>
     (\<forall>k r r'. rd_Del srv k r = (None, r') \<longrightarrow> view r' \<subseteq>\<^sub>m (view r)(k := None))"

text \<open>One that forgets nothing, and one that forgets every other key at every write.\<close>

lemma sample_redis_forgets: "redis_forgets sample_redis (\<lambda>r. r)"
  by (auto simp: redis_forgets_def sample_redis_def)

definition forgetful_redis :: "kv redis_srv" where
  "forgetful_redis = sample_redis\<lparr>rd_Set := (\<lambda>k v t r. (None, [k \<mapsto> v])), rd_Del := (\<lambda>k r. (None, Map.empty))\<rparr>"

lemma forgetful_redis_forgets: "redis_forgets forgetful_redis (\<lambda>r. r)" "redis_up forgetful_redis"
  by (simp_all add: redis_forgets_def redis_up_def forgetful_redis_def sample_redis_def map_le_def)

lemma cached_mono:
  assumes "view r \<subseteq>\<^sub>m V"
  shows "cached view r ch \<subseteq>\<^sub>m cached (\<lambda>V. V) V ch"
  unfolding map_le_def
proof
  fix i
  assume "i \<in> dom (cached view r ch)"
  then have "cache_key ch i \<in> dom (view r)" by (auto simp: cached_def split: option.splits)
  with assms have "view r (cache_key ch i) = V (cache_key ch i)" by (simp add: map_le_def)
  then show "cached view r ch i = cached (\<lambda>V. V) V ch i" by (simp add: cached_def)
qed

lemma cached_view: "cached (\<lambda>V. V) (view r) ch = cached view r ch"
  by (simp add: cached_def fun_eq_iff)

lemma forgetting_put:
  assumes "redis_forgets srv view" "CacheConsent (Some srv) d t r = (Inr None, r')" "no_colon (cc_Chain d)" "no_colon ch"
  shows "cached view r' ch \<subseteq>\<^sub>m
    (if ch = cc_Chain d then (cached view r ch)(cc_ConsentID d \<mapsto> clean_cache d) else cached view r ch)"
proof -
  let ?V = "(view r)(cache_key (cc_Chain d) (cc_ConsentID d) \<mapsto> RDoc (marshal_cache d))"
  have "view r' \<subseteq>\<^sub>m ?V"
    using assms(1,2) by (auto simp: CacheConsent_def redis_forgets_def Let_def split: prod.splits option.splits)
  then have "cached view r' ch \<subseteq>\<^sub>m cached (\<lambda>V. V) ?V ch" by (rule cached_mono)
  moreover have p: "CacheConsent (Some sample_redis) d t (view r) = (Inr None, ?V)"
    by (simp add: CacheConsent_def sample_redis_def)
  ultimately show ?thesis
    unfolding put_documents [OF sample_redis_ok p assms(3,4)] cached_view [of view r ch] by blast
qed

lemma forgetting_del:
  assumes "redis_forgets srv view" "InvalidateConsent (Some srv) chain i r = (Inr None, r')" "no_colon chain" "no_colon ch"
  shows "cached view r' ch \<subseteq>\<^sub>m (if ch = chain then (cached view r ch)(i := None) else cached view r ch)"
proof -
  let ?V = "(view r)(cache_key chain i := None)"
  have "view r' \<subseteq>\<^sub>m ?V"
    using assms(1,2) by (auto simp: InvalidateConsent_def redis_forgets_def Let_def split: prod.splits option.splits)
  then have "cached view r' ch \<subseteq>\<^sub>m cached (\<lambda>V. V) ?V ch" by (rule cached_mono)
  moreover have p: "InvalidateConsent (Some sample_redis) chain i (view r) = (Inr None, ?V)"
    by (simp add: InvalidateConsent_def sample_redis_def)
  ultimately show ?thesis
    unfolding del_documents [OF sample_redis_ok p assms(3,4)] cached_view [of view r ch] by blast
qed

section \<open>One log\<close>

lemma log_effect_mono: "M \<subseteq>\<^sub>m N \<Longrightarrow> log_effect L chain v M \<subseteq>\<^sub>m log_effect L chain v N"
  by (auto simp: log_effect_def map_le_def split: sum.split)

lemma processEventLog_forgets:
  assumes "processEventLog L h chain v (q, r) = (Inr u, q', r')"
    and "eh_redis h = Some srv" "redis_forgets srv view" "redis_up srv" "no_colon chain" "no_colon ch"
  shows "cached view r' ch \<subseteq>\<^sub>m (if ch = chain then log_effect L chain v (cached view r ch) else cached view r ch)"
proof -
  consider (registered) "sig_registered L v" | (revoked) "\<not> sig_registered L v" "sig_revoked L v"
    | (other) "\<not> sig_registered L v" "\<not> sig_revoked L v" by blast
  then show ?thesis
  proof cases
    case registered
    show ?thesis
    proof (cases "length (lg_Data v) < 128")
      case True
      with assms(1) have "r' = r"
        by (simp add: processEventLog_dispatch(1) [OF registered] handleConsentRegistered_def)
      with True registered show ?thesis by (simp add: log_effect_def)
    next
      case False
      then obtain d where d: "parse_event L chain v = Inr d"
        using assms(1) unfolding processEventLog_dispatch(1) [OF registered] handleConsentRegistered_def
        by (cases "parse_event L chain v") auto
      obtain r1 where c: "CacheConsent (Some srv) d hours24 r = (Inr None, r1)"
        using redis_upD(1) [OF assms(4)] by blast
      have "128 \<le> length (lg_Data v)" using False by simp
      with c assms(1) have "r' = r1"
        using processEventLog_registered [OF registered _ d assms(2), of q r] by simp
      then have "CacheConsent (Some srv) d hours24 r = (Inr None, r')" using c by simp
      from forgetting_put [OF assms(3) this _ assms(6)] show ?thesis
        using assms(5) registered False d parse_event_chain [OF d] by (auto simp: log_effect_def split: if_splits)
    qed
  next
    case revoked
    note run = assms(1) [unfolded processEventLog_dispatch(2) [OF revoked(2)]]
    show ?thesis
    proof (cases "length (lg_Data v) < 32")
      case True
      with run have "r' = r" by (simp add: handleConsentRevoked_def)
      with True revoked show ?thesis by (simp add: log_effect_def)
    next
      case False
      then have "32 \<le> length (lg_Data v)" by simp
      from forgetting_del [OF assms(3) handleConsentRevoked_redis [OF run this assms(2,4)] assms(5,6)]
      show ?thesis using revoked False by (auto simp: log_effect_def split: if_splits)
    qed
  next
    case other
    with assms(1) have "r' = r" by (simp add: other_log)
    with other show ?thesis by (simp add: log_effect_def)
  qed
qed

interpretation forgetting: log_tracker "(\<subseteq>\<^sub>m)" L h view "eh_redis h = Some srv \<and> redis_forgets srv view \<and> redis_up srv"
  for L h view srv
proof
  show "cached view r' ch \<subseteq>\<^sub>m (if ch = chain then log_effect L chain v (cached view r ch) else cached view r ch)"
    if "eh_redis h = Some srv \<and> redis_forgets srv view \<and> redis_up srv"
      "processEventLog L h chain v (q, r) = (Inr u, q', r')" "no_colon chain" "no_colon ch"
    for chain v q r u q' r' ch
    by (rule processEventLog_forgets [OF that(2) that(1) [THEN conjunct1] that(1) [THEN conjunct2, THEN conjunct1]
      that(1) [THEN conjunct2, THEN conjunct2] that(3,4)])
  show "M \<subseteq>\<^sub>m M" for M :: documents by simp
  show "M \<subseteq>\<^sub>m K" if "M \<subseteq>\<^sub>m N" "N \<subseteq>\<^sub>m K" for M N K :: documents
    using that by (rule map_le_trans)
  show "log_effect L chain v M \<subseteq>\<^sub>m log_effect L chain v N" if "M \<subseteq>\<^sub>m N" for chain v M N
    using that by (rule log_effect_mono)
qed

section \<open>The whole indexer\<close>

text \<open>
  C31: Expiry loses documents and invents none. Let Redis answer every command without an error but
  forget any keys at any command, as it does when a document's 24 hours are over. Then in a run of the
  whole indexer against nodes that answer with one sequence of logs each, as long as no log has made it
  panic, whenever a listener waits for its next poll, each document the cache holds for its chain is the
  one that replaying the logs of the blocks after its start up to its height, on what was there at
  first, gives for that id: a consent whose last such log is a revocation is not cached, and no document
  of an earlier log outlives a later one.
\<close>
theorem cache_within_replay:
  assumes "(indexer_step L h nodes)\<^sup>*\<^sup>* (indexer_init L net cfg s0) x"
    and "honest_nodes L logs_of nodes (indexer_init L net cfg s0)"
    and "eh_redis h = Some srv" "redis_forgets srv view" "redis_up srv"
    and "in_panic x = None" "l \<in> set (in_listeners x)" "ln_mode l = Polling" "nm = ls_name (ln_chain l)"
    and "cached view (snd (in_stores x)) nm i = Some d"
  shows "replay L nm (concat (map (logs_of nm) [Suc (unat (ln_start l))..<Suc (unat (ln_last l))]))
    (cached view (snd s0) nm) i = Some d"
proof -
  have "tracked (\<subseteq>\<^sub>m) L view (snd s0) x"
    using forgetting.tracked_reach [OF assms(1)] assms(3-5) by blast
  then have "cached view (snd (in_stores x)) nm \<subseteq>\<^sub>m replay L nm (ln_handled l) (cached view (snd s0) nm)"
    using assms(6,7,9) by (simp add: tracked_def Let_def)
  then have "replay L nm (ln_handled l) (cached view (snd s0) nm) i = Some d"
    using assms(10) by (auto simp: map_le_def dom_def)
  then show ?thesis by (simp only: polling_handled [OF assms(1,2,7-9)])
qed

theorem cache_within_replay_witness:
  "\<exists>x d. (indexer_step sample_lib sample_events (\<lambda>nm. sample_node))\<^sup>*\<^sup>* sample_indexer x \<and>
     cached (\<lambda>r. r) (snd (in_stores x)) ''sepolia'' (HashHex sample_lib (replicate 32 5)) = Some d \<and>
     replay sample_lib ''sepolia'' [sample_log] Map.empty (HashHex sample_lib (replicate 32 5)) = Some d"
proof -
  let ?i = "HashHex sample_lib (replicate 32 5)"
  obtain c ls where x0: "sample_indexer = \<lparr> in_stores = ([], Map.empty), in_listeners =
        \<lparr> ln_chain = c, ln_mode = Starting, ln_last = 0, ln_start = 0, ln_handled = [] \<rparr> # ls,
      in_cancelled = False, in_panic = None, in_closed = None \<rparr>"
    and c: "ls_name c = ''sepolia''" "ls_startBlock c = 0"
    using sample_indexer_first by blast
  obtain q r where s: "processEventLog sample_lib sample_events ''sepolia'' sample_log ([], Map.empty) = (Inr (), q, r)"
    using sample_log_handled by (metis prod.collapse)
  note run = sample_indexer_run [OF c s, of ls, folded x0]
  have h: "honest_nodes sample_lib (\<lambda>nm. sample_logs) (\<lambda>nm. sample_node) sample_indexer"
    by (simp add: honest_nodes_def sample_node_honest)
  have e: "eh_redis sample_events = Some sample_redis" by (simp add: sample_events_def)
  have l: "concat (map sample_logs [Suc (unat (6 :: u64))..<Suc (unat (7 :: u64))]) = [sample_log]"
    by (simp add: sample_logs_def)
  have none: "cached (\<lambda>r. r) (snd ([], Map.empty)) ''sepolia'' = Map.empty" by (simp add: cached_def fun_eq_iff)
  have "cached (\<lambda>r. r) r ''sepolia'' = log_effect sample_lib ''sepolia'' sample_log Map.empty"
    using processEventLog_effect [OF s e sample_redis_ok sample_redis_up, of "''sepolia''"] none
    by (simp add: no_colon_def)
  then obtain d where d: "cached (\<lambda>r. r) r ''sepolia'' ?i = Some d"
    using sample_log_parsed by (auto simp: log_effect_def event_document_def)
  let ?x = "\<lparr> in_stores = (q, r), in_listeners =
        \<lparr> ln_chain = c, ln_mode = Polling, ln_last = 7, ln_start = 6, ln_handled = [sample_log] \<rparr> # ls,
      in_cancelled = False, in_panic = None, in_closed = None \<rparr>"
  have "replay sample_lib ''sepolia'' [sample_log] Map.empty ?i = Some d"
    using cache_within_replay [OF run [unfolded sample_indexer_def] h [unfolded sample_indexer_def] e
        sample_redis_forgets sample_redis_up,
        of "\<lparr> ln_chain = c, ln_mode = Polling, ln_last = 7, ln_start = 6, ln_handled = [sample_log] \<rparr>" "''sepolia''" ?i d]
      c(1) d l none by simp
  with run d show ?thesis by (intro exI [of _ ?x] exI [of _ d]) simp
qed

end
