(* ===== verification/Refine.thy ===== *)
theory Refine
  imports Prelude
begin

text \<open>
  The interface between a concurrent component and the abstract machine it implements: every step of
  the code is some steps of the machine, seen through an abstraction of the state.
\<close>

locale simulation =
  fixes cstep :: "'s \<Rightarrow> 's \<Rightarrow> bool"
    and astep :: "'a \<Rightarrow> 'a \<Rightarrow> bool"
    and absn :: "'s \<Rightarrow> 'a"
    and inv :: "'s \<Rightarrow> bool"
  assumes inv_step: "inv s \<Longrightarrow> cstep s s' \<Longrightarrow> inv s'"
    and sim_step: "inv s \<Longrightarrow> cstep s s' \<Longrightarrow> astep\<^sup>*\<^sup>* (absn s) (absn s')"
begin

lemma sim_run:
  assumes "cstep\<^sup>*\<^sup>* s s'" "inv s"
  shows "astep\<^sup>*\<^sup>* (absn s) (absn s') \<and> inv s'"
  using assms(1)
proof (induction rule: rtranclp_induct)
  case base
  with assms(2) show ?case by simp
next
  case (step s1 s2)
  with sim_step [of s1 s2] inv_step [of s1 s2] show ?case by (auto intro: rtranclp_trans)
qed

text \<open>What the machine never undoes, the code never undoes.\<close>

lemma sim_stable:
  assumes "cstep\<^sup>*\<^sup>* s s'" "inv s" "P (absn s)" "\<And>a a'. astep a a' \<Longrightarrow> P a \<Longrightarrow> P a'"
  shows "P (absn s')"
proof -
  have "astep\<^sup>*\<^sup>* (absn s) (absn s')" using sim_run [OF assms(1,2)] ..
  then show ?thesis
    by (induction rule: rtranclp_induct) (use assms(3,4) in auto)
qed

end

text \<open>An operation that is one step of the machine, or none.\<close>

lemma one_step: "r a b \<Longrightarrow> r\<^sup>*\<^sup>* a b"
  by (rule r_into_rtranclp)

lemma stutter_step: "a = b \<Longrightarrow> r\<^sup>*\<^sup>* a b"
  by simp

end
