(* ===== verification/Pool_Board.thy ===== *)
theory Pool_Board
  imports Pool_Runs Refine
begin

text \<open>
  What the worker pool promises of a task, without channels, workers or timers: a board that says of
  every accepted task how often it may be retried and how far it is. The pool of
  \<^verbatim>\<open>backend/go-api/internal/worker/pool.go\<close> is shown to follow the board.
\<close>

section \<open>The board\<close>

text \<open>A task waits for its attempt number \<open>n\<close>, runs it, or is over.\<close>

datatype stage = Waiting nat | Running nat | Completed | GivenUp

type_synonym board = "ptr \<rightharpoonup> int \<times> stage"

inductive board_step :: "board \<Rightarrow> board \<Rightarrow> bool" where
  accept: "b t = None \<Longrightarrow> board_step b (b(t \<mapsto> (m, Waiting 0)))"
| attempt: "b t = Some (m, Waiting n) \<Longrightarrow> board_step b (b(t \<mapsto> (m, Running n)))"
| reject: "b t = Some (m, Waiting n) \<Longrightarrow> board_step b (b(t \<mapsto> (m, GivenUp)))"
| succeed: "b t = Some (m, Running n) \<Longrightarrow> board_step b (b(t \<mapsto> (m, Completed)))"
| retry: "b t = Some (m, Running n) \<Longrightarrow> int n < m \<Longrightarrow> board_step b (b(t \<mapsto> (m, Waiting (Suc n))))"
| exhaust: "b t = Some (m, Running n) \<Longrightarrow> m \<le> int n \<Longrightarrow> board_step b (b(t \<mapsto> (m, GivenUp)))"

inductive_cases board_stepE: "board_step b b'"

definition over :: "stage \<Rightarrow> bool" where
  "over s \<longleftrightarrow> s = Completed \<or> s = GivenUp"

text \<open>The promises themselves: what is over stays so, and nothing runs more than its retries allow.\<close>

lemma board_over_final:
  "board_step b b' \<Longrightarrow> b t = Some (m, s) \<Longrightarrow> over s \<Longrightarrow> b' t = Some (m, s)"
  by (erule board_stepE) (auto simp: over_def)

definition within :: "board \<Rightarrow> bool" where
  "within b \<longleftrightarrow>
     (\<forall>t m n. (b t = Some (m, Waiting n) \<or> b t = Some (m, Running n)) \<longrightarrow> int n \<le> max 0 m)"

lemma within_step: "board_step b b' \<Longrightarrow> within b \<Longrightarrow> within b'"
  by (erule board_stepE) (auto simp: within_def split: if_splits)

section \<open>The board of a pool\<close>

definition stage_of :: "'d Task \<Rightarrow> stage" where
  "stage_of k =
     (case tk_Status k of
        TaskPending \<Rightarrow> Waiting (nat (tk_Retries k))
      | TaskRetry \<Rightarrow> Waiting (nat (tk_Retries k))
      | TaskRunning \<Rightarrow> Running (nat (tk_Retries k))
      | TaskCompleted \<Rightarrow> Completed
      | TaskFailed \<Rightarrow> GivenUp)"

definition line :: "'d Task \<Rightarrow> int \<times> stage" where
  "line k = (tk_MaxRetries k, stage_of k)"

definition board_of :: "'d pool \<Rightarrow> board" where
  "board_of p = map_option line \<circ> p_store p"

lemma board_of_upd:
  "p_store p' = (p_store p)(t \<mapsto> k) \<Longrightarrow> board_of p' = (board_of p)(t \<mapsto> line k)"
  by (rule ext) (simp add: board_of_def)

lemma board_of_at: "p_store p t = Some k \<Longrightarrow> board_of p t = Some (line k)"
  by (simp add: board_of_def)

lemma board_of_same: "p_store p' = p_store p \<Longrightarrow> board_of p' = board_of p"
  by (simp add: board_of_def)

lemma stage_over: "over (stage_of k) \<longleftrightarrow> settled k"
  by (cases "tk_Status k") (simp_all add: stage_of_def over_def settled_def)

section \<open>Every step of the pool\<close>

text \<open>
  A step writes to the record of at most one task. The task is new or not yet settled, and its line
  moves as the board allows.
\<close>

definition writes :: "ptr \<Rightarrow> 'd pool \<Rightarrow> 'd pool \<Rightarrow> bool" where
  "writes t p p' \<longleftrightarrow>
     (\<exists>k. p_store p' = (p_store p)(t \<mapsto> k) \<and> board_step\<^sup>*\<^sup>* (board_of p) ((board_of p)(t \<mapsto> line k)))"

definition touches :: "'d pool \<Rightarrow> 'd pool \<Rightarrow> bool" where
  "touches p p' \<longleftrightarrow>
     p_store p' = p_store p \<or>
     (\<exists>t. writes t p p' \<and> (\<forall>k. p_store p t = Some k \<longrightarrow> \<not> settled k))"

lemma writesI:
  "p_store p' = (p_store p)(t \<mapsto> k) \<Longrightarrow> board_step (board_of p) ((board_of p)(t \<mapsto> line k)) \<Longrightarrow> writes t p p'"
  unfolding writes_def by blast

lemma writes_frame: "p_store q = p_store p \<Longrightarrow> writes t q p' \<Longrightarrow> writes t p p'"
  by (simp add: writes_def board_of_same [of q p])

lemma writes_after:
  assumes "p_store q = (p_store p)(t \<mapsto> k)" "board_step (board_of p) ((board_of p)(t \<mapsto> line k))"
    and "writes t q p'"
  shows "writes t p p'"
proof -
  have b: "board_of q = (board_of p)(t \<mapsto> line k)" by (rule board_of_upd) (rule assms(1))
  obtain k' where st: "p_store p' = (p_store q)(t \<mapsto> k')"
    and steps: "board_step\<^sup>*\<^sup>* (board_of q) ((board_of q)(t \<mapsto> line k'))"
    using assms(3) unfolding writes_def by (elim exE conjE)
  have "p_store p' = (p_store p)(t \<mapsto> k')" unfolding st assms(1) by (rule fun_upd_upd)
  moreover have "board_step\<^sup>*\<^sup>* (board_of p) ((board_of p)(t \<mapsto> line k'))"
    using steps unfolding b fun_upd_upd by (rule converse_rtranclp_into_rtranclp [of board_step, OF assms(2)])
  ultimately show ?thesis unfolding writes_def by (intro exI conjI)
qed

lemma touchesI: "writes t p p' \<Longrightarrow> p_store p t = Some k \<Longrightarrow> \<not> settled k \<Longrightarrow> touches p p'"
  by (auto simp: touches_def)

lemma touches_new: "writes t p p' \<Longrightarrow> p_store p t = None \<Longrightarrow> touches p p'"
  by (auto simp: touches_def)

lemma touches_same: "p_store p' = p_store p \<Longrightarrow> touches p p'"
  by (simp add: touches_def)

lemma waiting_unsettled: "stage_of k = Waiting n \<Longrightarrow> \<not> settled k"
  by (simp add: over_def flip: stage_over)

lemma process_start_writes:
  assumes "p_store q t = Some k" "stage_of k = Waiting n"
  shows "writes t q (process_start i t now q)"
proof -
  have k: "task_at q t = k" using assms(1) by (simp add: task_at_def)
  have b: "board_of q t = Some (tk_MaxRetries k, Waiting n)"
    using board_of_at [OF assms(1)] assms(2) by (simp add: line_def)
  have n: "nat (tk_Retries k) = n"
    using assms(2) by (cases "tk_Status k") (simp_all add: stage_of_def)
  show ?thesis
  proof (cases "p_handlers q (tk_Type k)")
    case None
    then show ?thesis
      using reject [of "board_of q", OF b]
      by (intro writesI [where k = "k\<lparr>tk_UpdatedAt := now, tk_Status := TaskFailed,
            tk_Error := Some (no_handler_error (tk_Type k))\<rparr>"])
        (simp_all add: process_start_def k Let_def line_def stage_of_def)
  next
    case (Some h)
    then show ?thesis
      using attempt [of "board_of q", OF b]
      by (intro writesI [where k = "k\<lparr>tk_Status := TaskRunning, tk_UpdatedAt := now\<rparr>"])
        (simp_all add: process_start_def k Let_def line_def stage_of_def n)
  qed
qed

lemma process_finish_writes:
  assumes "in_hand (laid i p) t k" "tk_Status k = TaskRunning"
  shows "writes t p (process_finish i t result now p)"
proof -
  obtain q where q: "q = laid i p" by simp
  with assms have h: "in_hand q t k" by simp
  have st: "p_store q t = Some k" and r: "0 \<le> tk_Retries k"
    using h by (simp_all add: in_hand_def)
  have r64: "i64 (tk_Retries k + 1) = tk_Retries k + 1"
    using h by (simp add: in_hand_def max_def split: if_splits)
  have b: "board_of q t = Some (tk_MaxRetries k, Running (nat (tk_Retries k)))"
    using board_of_at [OF st] assms(2) by (simp add: line_def stage_of_def)
  note e = process_finish_laid [OF q in_hand_at [OF h] r64]
  have "writes t q (process_finish i t result now p)"
  proof (cases result)
    case None
    show ?thesis
      unfolding None e(1) using succeed [of "board_of q", OF b]
      by (intro writesI [where k = "k\<lparr>tk_Status := TaskCompleted, tk_UpdatedAt := now\<rparr>"])
        (simp_all add: line_def stage_of_def)
  next
    case (Some x)
    show ?thesis
    proof (cases "tk_Retries k + 1 \<le> tk_MaxRetries k")
      case True
      then have "int (nat (tk_Retries k)) < tk_MaxRetries k" using r by simp
      from retry [of "board_of q", OF b this] show ?thesis
        unfolding Some e(2) [OF True] using r
        by (intro writesI [where k = "k\<lparr>tk_Retries := tk_Retries k + 1, tk_Status := TaskRetry,
              tk_Error := Some x, tk_UpdatedAt := now\<rparr>"])
          (simp_all add: line_def stage_of_def nat_add_distrib)
    next
      case False
      then have "tk_MaxRetries k \<le> int (nat (tk_Retries k))" using r by simp
      from exhaust [of "board_of q", OF b this] show ?thesis
        unfolding Some e(3) [OF False]
        by (intro writesI [where k = "k\<lparr>tk_Retries := tk_Retries k + 1, tk_Status := TaskFailed,
              tk_Error := Some x\<rparr>"])
          (simp_all add: line_def stage_of_def)
    qed
  qed
  then show ?thesis by (rule writes_frame [rotated]) (simp add: q)
qed

text \<open>Where a task lies says how far it is.\<close>

lemma queued_waits:
  assumes "pool_ok p" "t \<in> set (p_tasks p) \<or> t \<in> set (p_retry p) \<or> t \<in> snd ` set (p_timers p)"
  shows "\<exists>k n. p_store p t = Some k \<and> stage_of k = Waiting n"
proof -
  have "t \<in># locs p" using assms(2) by (auto simp: in_locs)
  then obtain k where k: "p_store p t = Some k" "task_fits p t k"
    using assms(1) by (auto simp: pool_ok_def locs_ok_def)
  with assms(2) have "tk_Status k = TaskPending \<or> tk_Status k = TaskRetry"
    unfolding task_fits_def by blast
  with k(1) show ?thesis by (auto simp: stage_of_def)
qed

lemma queued_touches:
  assumes "pool_ok p" "t \<in> set (p_tasks p) \<or> t \<in> set (p_retry p) \<or> t \<in> snd ` set (p_timers p)"
    and "p_store q = p_store p"
  shows "touches p (process_start i t now q)"
proof -
  obtain k n where k: "p_store p t = Some k" "stage_of k = Waiting n"
    using queued_waits [OF assms(1,2)] by blast
  then have "writes t q (process_start i t now q)"
    by (intro process_start_writes) (simp_all add: assms(3))
  from writes_frame [OF assms(3) this] show ?thesis
    by (rule touchesI) (rule k(1), rule waiting_unsettled [OF k(2)])
qed

lemma works_touches:
  assumes "works p p'" "pool_ok p"
  shows "touches p p'"
  using assms(1)
proof cases
  case (finish i t h result now)
  from take_up_busy [OF assms(2) finish(2,3)] obtain k where h: "in_hand (laid i p) t k"
    unfolding laid_def by blast
  then have k: "p_store p t = Some k" "\<not> settled k" by (simp_all add: in_hand_def)
  have "t \<in># busy (p_workers p)"
    using busy_split [OF finish(2)] finish(3) by simp
  then have "tk_Status k = TaskRunning"
    using assms(2) k(1) by (simp add: pool_ok_def task_fits_def)
  with h have "writes t p p'" unfolding finish(1) by (rule process_finish_writes)
  then show ?thesis using k by (rule touchesI)
qed (auto intro!: queued_touches [OF assms(2)] intro: touches_same)

lemma submit_touches:
  assumes "pool_ok p" "submit_ready ch p" "p_store p t = None" "new_task k"
  shows "touches p (snd (Submit ch t k p))"
proof -
  let ?q = "p\<lparr>p_store := (p_store p)(t \<mapsto> k), p_queued := p_queued p + 1\<rparr>"
  have k: "stage_of k = Waiting 0" using assms(4) by (simp add: stage_of_def new_task_def)
  have "board_of p t = None" using assms(3) by (simp add: board_of_def)
  then have b: "board_step (board_of p) ((board_of p)(t \<mapsto> line k))"
    unfolding line_def k by (rule accept)
  have "writes t p (snd (Submit ch t k p))" if "ch = SendTask \<or> (\<exists>i now. ch = HandTo i now)"
  proof (cases ch)
    case (HandTo i now)
    have "writes t ?q (process_start i t now ?q)" using k by (intro process_start_writes) simp_all
    from writes_after [OF _ b this] show ?thesis using HandTo by (simp add: Submit_def)
  qed (use b that in \<open>auto simp: Submit_def intro: writesI\<close>)
  then show ?thesis
    using touches_new [OF _ assms(3)] by (cases ch) (simp_all add: Submit_def touches_same)
qed

lemma pool_step_touches:
  assumes "pool_step p p'" "pool_ok p"
  shows "touches p p'"
  using assms(1)
proof cases
  case work
  then show ?thesis using works_touches assms(2) by blast
next
  case (submit ch t k)
  then show ?thesis using submit_touches assms(2) by blast
next
  case cancel
  then show ?thesis by (simp add: touches_def)
qed

lemma touches_board:
  assumes "touches p p'"
  shows "board_step\<^sup>*\<^sup>* (board_of p) (board_of p')"
  using assms unfolding touches_def
proof
  assume "p_store p' = p_store p"
  then show ?thesis by (simp add: board_of_same [of p' p])
next
  assume "\<exists>t. writes t p p' \<and> (\<forall>k. p_store p t = Some k \<longrightarrow> \<not> settled k)"
  then obtain t k where "p_store p' = (p_store p)(t \<mapsto> k)"
    and "board_step\<^sup>*\<^sup>* (board_of p) ((board_of p)(t \<mapsto> line k))"
    unfolding writes_def by (elim exE conjE)
  then show ?thesis by (simp only: board_of_upd)
qed

lemma touches_settled:
  "touches p p' \<Longrightarrow> p_store p t = Some k \<Longrightarrow> settled k \<Longrightarrow> p_store p' t = Some k"
  by (auto simp: touches_def writes_def)

section \<open>The pool follows the board\<close>

lemma reach_steps: "reach p0 p \<longleftrightarrow> pool_step\<^sup>*\<^sup>* p0 p"
proof
  show "reach p0 p \<Longrightarrow> pool_step\<^sup>*\<^sup>* p0 p"
    by (induction rule: reach.induct) auto
  show "pool_step\<^sup>*\<^sup>* p0 p \<Longrightarrow> reach p0 p"
    by (induction rule: rtranclp_induct) (auto intro: here more)
qed

interpretation pool_board: simulation pool_step board_step board_of pool_ok
proof
  show "pool_ok p'" if "pool_ok p" "pool_step p p'" for p p' :: "'a pool"
    using pool_step_ok [OF that(2,1)] .
  show "board_step\<^sup>*\<^sup>* (board_of p) (board_of p')" if "pool_ok p" "pool_step p p'" for p p' :: "'a pool"
    using touches_board [OF pool_step_touches [OF that(2,1)]] .
qed

interpretation settled_tasks: simulation pool_step
  "\<lambda>s s'. \<forall>t k. s t = Some k \<longrightarrow> settled k \<longrightarrow> s' t = Some k" p_store pool_ok
proof
  show "pool_ok p'" if "pool_ok p" "pool_step p p'" for p p' :: "'a pool"
    using pool_step_ok [OF that(2,1)] .
  show "(\<lambda>s s'. \<forall>t k. s t = Some k \<longrightarrow> settled k \<longrightarrow> s' t = Some k)\<^sup>*\<^sup>* (p_store p) (p_store p')"
    if "pool_ok p" "pool_step p p'" for p p' :: "'a pool"
    using touches_settled [OF pool_step_touches [OF that(2,1)]] by (intro one_step) simp
qed

text \<open>
  C7: The pool keeps the promises of its board. Whatever its clients, workers and timers do from any
  reachable state on, what happens to the tasks is what the board allows: each is accepted once,
  attempted, and then over or waiting for the next attempt, never beyond its limit; and the record of
  a task that has completed or failed is never written again.
\<close>
theorem pool_follows_board:
  assumes "pool_from w q hs p" "reach p p'"
  shows "board_step\<^sup>*\<^sup>* (board_of p) (board_of p') \<and> within (board_of p') \<and>
    (\<forall>t k. p_store p t = Some k \<and> settled k \<longrightarrow> p_store p' t = Some k)"
proof (intro conjI allI impI)
  note ok = pool_from_ok [OF assms(1)]
  have steps: "pool_step\<^sup>*\<^sup>* p p'" using assms(2) by (simp add: reach_steps)
  show "board_step\<^sup>*\<^sup>* (board_of p) (board_of p')"
    using pool_board.sim_run [OF steps ok] ..
  obtain p0 where new: "NewPool w q = Inr p0" and run: "reach (with_handlers hs p0) p"
    using assms(1) by (auto simp: pool_from_def)
  have "pool_step\<^sup>*\<^sup>* (with_handlers hs p0) p'"
    using run steps by (simp add: reach_steps)
  moreover have "within (board_of (with_handlers hs p0))"
    using new by (auto simp: within_def board_of_def with_handlers_frame NewPool_def split: if_splits)
  moreover have "pool_ok (with_handlers hs p0)"
    using pool_ok_NewPool [OF new] by (rule with_handlers_ok)
  ultimately show "within (board_of p')"
    using pool_board.sim_stable [of _ p' within] within_step by blast
  show "p_store p' t = Some k" if "p_store p t = Some k \<and> settled k" for t k
    using settled_tasks.sim_stable [OF steps ok, of "\<lambda>s. s t = Some k"] that by blast
qed

text \<open>The sample pool's task is run: two steps of the board.\<close>

lemma run_reach: "run n p p' \<Longrightarrow> pool_step\<^sup>*\<^sup>* p p'"
  by (induction rule: run.induct) (auto intro: work converse_rtranclp_into_rtranclp)

theorem pool_follows_board_witness:
  "board_step\<^sup>*\<^sup>* [0 \<mapsto> (3, Waiting 0)] [0 \<mapsto> (3, Completed)]"
proof -
  have "reach sample_pool sample_end"
    using run_reach [OF sample_run] by (simp add: reach_steps)
  from pool_follows_board [OF sample_from this]
  have "board_step\<^sup>*\<^sup>* (board_of sample_pool) (board_of sample_end)" ..
  moreover have "board_of sample_pool = [0 \<mapsto> (3, Waiting 0)]" "board_of sample_end = [0 \<mapsto> (3, Completed)]"
    by (simp_all add: board_of_def sample_pool_def sample_end_def sample_task_def sample_fresh_def line_def
        stage_of_def fun_eq_iff)
  ultimately show ?thesis by simp
qed

end
