(* ===== verification/Task_Runs.thy ===== *)
theory Task_Runs
  imports Server
begin

text \<open>
  The server's own pool with the server's own tasks: what happens to tasks made by the constructors of
  \<^verbatim>\<open>internal/worker/tasks.go\<close> in the pool that \<^verbatim>\<open>main\<close> starts and \<^verbatim>\<open>RegisterTaskHandlers\<close> equips.
\<close>

section \<open>Made tasks\<close>

definition made_task :: "task_data Task \<Rightarrow> bool" where
  "made_task k \<longleftrightarrow>
     (\<exists>u n m a b c. k = NewProofGenerationTask u n m a b c) \<or>
     (\<exists>u n m doc. k = NewQdrantIndexingTask u n m doc) \<or>
     (\<exists>u n m a b c e. k = NewNotificationTask u n m a b c e) \<or>
     (\<exists>u n m a b blk c e. k = NewEventIndexingTask u n m a b blk c e)"

text \<open>The pool's steps when its clients submit made tasks only, by either of the two calls.\<close>

inductive made_step :: "task_data pool \<Rightarrow> task_data pool \<Rightarrow> bool" where
  made_works: "works p p' \<Longrightarrow> made_step p p'"
| made_submit: "submit_ready ch p \<Longrightarrow> p_store p t = None \<Longrightarrow> made_task k \<Longrightarrow>
     made_step p (snd (Submit ch t k p))"
| made_submit_retry: "submit_ready ch p \<Longrightarrow> p_store p t = None \<Longrightarrow> made_task k \<Longrightarrow> mx < 2 ^ 63 - 1 \<Longrightarrow>
     made_step p (snd (SubmitWithRetry ch t k mx p))"
| made_cancel: "made_step p (p\<lparr>p_cancelled := True\<rparr>)"

inductive_cases made_stepE: "made_step p p'"

lemmas makers = NewProofGenerationTask_def NewQdrantIndexingTask_def NewNotificationTask_def
  NewEventIndexingTask_def NewTask_def

lemma made_new: "made_task k \<Longrightarrow> mx < 2 ^ 63 - 1 \<Longrightarrow> new_task k \<and> new_task (k\<lparr>tk_MaxRetries := mx\<rparr>)"
  by (auto simp: made_task_def new_task_def makers)

lemma made_pool_step: "made_step p p' \<Longrightarrow> pool_step p p'"
  by (erule made_stepE) (auto intro: work submit cancel simp: made_new [of _ 0] made_new SubmitWithRetry_def)

lemma made_reach: "made_step\<^sup>*\<^sup>* p0 p \<Longrightarrow> reach p0 p"
  by (induction rule: rtranclp_induct) (auto intro: here more made_pool_step)

section \<open>What the registered handlers may return\<close>

definition registered :: "'q qdrant_client \<Rightarrow> 'r redis_srv option \<Rightarrow> task_data pool \<Rightarrow> bool" where
  "registered qdrant rclient p \<longleftrightarrow>
     list_all (\<lambda>ty. p_handlers p ty = Some (runs_handler qdrant rclient ty))
       [TaskProofGeneration, TaskQdrantIndexing, TaskNotificationDispatch, TaskEventIndexing]"

lemma registered_after: "registered qdrant rclient (RegisterTaskHandlers qdrant rclient p)"
  by (simp add: registered_def registered_handlers [of _ _ _ _ "[]" "''''"] task_handler_def task_types)

definition index_error :: "goerr \<Rightarrow> bool" where
  "index_error e \<longleftrightarrow> (\<exists>x. e = ''failed to index consent in Qdrant: '' @ x)"

definition event_error :: "goerr \<Rightarrow> bool" where
  "event_error e \<longleftrightarrow> (\<exists>x. e = ''failed to invalidate cache for event: '' @ x)"

lemma returns_nothing:
  "runs_handler qdrant rclient TaskProofGeneration k result \<Longrightarrow> tk_Data k = ProofGen d \<Longrightarrow> result = None"
  "runs_handler qdrant rclient TaskNotificationDispatch k result \<Longrightarrow> tk_Data k = Notification d' \<Longrightarrow> result = None"
  by (auto simp: runs_handler_def task_handler_def task_types handleProofGeneration_def handleNotificationDispatch_def
      Let_def)

lemma index_result: "handleQdrantIndexing qdrant ctx pid d q = (Inr (Some e), q') \<Longrightarrow> index_error e"
  by (auto simp: handleQdrantIndexing_def index_error_def Let_def split: prod.splits sum.splits option.splits)

lemma event_result: "handleEventIndexing rclient d r = (Inr (Some e), r') \<Longrightarrow> event_error e"
  by (auto simp: handleEventIndexing_def event_error_def split: prod.splits sum.splits option.splits if_splits)

lemma gzoom_result: "gzoom get put m s = (x, s') \<Longrightarrow> \<exists>t. m (get s) = (x, t)"
  by (cases "m (get s)") (simp add: gzoom_def)

lemma returns_index:
  "runs_handler qdrant rclient TaskQdrantIndexing k (Some e) \<Longrightarrow> tk_Data k = QdrantIndex d \<Longrightarrow> index_error e"
  by (auto simp: runs_handler_def task_handler_def task_types dest!: gzoom_result intro: index_result)

lemma returns_event:
  "runs_handler qdrant rclient TaskEventIndexing k (Some e) \<Longrightarrow> tk_Data k = EventIndex d \<Longrightarrow> event_error e"
  by (auto simp: runs_handler_def task_handler_def task_types dest!: gzoom_result intro: event_result)

section \<open>The invariant\<close>

definition unfailed :: "task_data Task \<Rightarrow> bool" where
  "unfailed k \<longleftrightarrow> tk_Status k \<in> {TaskPending, TaskRunning, TaskCompleted}"

definition clean_task :: "task_data Task \<Rightarrow> bool" where
  "clean_task k \<longleftrightarrow> (case tk_Data k of
     ProofGen d \<Rightarrow> tk_Type k = TaskProofGeneration \<and> tk_Error k = None \<and> tk_Retries k = 0 \<and> unfailed k
   | Notification d \<Rightarrow> tk_Type k = TaskNotificationDispatch \<and> tk_Error k = None \<and> tk_Retries k = 0 \<and> unfailed k
   | QdrantIndex d \<Rightarrow> tk_Type k = TaskQdrantIndexing \<and>
       (case tk_Error k of None \<Rightarrow> unfailed k | Some e \<Rightarrow> index_error e)
   | EventIndex d \<Rightarrow> tk_Type k = TaskEventIndexing \<and>
       (case tk_Error k of None \<Rightarrow> unfailed k | Some e \<Rightarrow> event_error e)
   | OtherData \<Rightarrow> False)"

definition all_clean :: "task_data pool \<Rightarrow> bool" where
  "all_clean p \<longleftrightarrow> (\<forall>t k. p_store p t = Some k \<longrightarrow> clean_task k)"

lemma all_clean_store: "p_store p' = p_store p \<Longrightarrow> all_clean p' = all_clean p"
  by (simp add: all_clean_def)

lemma all_clean_upd: "all_clean p \<Longrightarrow> clean_task k \<Longrightarrow> p_store p' = (p_store p)(t \<mapsto> k) \<Longrightarrow> all_clean p'"
  by (auto simp: all_clean_def)

lemma made_clean: "made_task k \<Longrightarrow> clean_task k \<and> clean_task (k\<lparr>tk_MaxRetries := mx\<rparr>)"
  by (auto simp: made_task_def clean_task_def unfailed_def makers)

text \<open>A clean task has a registered handler, so it starts running.\<close>

lemma start_clean:
  assumes "all_clean p" "p_store p t = Some k" "registered qdrant rclient p"
  shows "all_clean (process_start i t now p)"
proof -
  have k: "clean_task k" using assms(1,2) by (simp add: all_clean_def)
  then have "p_handlers p (tk_Type k) = Some (runs_handler qdrant rclient (tk_Type k))"
    using assms(3) by (auto simp: clean_task_def registered_def split: task_data.splits)
  then have "p_store (process_start i t now p) = (p_store p)(t \<mapsto> k\<lparr>tk_Status := TaskRunning, tk_UpdatedAt := now\<rparr>)"
    using assms(2) by (simp add: process_start_def task_at_def Let_def)
  moreover have "clean_task (k\<lparr>tk_Status := TaskRunning, tk_UpdatedAt := now\<rparr>)"
    using k by (auto simp: clean_task_def unfailed_def split: task_data.splits option.splits)
  ultimately show ?thesis using all_clean_upd [OF assms(1)] by blast
qed

lemma finish_clean:
  assumes "all_clean p" "p_store p t = Some k" "registered qdrant rclient p"
    and "p_handlers p (tk_Type k) = Some h" "h k result"
  shows "all_clean (process_finish i t result now p)"
proof -
  have k: "clean_task k" using assms(1,2) by (simp add: all_clean_def)
  then have r: "runs_handler qdrant rclient (tk_Type k) k result"
    using assms(3-5) by (auto simp: clean_task_def registered_def split: task_data.splits)
  have at: "task_at p t = k" using assms(2) by (simp add: task_at_def)
  show ?thesis
  proof (cases result)
    case None
    have "clean_task (k\<lparr>tk_Status := TaskCompleted, tk_UpdatedAt := now\<rparr>)"
      using k by (auto simp: clean_task_def unfailed_def split: task_data.splits option.splits)
    then show ?thesis
      by (rule all_clean_upd [OF assms(1), where t = t]) (simp add: None process_finish_def at Let_def)
  next
    case (Some e)
    have c: "clean_task (k\<lparr>tk_Retries := n, tk_Status := st, tk_Error := Some e\<rparr>)"
      "clean_task (k\<lparr>tk_Retries := n, tk_Status := st, tk_Error := Some e, tk_UpdatedAt := now\<rparr>)" for n st
      using k r Some
      by (auto simp: clean_task_def split: task_data.splits dest: returns_nothing returns_index returns_event)
    show ?thesis
    proof (cases "i64 (tk_Retries k + 1) \<le> tk_MaxRetries k")
      case True
      then show ?thesis
        by (intro all_clean_upd [OF assms(1) c(2), where t = t]) (simp add: Some process_finish_def at Let_def)
    next
      case False
      then show ?thesis
        by (intro all_clean_upd [OF assms(1) c(1), where t = t]) (simp add: Some process_finish_def at Let_def)
    qed
  qed
qed

lemma works_clean:
  assumes "works p p'" "all_clean p" "registered qdrant rclient p" "pool_ok p"
  shows "all_clean p'"
  using assms(1)
proof cases
  case (take_task i t ts now)
  let ?q = "p\<lparr>p_tasks := ts\<rparr>"
  obtain k where "in_hand ?q t k" using take_up_task [OF assms(4) take_task(4)] ..
  then have "p_store ?q t = Some k" by (simp add: in_hand_def)
  then show ?thesis
    unfolding take_task(1) using assms(2,3) by (intro start_clean [of ?q t k qdrant rclient]) (simp_all add: all_clean_def registered_def)
next
  case (take_retry i t ts now)
  let ?q = "p\<lparr>p_retry := ts\<rparr>"
  obtain k where "in_hand ?q t k" using take_up_retry [OF assms(4) take_retry(4)] ..
  then have "p_store ?q t = Some k" by (simp add: in_hand_def)
  then show ?thesis
    unfolding take_retry(1) using assms(2,3) by (intro start_clean [of ?q t k qdrant rclient]) (simp_all add: all_clean_def registered_def)
next
  case (finish i t h result now)
  obtain k where k: "p_store p t = Some k"
    using take_up_busy [OF assms(4) finish(2,3)] by (auto simp: in_hand_def)
  then have "task_at p t = k" by (simp add: task_at_def)
  with finish_clean [OF assms(2) k assms(3)] finish show ?thesis by simp
next
  case (hand_back xs d t ys i now)
  let ?q = "p\<lparr>p_timers := xs @ ys\<rparr>"
  obtain k where "in_hand ?q t k" using take_up_timer [OF assms(4) hand_back(2)] by blast
  then have "p_store ?q t = Some k" by (simp add: in_hand_def)
  then show ?thesis
    unfolding hand_back(1) using assms(2,3) by (intro start_clean [of ?q t k qdrant rclient]) (simp_all add: all_clean_def registered_def)
qed (use assms(2) in \<open>simp_all add: all_clean_def\<close>)

lemma submit_clean:
  assumes "all_clean p" "registered qdrant rclient p" "clean_task k"
  shows "all_clean (snd (Submit ch t k p))"
proof -
  let ?q = "p\<lparr>p_store := (p_store p)(t \<mapsto> k), p_queued := p_queued p + 1\<rparr>"
  have q: "all_clean ?q" by (rule all_clean_upd [OF assms(1,3), where t = t]) simp
  show ?thesis
  proof (cases ch)
    case SendTask
    have "p_store (snd (Submit ch t k p)) = p_store ?q" by (simp add: SendTask Submit_def)
    then show ?thesis using all_clean_store q by blast
  next
    case (HandTo i now)
    have "all_clean (process_start i t now ?q)"
      using assms(2) by (intro start_clean [OF q, of t k qdrant rclient]) (simp_all add: registered_def)
    then show ?thesis by (simp add: HandTo Submit_def Let_def)
  qed (use assms(1) in \<open>simp_all add: Submit_def\<close>)
qed

lemma made_step_clean:
  assumes "made_step p p'" "all_clean p" "registered qdrant rclient p" "pool_ok p"
  shows "all_clean p'"
  using assms(1)
proof cases
  case made_works
  then show ?thesis using works_clean assms(2-4) by blast
next
  case (made_submit ch t k)
  then show ?thesis using submit_clean [OF assms(2,3)] made_clean by blast
next
  case (made_submit_retry ch t k mx)
  then show ?thesis using submit_clean [OF assms(2,3)] made_clean by (simp add: SubmitWithRetry_def)
next
  case made_cancel
  then show ?thesis using assms(2) by (simp add: all_clean_def)
qed

lemma made_run_clean:
  assumes "made_step\<^sup>*\<^sup>* p0 p" "all_clean p0" "registered qdrant rclient p0" "pool_ok p0"
  shows "all_clean p"
  using assms(1)
proof (induction rule: rtranclp_induct)
  case base
  show ?case by (rule assms(2))
next
  case (step p p')
  note r = made_reach [OF step.hyps(1)]
  have "registered qdrant rclient p" using reach_frame [OF r] assms(3) by (simp add: registered_def frame_def)
  then show ?case using made_step_clean [OF step.hyps(2) step.IH] reach_ok [OF r assms(4)] by blast
qed

section \<open>The server's tasks\<close>

text \<open>
  C40: The server's tasks find their handlers. In the pool that \<^verbatim>\<open>main\<close> starts, with whatever stores it
  reached, let clients submit tasks made by the four constructors, and as long as no handler panics let
  the goroutines run in any order. Then every task in the pool carries the type it was made with, a
  proof or notification task is never retried and carries no error, and an indexing or event task has no
  error but the one its own store reported: none is ever failed for want of a handler, or refused for
  data of the wrong type.
\<close>
theorem made_tasks_run:
  assumes "start env dial parseURL ping srv_of hexToECDSA q = (Inr (h, p0), q')"
    and "made_step\<^sup>*\<^sup>* p0 p" "p_store p t = Some k"
  shows "(case tk_Data k of
      ProofGen d \<Rightarrow> tk_Type k = TaskProofGeneration \<and> tk_Error k = None \<and> tk_Retries k = 0 \<and>
        tk_Status k \<in> {TaskPending, TaskRunning, TaskCompleted}
    | Notification d \<Rightarrow> tk_Type k = TaskNotificationDispatch \<and> tk_Error k = None \<and> tk_Retries k = 0 \<and>
        tk_Status k \<in> {TaskPending, TaskRunning, TaskCompleted}
    | QdrantIndex d \<Rightarrow> tk_Type k = TaskQdrantIndexing \<and> (case tk_Error k of
          None \<Rightarrow> tk_Status k \<in> {TaskPending, TaskRunning, TaskCompleted}
        | Some e \<Rightarrow> \<exists>x. e = ''failed to index consent in Qdrant: '' @ x)
    | EventIndex d \<Rightarrow> tk_Type k = TaskEventIndexing \<and> (case tk_Error k of
          None \<Rightarrow> tk_Status k \<in> {TaskPending, TaskRunning, TaskCompleted}
        | Some e \<Rightarrow> \<exists>x. e = ''failed to invalidate cache for event: '' @ x)
    | OtherData \<Rightarrow> False)"
proof -
  obtain p1 where p1: "NewPool (wc_Count (Worker (Load env))) (wc_QueueSize (Worker (Load env))) = Inr p1"
    and p0: "p0 = RegisterTaskHandlers (h_qdrant h) (h_redis h) p1"
    using start_pool [OF assms(1)] by blast
  have s: "p_store p0 = Map.empty"
    using p1 by (auto simp: p0 RegisterTaskHandlers_def with_handlers_frame NewPool_def split: if_splits)
  have "pool_ok p0"
    using pool_ok_NewPool [OF p1] with_handlers_ok by (simp add: p0 RegisterTaskHandlers_def)
  with made_run_clean [OF assms(2) _ registered_after [of "h_qdrant h" "h_redis h" p1, folded p0]] s
  have "clean_task k" using assms(3) by (simp add: all_clean_def)
  then show ?thesis unfolding clean_task_def unfailed_def index_error_def event_error_def .
qed

lemma made_note: "made_task sample_note"
  unfolding made_task_def sample_note_def by blast

theorem made_tasks_run_witness:
  "\<exists>k. p_store sample_rested 0 = Some k \<and> tk_Error k = None \<and> tk_Type k = TaskNotificationDispatch"
proof -
  obtain h where h: "sample_start [] = (Inr (h, sample_booted), [])" using sample_started by blast
  have "made_step sample_booted sample_noted"
    unfolding sample_noted_def
    by (rule made_submit) (simp_all add: submit_ready_def sample_booted_frame made_note)
  moreover have "made_step\<^sup>*\<^sup>* p p'" if "run n p p'" for n p p'
    using that by (induction rule: run.induct) (auto intro: converse_rtranclp_into_rtranclp made_works)
  ultimately have r: "made_step\<^sup>*\<^sup>* sample_booted sample_rested"
    using sample_noted_run by (meson converse_rtranclp_into_rtranclp)
  obtain k where k: "p_store sample_rested 0 = Some k" "tk_Data k = tk_Data sample_note"
    by (simp add: sample_rested_def sample_noted_def Submit_def process_start_def process_finish_def task_at_def
        Let_def split: option.split)
  then obtain d where "tk_Data k = Notification d" by (simp add: sample_note_def NewNotificationTask_def NewTask_def)
  with made_tasks_run [OF h [unfolded sample_start_def] r k(1)] k(1) show ?thesis by simp
qed

end
