(* ===== verification/Dialing.thy ===== *)
theory Dialing
  imports Chains Sample_Lib Refine
begin

text \<open>
  The concurrent callers of \<^verbatim>\<open>ChainManager.GetClient\<close>, \<^verbatim>\<open>backend/go-api/internal/api/chain_client.go\<close>:
  every request runs in its own goroutine, looks in the table under the read lock and, when that
  misses, again under the write lock, where it may dial. A caller is at one of three points; its two
  critical sections are the steps, and what the network answers may differ at each.
\<close>

section \<open>Callers and steps\<close>

datatype caller = Looking | Missed | Returned "goerr + conn"

record dialing =
  dg_clients :: clients
  dg_callers :: "(string \<times> caller) list"

inductive dial_step :: "lib \<Rightarrow> ChainConfig \<Rightarrow> dialing \<Rightarrow> dialing \<Rightarrow> bool" for L cc where
  arrive: "dial_step L cc d (d\<lparr>dg_callers := dg_callers d @ [(chain, Looking)]\<rparr>)"
| hit: "i < length (dg_callers d) \<Longrightarrow> dg_callers d ! i = (chain, Looking) \<Longrightarrow>
     dg_clients d chain = Some c \<Longrightarrow>
     dial_step L cc d (d\<lparr>dg_callers := (dg_callers d)[i := (chain, Returned (Inr c))]\<rparr>)"
| miss: "i < length (dg_callers d) \<Longrightarrow> dg_callers d ! i = (chain, Looking) \<Longrightarrow>
     dg_clients d chain = None \<Longrightarrow>
     dial_step L cc d (d\<lparr>dg_callers := (dg_callers d)[i := (chain, Missed)]\<rparr>)"
| locked: "i < length (dg_callers d) \<Longrightarrow> dg_callers d ! i = (chain, Missed) \<Longrightarrow>
     GetClient_locked L cc net chain (dg_clients d) = (Inr r, cl) \<Longrightarrow>
     dial_step L cc d (d\<lparr>dg_clients := cl, dg_callers := (dg_callers d)[i := (chain, Returned r)]\<rparr>)"

inductive_cases dial_stepE: "dial_step L cc d d'"

definition dial_init :: dialing where
  "dial_init = \<lparr> dg_clients = Map.empty, dg_callers = [] \<rparr>"

inductive dial_reach :: "lib \<Rightarrow> ChainConfig \<Rightarrow> dialing \<Rightarrow> bool" for L cc where
  dial_start: "dial_reach L cc dial_init"
| dial_more: "dial_reach L cc d \<Longrightarrow> dial_step L cc d d' \<Longrightarrow> dial_reach L cc d'"

section \<open>The invariant\<close>

text \<open>A returned client is the table's client for its chain, and only supported chains have one.\<close>

definition callers_ok :: "lib \<Rightarrow> dialing \<Rightarrow> bool" where
  "callers_ok L d \<longleftrightarrow>
     (\<forall>chain c. (chain, Returned (Inr c)) \<in> set (dg_callers d) \<longrightarrow> dg_clients d chain = Some c) \<and>
     (\<forall>chain\<in>dom (dg_clients d). canon_chain L chain \<noteq> None)"

lemma GetClient_locked_shares:
  assumes "GetClient_locked L cc net chain cl = (Inr (Inr c), cl')"
  shows "cl' chain = Some c \<and> cl \<subseteq>\<^sub>m cl' \<and> (cl chain \<noteq> None \<or> canon_chain L chain \<noteq> None) \<and>
    dom cl' = insert chain (dom cl)"
  using assms
  by (cases "canon_chain L chain")
    (auto simp: GetClient_locked_def getRPCURL_canon map_le_def split: option.splits sum.splits)

lemma GetClient_locked_fails:
  "GetClient_locked L cc net chain cl = (Inr (Inl e), cl') \<Longrightarrow> cl' = cl"
  by (auto simp: GetClient_locked_def split: option.splits sum.splits)

lemma callers_ok_step:
  assumes "callers_ok L d" "dial_step L cc d d'"
  shows "callers_ok L d'"
  using assms(2)
proof (cases rule: dial_step.cases)
  case (arrive chain)
  with assms(1) show ?thesis by (auto simp: callers_ok_def)
next
  case (hit i chain c)
  have "dg_clients d ch = Some x" if "(ch, Returned (Inr x)) \<in> set (dg_callers d')" for ch x
    using that hit assms(1) by (auto simp: callers_ok_def dest: set_update_subset_insert [THEN subsetD])
  with hit assms(1) show ?thesis by (simp add: callers_ok_def)
next
  case (miss i chain)
  have "dg_clients d ch = Some x" if "(ch, Returned (Inr x)) \<in> set (dg_callers d')" for ch x
    using that miss assms(1) by (auto simp: callers_ok_def dest: set_update_subset_insert [THEN subsetD])
  with miss assms(1) show ?thesis by (simp add: callers_ok_def)
next
  case (locked i chain net r cl)
  have sub: "set (dg_callers d') \<subseteq> insert (chain, Returned r) (set (dg_callers d))"
    using locked(1) by (simp add: set_update_subset_insert)
  show ?thesis
  proof (cases r)
    case (Inl e)
    then have "cl = dg_clients d" using GetClient_locked_fails locked(4) by metis
    with Inl sub locked(1) assms(1) show ?thesis by (auto simp: callers_ok_def)
  next
    case (Inr c)
    note sh = GetClient_locked_shares [OF locked(4) [unfolded Inr]]
    have old: "dg_clients d ch = Some x \<Longrightarrow> cl ch = Some x" for ch x
      using sh by (auto simp: map_le_def dom_def)
    have "cl ch = Some x" if "(ch, Returned (Inr x)) \<in> set (dg_callers d')" for ch x
      using subsetD [OF sub that] Inr sh old assms(1) by (auto simp: callers_ok_def)
    moreover have "canon_chain L ch \<noteq> None" if "ch \<in> dom cl" for ch
      using that sh assms(1) by (auto simp: callers_ok_def)
    ultimately show ?thesis using locked(1) by (simp add: callers_ok_def)
  qed
qed

lemma callers_ok_reach: "dial_reach L cc d \<Longrightarrow> callers_ok L d"
proof (induction rule: dial_reach.induct)
  case dial_start
  then show ?case by (simp add: callers_ok_def dial_init_def)
next
  case (dial_more d d')
  then show ?case by (blast intro: callers_ok_step)
qed

text \<open>
  C20: Concurrent callers share one client per chain. Whatever requests arrive and however their
  critical sections interleave, and whatever the network answers each time, any two callers that
  were given a client for the same chain name were given the same one, the one in the table, and
  the table holds clients of supported chains only.
\<close>
theorem clients_are_shared:
  assumes "dial_reach L cc d" "(chain, Returned (Inr c)) \<in> set (dg_callers d)"
    and "(chain, Returned (Inr c')) \<in> set (dg_callers d)"
  shows "c = c' \<and> dg_clients d chain = Some c \<and> IsChainSupported L cc chain"
proof -
  have "dg_clients d chain = Some c" "dg_clients d chain = Some c'"
    "\<forall>chain\<in>dom (dg_clients d). canon_chain L chain \<noteq> None"
    using callers_ok_reach [OF assms(1)] assms(2,3) unfolding callers_ok_def by blast+
  moreover from this(1,2) have "c = c'" by simp
  ultimately show ?thesis by (simp add: supported_iff domI)
qed

text \<open>Two callers for Sepolia that both miss; the second would be given another connection.\<close>

definition dials_as :: "conn \<Rightarrow> rpc" where
  "dials_as c =
     \<lparr> DialContext = (\<lambda>url. Inr c), ChainID = (\<lambda>c. Inr 1), BlockNumber = (\<lambda>c. Inr 1),
       SuggestGasPrice = (\<lambda>c. Inr 1), EstimateGas = (\<lambda>c m. Inr 1), NonceAt = (\<lambda>c a. Inr 1),
       CallContract = (\<lambda>c m. Inr []) \<rparr>"

definition sample_dialing :: dialing where
  "sample_dialing =
     \<lparr> dg_clients = [''sepolia'' \<mapsto> 1],
       dg_callers = [(''sepolia'', Returned (Inr 1)), (''sepolia'', Returned (Inr 1))] \<rparr>"

lemma sample_dialing_reach: "dial_reach sample_lib cc sample_dialing"
proof -
  let ?n = "''sepolia''"
  let ?d = "\<lambda>cl a b. \<lparr> dg_clients = cl, dg_callers = [(?n, a), (?n, b)] \<rparr>"
  have rpc: "getRPCURL sample_lib cc ?n = Inr (SepoliaRPC cc)"
    by (simp add: getRPCURL_canon canon_chain_self canonical_names_def)
  have "dial_reach sample_lib cc (dial_init\<lparr>dg_callers := dg_callers dial_init @ [(?n, Looking)]\<rparr>)"
    by (rule dial_more [OF dial_start arrive])
  from dial_more [OF this arrive [where chain = ?n]]
  have "dial_reach sample_lib cc (?d Map.empty Looking Looking)" by (simp add: dial_init_def)
  from dial_more [OF this miss [of 0 _ ?n]] have "dial_reach sample_lib cc (?d Map.empty Missed Looking)" by simp
  from dial_more [OF this miss [of 1 _ ?n]] have "dial_reach sample_lib cc (?d Map.empty Missed Missed)" by simp
  from dial_more [OF this locked [of 0 _ ?n _ _ "dials_as 1" "Inr 1" "[?n \<mapsto> 1]"]]
  have "dial_reach sample_lib cc (?d [?n \<mapsto> 1] (Returned (Inr 1)) Missed)"
    by (simp add: GetClient_locked_def rpc dials_as_def)
  from dial_more [OF this locked [of 1 _ ?n _ _ "dials_as 2" "Inr 1" "[?n \<mapsto> 1]"]]
  show ?thesis by (simp add: GetClient_locked_def sample_dialing_def)
qed

theorem clients_are_shared_witness: "dg_clients sample_dialing ''sepolia'' = Some 1"
  using clients_are_shared [OF sample_dialing_reach, of "''sepolia''" 1 1] by (simp add: sample_dialing_def)

section \<open>Atomic calls\<close>

text \<open>
  The same table with calls that happen at one moment: a caller waits, and is then answered by one
  call of \<open>GetClient\<close>. \<open>None\<close> is a caller that waits.
\<close>

type_synonym calls = "clients \<times> (string \<times> (goerr + conn) option) list"

inductive atomic_step :: "lib \<Rightarrow> ChainConfig \<Rightarrow> calls \<Rightarrow> calls \<Rightarrow> bool" for L cc where
  call: "atomic_step L cc (cl, rs) (cl, rs @ [(chain, None)])"
| answer: "i < length rs \<Longrightarrow> rs ! i = (chain, None) \<Longrightarrow> GetClient L cc net chain cl = (Inr r, cl') \<Longrightarrow>
     atomic_step L cc (cl, rs) (cl', rs[i := (chain, Some r)])"

primrec answer_of :: "caller \<Rightarrow> (goerr + conn) option" where
  "answer_of Looking = None"
| "answer_of Missed = None"
| "answer_of (Returned r) = Some r"

definition calls_of :: "dialing \<Rightarrow> calls" where
  "calls_of d = (dg_clients d, map (map_prod id answer_of) (dg_callers d))"

text \<open>The second look under the write lock makes the locked part alone a whole call.\<close>

lemma GetClient_is_locked: "GetClient L cc net chain cl = GetClient_locked L cc net chain cl"
  by (simp add: GetClient_def GetClient_locked_def split: option.split)

lemma calls_of_step:
  assumes "dial_step L cc d d'"
  shows "(atomic_step L cc)\<^sup>*\<^sup>* (calls_of d) (calls_of d')"
  using assms
proof (cases rule: dial_step.cases)
  case (arrive chain)
  then show ?thesis
    using call [of L cc "dg_clients d"] by (intro one_step) (simp add: calls_of_def)
next
  case (hit i chain c)
  let ?rs = "map (map_prod id answer_of) (dg_callers d)"
  have "GetClient L cc net chain (dg_clients d) = (Inr (Inr c), dg_clients d)" for net
    using hit(4) by (rule GetClient_hit)
  with answer [of i ?rs chain L cc undefined "dg_clients d"] hit show ?thesis
    by (intro one_step) (simp add: calls_of_def map_update)
next
  case (miss i chain)
  have "(map (map_prod id answer_of) (dg_callers d))[i := (chain, None)] = map (map_prod id answer_of) (dg_callers d)"
    using miss(2,3) by (intro list_update_same_conv [THEN iffD2]) simp_all
  then show ?thesis using miss(1) by (intro stutter_step) (simp add: calls_of_def map_update)
next
  case (locked i chain net r cl)
  let ?rs = "map (map_prod id answer_of) (dg_callers d)"
  have "GetClient L cc net chain (dg_clients d) = (Inr r, cl)"
    using locked(4) by (simp only: GetClient_is_locked)
  from answer [OF _ _ this, of i ?rs] locked show ?thesis
    by (intro one_step) (simp add: calls_of_def map_update)
qed

interpretation dialing_atomic: simulation "dial_step L cc" "atomic_step L cc" calls_of "callers_ok L" for L cc
proof
  show "callers_ok L d'" if "callers_ok L d" "dial_step L cc d d'" for d d'
    using callers_ok_step [OF that] .
  show "(atomic_step L cc)\<^sup>*\<^sup>* (calls_of d) (calls_of d')" if "dial_step L cc d d'" for d d'
    using calls_of_step [OF that] .
qed

lemma dial_reach_steps: "dial_reach L cc d \<Longrightarrow> (dial_step L cc)\<^sup>*\<^sup>* dial_init d"
  by (induction rule: dial_reach.induct) auto

text \<open>
  C21: \<^verbatim>\<open>GetClient\<close> is atomic. The two critical sections of its concurrent callers, interleaved in any
  way, have the outcome of calls made one at a time, in the order in which they found or made the
  entry: the same table, and the same answer to every caller.
\<close>
theorem get_client_atomic:
  assumes "dial_reach L cc d"
  shows "(atomic_step L cc)\<^sup>*\<^sup>* (Map.empty, [])
    (dg_clients d, map (\<lambda>(chain, c). (chain, answer_of c)) (dg_callers d))"
proof -
  have eq: "map_prod id answer_of = (\<lambda>(chain, c). (chain, answer_of c))" by (simp add: fun_eq_iff)
  have "callers_ok L dial_init" by (simp add: callers_ok_def dial_init_def)
  from dialing_atomic.sim_run [OF dial_reach_steps [OF assms] this]
  have "(atomic_step L cc)\<^sup>*\<^sup>* (calls_of dial_init) (calls_of d)" ..
  then show ?thesis unfolding calls_of_def dial_init_def eq by simp
qed

theorem get_client_atomic_witness:
  "(atomic_step sample_lib (load_chains (\<lambda>k. '''')))\<^sup>*\<^sup>* (Map.empty, [])
     ([''sepolia'' \<mapsto> 1], [(''sepolia'', Some (Inr 1)), (''sepolia'', Some (Inr 1))])"
  using get_client_atomic [OF sample_dialing_reach, of "load_chains (\<lambda>k. '''')"] by (simp add: sample_dialing_def)

end
