(* ===== verification/Limits_Results.thy ===== *)
theory Limits_Results
  imports Consent_Results
begin

text \<open>
  Where the consent endpoints stop short of what they mean to do: proofs, very late expiries,
  revocations, alias names of a chain, short answers of a contract and stores that are missing.
\<close>

section \<open>Proofs and expiries\<close>

text \<open>
  C33: With a proof, the proof service alone decides. Whatever the contract answers, whatever the
  clock says, and even when the cache holds the consent as revoked, a verification with a proof is
  answered with the verdict of the service; the contract only supplies the expiry shown.
\<close>
theorem proof_decides_alone:
  assumes "bind_verify (rq_Body rq) = Some req" "vr_Proof req \<noteq> ''''" "rq_Param rq ''id'' \<noteq> ''''"
    and "canon_chain (w_lib w) (vr_Chain req) \<noteq> None"
    and "chain_ready (w_lib w) (w_net w) (h_cfg h) (vr_Chain req) (as_clients s) conn addr"
    and "verifyZKProof (h_cfg h) w (req\<lparr>vr_ConsentID := rq_Param rq ''id''\<rparr>) = Inr verdict"
  shows "\<exists>t. VerifyConsent h w rq s =
    (Inr (200, VerifyBody \<lparr> vp_Valid = verdict, vp_ExpiresAt = expires_Uint64 (VerifyConsentOnChain (w_lib w) (w_net w)
        (NewClient conn (vr_Chain req) addr) (HexToHash (w_lib w) (rq_Param rq ''id''))), vp_VerifiedBy = ''zk-proof'' \<rparr>),
     s\<lparr>as_clients := t\<rparr>)"
proof -
  obtain t where "getContractClient (w_lib w) (w_net w) (h_cfg h) (vr_Chain req) s =
      (Inr (Inr (NewClient conn (vr_Chain req) addr)), s\<lparr>as_clients := t\<rparr>)"
    using getContractClient_ready [OF assms(5)] by blast
  with assms show ?thesis
    by (intro exI [of _ t]) (simp add: VerifyConsent_def Let_def validateChain_iff [THEN iffD2] verify_with_proof_def
        verify_body_def gbind_def)
qed

definition no_answer :: bytes where
  "no_answer = be_bytes 32 0 @ be_bytes 32 0"

lemma sample_verdict:
  "verifyZKProof cfg (sample_world a n) req = Inr True"
  by (simp add: verifyZKProof_def sample_world_def Let_def parse_response_def set_valid_def names_field_def
      ascii_lower_def)

theorem proof_decides_alone_witness:
  "\<exists>t e. VerifyConsent sample_handler (sample_world no_answer 999)
      (post_request ''x'' (sample_verify_json ''p'')) sample_state =
    (Inr (200, VerifyBody \<lparr> vp_Valid = True, vp_ExpiresAt = e, vp_VerifiedBy = ''zk-proof'' \<rparr>),
     sample_state\<lparr>as_clients := t\<rparr>)"
proof -
  have "as_clients sample_state = Map.empty" by (simp add: sample_state_def RegisterRoutes_def)
  note r = sample_ready(1) [of sample_state no_answer, OF this]
  show ?thesis
    using proof_decides_alone [of "post_request ''x'' (sample_verify_json ''p'')"
        "\<lparr> vr_ConsentID = ''x'', vr_Chain = ''sepolia'', vr_Proof = ''p'', vr_ProofType = '''' \<rparr>"
        "sample_world no_answer 999" sample_handler sample_state 1 "HexToAddress sample_lib ''0x01''" True] r
    by (auto simp: sample_verify_bound sample_create_ready(2) sample_verdict)
qed

text \<open>
  A consent that expires too late is never valid. The expiry is compared as a signed 64-bit
  number, so an expiry whose low 64 bits are 2^63 or more counts as long past, and the answer is
  invalid although the contract said yes.
\<close>
theorem late_expiry_is_invalid:
  assumes "bind_verify (rq_Body rq) = Some req" "vr_Proof req = ''''" "rq_Param rq ''id'' \<noteq> ''''"
    and "canon_chain (w_lib w) (vr_Chain req) \<noteq> None"
    and "chain_ready (w_lib w) (w_net w) (h_cfg h) (vr_Chain req) (as_clients s) conn addr"
    and "VerifyConsentOnChain (w_lib w) (w_net w) (NewClient conn (vr_Chain req) addr)
           (HexToHash (w_lib w) (rq_Param rq ''id'')) = Inr (True, x)"
    and "2 ^ 63 \<le> nat \<bar>x\<bar> mod 2 ^ 64" "0 \<le> w_unix w"
  shows "\<exists>t. VerifyConsent h w rq s =
    (Inr (200, VerifyBody \<lparr> vp_Valid = False, vp_ExpiresAt = big_Uint64 x, vp_VerifiedBy = ''on-chain'' \<rparr>),
     s\<lparr>as_clients := t\<rparr>)"
proof -
  obtain t where g: "getContractClient (w_lib w) (w_net w) (h_cfg h) (vr_Chain req) s =
      (Inr (Inr (NewClient conn (vr_Chain req) addr)), s\<lparr>as_clients := t\<rparr>)"
    using getContractClient_ready [OF assms(5)] by blast
  have "i64_of_u64 (big_Uint64 x) < 0"
    using assms(7) by (simp only: i64_of_u64_neg_iff unat_big_Uint64)
  with assms(8) have "i64_of_u64 (big_Uint64 x) < w_unix w" by simp
  with assms(1-6) g show ?thesis
    by (intro exI [of _ t]) (simp add: VerifyConsent_def Let_def validateChain_iff [THEN iffD2] verify_on_chain_def
        verify_body_def gbind_def expires_Uint64_def)
qed

definition yes_for_ever :: bytes where
  "yes_for_ever = be_bytes 32 1 @ be_bytes 32 18446744073709551615"

theorem late_expiry_is_invalid_witness:
  "\<exists>t. VerifyConsent sample_handler (sample_world yes_for_ever 999)
      (post_request ''x'' (sample_verify_json '''')) sample_state =
    (Inr (200, VerifyBody \<lparr> vp_Valid = False, vp_ExpiresAt = big_Uint64 18446744073709551615,
        vp_VerifiedBy = ''on-chain'' \<rparr>), sample_state\<lparr>as_clients := t\<rparr>)"
proof -
  have "as_clients sample_state = Map.empty" by (simp add: sample_state_def RegisterRoutes_def)
  note r = sample_ready(1) [of sample_state yes_for_ever, OF this]
  have a: "VerifyConsentOnChain sample_lib (sample_net yes_for_ever) c i = Inr (True, 18446744073709551615)" for c i
    by (simp add: VerifyConsentOnChain_def encodeVerifyConsent_def sample_net_def yes_for_ever_def
        decodeVerificationResult_def big_SetBytes_be_bytes)
  show ?thesis
    by (rule late_expiry_is_invalid [where req = "\<lparr> vr_ConsentID = ''x'', vr_Chain = ''sepolia'',
          vr_Proof = '''', vr_ProofType = '''' \<rparr>"])
       (use r a in \<open>simp_all add: sample_verify_bound sample_create_ready(2)\<close>)
qed

section \<open>Revoking\<close>

lemma RevokeConsent_handler_prepares:
  assumes "bind_revoke (rq_Body rq) = Some req" "canon_chain (w_lib w) (rr_Chain req) \<noteq> None"
    and "chain_ready (w_lib w) (w_net w) (h_cfg h) (rr_Chain req) (as_clients s) conn addr"
    and "prepares (w_net w) (NewClient conn (rr_Chain req) addr)
      (revoke_data (w_lib w) (HexToHash (w_lib w) (rq_Param rq ''id''))) chainID tx"
    and "rq_Param rq ''id'' \<noteq> ''''"
  shows "\<exists>t. RevokeConsent_handler h w rq s = revoke_stored h (req\<lparr>rr_ConsentID := rq_Param rq ''id''\<rparr>)
    (HashHex (w_lib w) (SignerHash (w_lib w) chainID tx)) (s\<lparr>as_clients := t\<rparr>)"
proof -
  obtain t where "getContractClient (w_lib w) (w_net w) (h_cfg h) (rr_Chain req) s =
      (Inr (Inr (NewClient conn (rr_Chain req) addr)), s\<lparr>as_clients := t\<rparr>)"
    using getContractClient_ready [OF assms(3)] by blast
  with assms(1,2,5) RevokeConsent_prepares [OF assms(4)] show ?thesis
    by (intro exI [of _ t]) (simp add: RevokeConsent_handler_def gbind_def Let_def validateChain_iff [THEN iffD2])
qed

lemma RevokeConsent_prepared:
  assumes "bind_revoke (rq_Body rq) = Some req" "can_prepare h w (rr_Chain req) s"
    "rq_Param rq ''id'' \<noteq> ''''"
  shows "\<exists>tx t. RevokeConsent_handler h w rq s =
    revoke_stored h (req\<lparr>rr_ConsentID := rq_Param rq ''id''\<rparr>) tx (s\<lparr>as_clients := t\<rparr>)"
proof -
  from assms(2) obtain conn addr where c: "canon_chain (w_lib w) (rr_Chain req) \<noteq> None"
    and r: "chain_ready (w_lib w) (w_net w) (h_cfg h) (rr_Chain req) (as_clients s) conn addr"
      "node_ready (w_net w) (cl_conn (NewClient conn (rr_Chain req) addr))"
    by (auto simp: can_prepare_def NewClient_def)
  obtain chainID tx where "prepares (w_net w) (NewClient conn (rr_Chain req) addr)
      (revoke_data (w_lib w) (HexToHash (w_lib w) (rq_Param rq ''id''))) chainID tx"
    using node_ready_prepares [OF r(2)] .
  from RevokeConsent_handler_prepares [OF assms(1) c r(1) this assms(3)] show ?thesis by blast
qed

lemma UpdateConsentRevoked_total: "\<exists>x q'. UpdateConsentRevoked (Some c) ctx i b q = (Inr x, q')"
  by (cases c) (auto simp: UpdateConsentRevoked_def findByConsentID_def Let_def split: prod.splits sum.splits)

lemma InvalidateConsent_total: "\<exists>x r'. InvalidateConsent (Some srv) ch i r = (Inr x, r')"
  by (simp add: InvalidateConsent_def Let_def split: prod.split option.split)

text \<open>The answer is the same whether or not the stores report an error.\<close>

lemma revoke_stored_done:
  assumes "h_qdrant h = Some c" "h_redis h = Some srv"
  shows "\<exists>q' r' x y. revoke_stored h req tx s =
      (Inr (200, RevokedBody tx True), s\<lparr>as_qdrant := q', as_redis := r'\<rparr>) \<and>
    InvalidateConsent (Some srv) (rr_Chain req) (rr_ConsentID req) (as_redis s) = (Inr y, r') \<and>
    UpdateConsentRevoked (Some c) [] (rr_ConsentID req) True (as_qdrant s) = (Inr x, q')"
proof -
  obtain y r' where r: "InvalidateConsent (Some srv) (rr_Chain req) (rr_ConsentID req) (as_redis s) = (Inr y, r')"
    using InvalidateConsent_total [of srv "rr_Chain req" "rr_ConsentID req" "as_redis s"] by (elim exE)
  obtain x q' where "UpdateConsentRevoked (Some c) [] (rr_ConsentID req) True (as_qdrant s) = (Inr x, q')"
    using UpdateConsentRevoked_total [of c "[]" "rr_ConsentID req" True "as_qdrant s"] by (elim exE)
  with r assms(1,2) show ?thesis
    by (auto simp: revoke_stored_def gbind_def on_qdrant_apply on_redis_apply)
qed

lemma GetCachedConsent_total: "\<exists>y r'. GetCachedConsent (Some srv) ch i r = (Inr y, r')"
  by (auto simp: GetCachedConsent_def split: prod.splits sum.splits option.splits)

text \<open>What a revocation that was answered 200 did to the cache.\<close>

lemma revoke_200:
  assumes "RevokeConsent_handler h w rq s = (Inr (200, b), s')" "bind_revoke (rq_Body rq) = Some req"
  shows "\<exists>x. InvalidateConsent (h_redis h) (rr_Chain req) (rq_Param rq ''id'') (as_redis s) =
    (Inr x, as_redis s')"
proof -
  let ?req = "req\<lparr>rr_ConsentID := rq_Param rq ''id''\<rparr>"
  let ?g = "getContractClient (w_lib w) (w_net w) (h_cfg h) (rr_Chain req)"
  obtain cl s1 where g: "?g s = (Inr cl, s1)" and red: "as_redis s1 = as_redis s"
    using getContractClient_frame [of "w_lib w" "w_net w" "h_cfg h" "rr_Chain req" s]
    by (metis api_state.select_convs(3) api_state.surjective api_state.update_convs(1) prod.collapse)
  let ?run = "\<lambda>cl. case cl of
      Inl e \<Rightarrow> handleError 500 ''failed to get contract client'' e
    | Inr contractCli \<Rightarrow>
        (case RevokeConsent (w_lib w) (w_net w) contractCli (HexToHash (w_lib w) (rq_Param rq ''id'')) of
           (txHash, txHashStr, err) \<Rightarrow>
             if \<not> signing_error err then handleError 500 ''failed to revoke consent on chain'' err
             else revoke_stored h ?req txHashStr)"
  have live: "rq_Param rq ''id'' \<noteq> ''''" "validateChain (w_lib w) (h_cfg h) (rr_Chain req) = None"
    using assms by (auto simp: RevokeConsent_handler_def Let_def handleError_def error_body_def
        simp del: validateChain_iff split: if_splits option.splits)
  then have "RevokeConsent_handler h w rq s = gbind ?g ?run s"
    using assms(2) by (simp add: RevokeConsent_handler_def Let_def)
  then have run: "?run cl s1 = (Inr (200, b), s')"
    using g assms(1) by (simp add: gbind_def)
  have "\<exists>tx. revoke_stored h ?req tx s1 = (Inr (200, b), s')"
  proof (cases cl)
    case (Inl e)
    with run show ?thesis by (simp add: handleError_def error_body_def)
  next
    case (Inr c)
    obtain th tx err where "RevokeConsent (w_lib w) (w_net w) c (HexToHash (w_lib w) (rq_Param rq ''id'')) = (th, tx, err)"
      by (metis prod.collapse)
    with run Inr show ?thesis
      by (cases "signing_error err") (auto simp: handleError_def error_body_def)
  qed
  then obtain tx where "revoke_stored h ?req tx s1 = (Inr (200, b), s')" ..
  then obtain xa q1 where
    "on_redis (InvalidateConsent (h_redis h) (rr_Chain req) (rq_Param rq ''id'')) (s1\<lparr>as_qdrant := q1\<rparr>) =
      (Inr xa, s')"
    by (auto simp: revoke_stored_def elim!: gbind_cases on_qdrant_cases)
  then show ?thesis
    using red by (auto elim!: on_redis_cases)
qed

lemma revoke_200_cached:
  assumes "RevokeConsent_handler h w rq s = (Inr (200, b), s')" "bind_revoke (rq_Body rq) = Some req"
    and "h_redis h = Some srv" "redis_ok srv view"
  shows "(\<exists>e. InvalidateConsent (Some srv) (rr_Chain req) (rq_Param rq ''id'') (as_redis s) = (Inr (Some e), as_redis s')) \<or>
      cached view (as_redis s') (rr_Chain req) (rq_Param rq ''id'') = None"
    and "keys_apart (rr_Chain req) (rq_Param rq ''id'') ch i \<Longrightarrow>
      cached view (as_redis s') ch i = cached view (as_redis s) ch i"
proof -
  obtain x where x: "InvalidateConsent (Some srv) (rr_Chain req) (rq_Param rq ''id'') (as_redis s) = (Inr x, as_redis s')"
    using revoke_200 [OF assms(1,2)] assms(3) by auto
  show "(\<exists>e. InvalidateConsent (Some srv) (rr_Chain req) (rq_Param rq ''id'') (as_redis s) = (Inr (Some e), as_redis s')) \<or>
      cached view (as_redis s') (rr_Chain req) (rq_Param rq ''id'') = None"
    using x redis_store.del_found [OF assms(4)] by (cases x) auto
  show "keys_apart (rr_Chain req) (rq_Param rq ''id'') ch i \<Longrightarrow>
      cached view (as_redis s') ch i = cached view (as_redis s) ch i"
    by (rule redis_store.del_apart [OF assms(4) x])
qed

definition sample_revoke_json :: "string \<Rightarrow> json" where
  "sample_revoke_json chain = JObj [(''consent_id'', JStr ''x''), (''chain'', JStr chain)]"

lemma sample_revoke_bound:
  "chain \<noteq> '''' \<Longrightarrow> bind_revoke (Some (sample_revoke_json chain)) = Some \<lparr> rr_ConsentID = ''x'', rr_Chain = chain \<rparr>"
  by (simp add: bind_revoke_def ShouldBindJSON_def sample_revoke_json_def set_revoke_def names_field_def
      ascii_lower_def valid_revoke_def)

text \<open>
  C11: What a revocation does. With both stores connected and a node that answers, a request that binds,
  with an id and on a supported chain, is answered 200
  with the text of the signer's hash of the unsigned revocation of that id, and this whatever the
  stores answer and however often it is repeated. Then either the cache's deletion reported an error,
  which is only logged, or the cached document of that id on that chain is gone; no document of
  another key is touched in either case; and, when the index update reported no error and found fewer
  than a hundred points, every indexed point of the consent is marked revoked.
\<close>
theorem revoke_updates_stores:
  assumes "bind_revoke (rq_Body rq) = Some req" "canon_chain (w_lib w) (rr_Chain req) \<noteq> None"
    and "chain_ready (w_lib w) (w_net w) (h_cfg h) (rr_Chain req) (as_clients s) conn addr"
    and "ChainID (w_net w) conn = Inr chainID" "NonceAt (w_net w) conn zero_address = Inr nonce"
    and "SuggestGasPrice (w_net w) conn = Inr price"
    and "rq_Param rq ''id'' = ident" "ident \<noteq> ''''"
    and "h_redis h = Some srv" "redis_ok srv view"
    and "h_qdrant h = Some (qsrv, cfg)" "qdrant_ok qsrv (qc_CollectionName cfg) qview"
    and "txHash = SignerHash (w_lib w) chainID
      (unsigned_call (w_net w) (NewClient conn (rr_Chain req) addr) nonce price
        (revoke_data (w_lib w) (HexToHash (w_lib w) ident)))"
  shows "\<exists>s'. RevokeConsent_handler h w rq s = (Inr (200, RevokedBody (HashHex (w_lib w) txHash) True), s') \<and>
    ((\<exists>e. InvalidateConsent (Some srv) (rr_Chain req) ident (as_redis s) = (Inr (Some e), as_redis s')) \<or>
     cached view (as_redis s') (rr_Chain req) ident = None) \<and>
    (\<forall>ch i. keys_apart (rr_Chain req) ident ch i \<longrightarrow>
       cached view (as_redis s') ch i = cached view (as_redis s) ch i) \<and>
    (fst (UpdateConsentRevoked (Some (qsrv, cfg)) [] ident True (as_qdrant s)) = Inr None \<and>
     (\<forall>c ids q1. qd_Scroll qsrv c (qc_CollectionName cfg) [MatchText ''consent_id'' ident] 100 (as_qdrant s) =
        (Inr ids, q1) \<longrightarrow> length ids < 100) \<longrightarrow>
     (\<forall>i pl. qview (as_qdrant s) i = Some pl \<longrightarrow> pl ''consent_id'' = Some (StringValue ident) \<longrightarrow>
       (\<exists>pl'. qview (as_qdrant s') i = Some pl' \<and> pl' ''revoked'' = Some (BoolValue True))))"
proof -
  let ?req = "req\<lparr>rr_ConsentID := ident\<rparr>" and ?tx = "HashHex (w_lib w) txHash"
  have "prepares (w_net w) (NewClient conn (rr_Chain req) addr) data chainID
      (unsigned_call (w_net w) (NewClient conn (rr_Chain req) addr) nonce price data)" for data
    using assms(4-6) by (simp add: prepares_def NewClient_def)
  from RevokeConsent_handler_prepares [OF assms(1-3) this] assms(7,8)
  obtain t where h: "RevokeConsent_handler h w rq s = revoke_stored h ?req ?tx (s\<lparr>as_clients := t\<rparr>)"
    unfolding assms(13) by blast
  obtain q' r' x y where d: "revoke_stored h ?req ?tx (s\<lparr>as_clients := t\<rparr>) =
      (Inr (200, RevokedBody ?tx True), (s\<lparr>as_clients := t\<rparr>)\<lparr>as_qdrant := q', as_redis := r'\<rparr>)"
    and u: "UpdateConsentRevoked (Some (qsrv, cfg)) [] ident True (as_qdrant s) = (Inr x, q')"
    using revoke_stored_done [OF assms(11,9), of ?req ?tx "s\<lparr>as_clients := t\<rparr>"] by auto
  let ?s' = "(s\<lparr>as_clients := t\<rparr>)\<lparr>as_qdrant := q', as_redis := r'\<rparr>"
  from h d have ok200: "RevokeConsent_handler h w rq s = (Inr (200, RevokedBody ?tx True), ?s')" by simp
  have "\<exists>pl'. qview q' i = Some pl' \<and> pl' ''revoked'' = Some (BoolValue True)"
    if "x = None" "qview (as_qdrant s) i = Some pl" "pl ''consent_id'' = Some (StringValue ident)"
      "\<forall>c ids q1. qd_Scroll qsrv c (qc_CollectionName cfg) [MatchText ''consent_id'' ident] 100 (as_qdrant s) =
        (Inr ids, q1) \<longrightarrow> length ids < 100" for i pl
    by (rule api_revoker.marks [OF assms(12) u [unfolded that(1)] _ that(2,3)]) (use that(4) in blast)
  with u ok200 revoke_200_cached [OF ok200 assms(1,9,10)] assms(7) show ?thesis
    by (intro exI [of _ ?s'] conjI) simp_all
qed

definition indexed_state :: "(points, kv) api_state" where
  "indexed_state = sample_state\<lparr>as_qdrant :=
     [(''p'', [''consent_id'' \<mapsto> StringValue ''x'', ''revoked'' \<mapsto> BoolValue False])]\<rparr>"

lemma indexed_prepared: "can_prepare sample_handler (sample_world a n) ''sepolia'' indexed_state"
  using sample_ready [of indexed_state a] sample_create_ready(2)
  unfolding can_prepare_def by (auto simp: indexed_state_def sample_world_def sample_state_def RegisterRoutes_def)

lemma sample_del: "InvalidateConsent (Some sample_redis) ch i r \<noteq> (Inr (Some x), r')"
  by (simp add: InvalidateConsent_def sample_redis_def)

theorem revoke_updates_stores_witness:
  "\<exists>tx s' pl. RevokeConsent_handler sample_handler (sample_world [] 5)
      (post_request ''x'' (sample_revoke_json ''sepolia'')) indexed_state =
      (Inr (200, RevokedBody tx True), s') \<and> cached (\<lambda>r. r) (as_redis s') ''sepolia'' ''x'' = None \<and>
    map_of (as_qdrant s') ''p'' = Some pl \<and> pl ''revoked'' = Some (BoolValue True)"
proof -
  have b: "bind_revoke (rq_Body (post_request ''x'' (sample_revoke_json ''sepolia''))) =
      Some \<lparr> rr_ConsentID = ''x'', rr_Chain = ''sepolia'' \<rparr>"
    by (simp add: sample_revoke_bound)
  have e: "as_clients indexed_state = Map.empty" by (simp add: indexed_state_def sample_state_def RegisterRoutes_def)
  obtain chainID nonce price where n: "ChainID (sample_net []) 1 = Inr chainID"
    "NonceAt (sample_net []) 1 zero_address = Inr nonce" "SuggestGasPrice (sample_net []) 1 = Inr price"
    by (simp add: sample_net_def)
  have q: "fst (UpdateConsentRevoked (Some (sample_qdrant, Qdrant sample_cfg)) [] ''x'' True (as_qdrant indexed_state)) =
      Inr None"
    by (simp add: UpdateConsentRevoked_def findByConsentID_def sample_qdrant_def indexed_state_def Let_def)
  have l: "length ids < 100"
    if "qd_Scroll sample_qdrant c coll [MatchText ''consent_id'' ''x''] 100 (as_qdrant indexed_state) = (Inr ids, q1)"
    for c coll ids q1
    using that by (auto simp: sample_qdrant_def indexed_state_def)
  let ?rq = "post_request ''x'' (sample_revoke_json ''sepolia'')"
  obtain tx s' where "RevokeConsent_handler sample_handler (sample_world [] 5) ?rq indexed_state =
      (Inr (200, RevokedBody tx True), s')" "cached (\<lambda>r. r) (as_redis s') ''sepolia'' ''x'' = None"
    "\<forall>i pl. map_of (as_qdrant indexed_state) i = Some pl \<longrightarrow> pl ''consent_id'' = Some (StringValue ''x'') \<longrightarrow>
       (\<exists>pl'. map_of (as_qdrant s') i = Some pl' \<and> pl' ''revoked'' = Some (BoolValue True))"
    using revoke_updates_stores [of ?rq "\<lparr> rr_ConsentID = ''x'', rr_Chain = ''sepolia'' \<rparr>" "sample_world [] 5"
        sample_handler indexed_state 1 "HexToAddress sample_lib ''0x01''" chainID nonce price "''x''" sample_redis
        "\<lambda>r. r" sample_qdrant "Qdrant sample_cfg" map_of, OF _ _ _ _ _ _ _ _ _ _ _ _ refl]
      b sample_ready(1) [OF e, of "[]"] n sample_create_ready(2) sample_redis_ok sample_qdrant_ok q l sample_del
    by auto
  then show ?thesis by (auto simp: indexed_state_def)
qed

text \<open>
  C34: A revocation leaves a consent valid. After a revocation was answered 200, either the deletion
  of the cached document reported an error, or the cache holds nothing of the consent, and a
  verification without a proof that follows, with the chain's client at hand, is answered valid if the
  contract says yes and its expiry has not passed. A test of the repository wants a consent invalid after its revocation.
\<close>
theorem revoked_still_verifies:
  assumes "RevokeConsent_handler h w rq s = (Inr (200, b), s')" "bind_revoke (rq_Body rq) = Some rreq"
    and "h_redis h = Some srv" "redis_ok srv view"
    and "bind_verify (rq_Body rq') = Some req" "vr_Proof req = ''''" "vr_Chain req = rr_Chain rreq"
    and "rq_Param rq' ''id'' = rq_Param rq ''id''" "rq_Param rq ''id'' \<noteq> ''''"
    and "canon_chain (w_lib w') (vr_Chain req) \<noteq> None"
    and "chain_ready (w_lib w') (w_net w') (h_cfg h) (vr_Chain req) (as_clients s') conn addr"
    and "VerifyConsentOnChain (w_lib w') (w_net w') (NewClient conn (vr_Chain req) addr)
           (HexToHash (w_lib w') (rq_Param rq ''id'')) = Inr (True, x)"
    and "w_unix w' \<le> i64_of_u64 (big_Uint64 x)"
  shows "(\<exists>e. InvalidateConsent (Some srv) (rr_Chain rreq) (rq_Param rq ''id'') (as_redis s) = (Inr (Some e), as_redis s')) \<or>
    cached view (as_redis s') (rr_Chain rreq) (rq_Param rq ''id'') = None \<and>
    (\<exists>s''. VerifyConsent h w' rq' s' =
      (Inr (200, VerifyBody \<lparr> vp_Valid = True, vp_ExpiresAt = big_Uint64 x, vp_VerifiedBy = ''on-chain'' \<rparr>), s''))"
proof (cases "cached view (as_redis s') (rr_Chain rreq) (rq_Param rq ''id'') = None")
  case False
  from revoke_200_cached(1) [OF assms(1-4)] show ?thesis
    by (rule disjE) (rule disjI1, assumption, erule notE [OF False])
next
  case True
  obtain t where g: "getContractClient (w_lib w') (w_net w') (h_cfg h) (vr_Chain req) s' =
      (Inr (Inr (NewClient conn (vr_Chain req) addr)), s'\<lparr>as_clients := t\<rparr>)"
    using getContractClient_ready [OF assms(11)] by blast
  have none: "cached view (as_redis s') (vr_Chain req) (rq_Param rq ''id'') = None"
    using True assms(7) by simp
  obtain y r' where y: "GetCachedConsent (Some srv) (vr_Chain req) (rq_Param rq ''id'') (as_redis s') = (Inr y, r')"
    using GetCachedConsent_total by metis
  have "y \<noteq> Inr (Some d)" for d
    using redis_store.get_found [OF assms(4)] y none by (metis option.distinct(1))
  with g y assms(3,5-13) have "\<exists>s''. VerifyConsent h w' rq' s' =
      (Inr (200, VerifyBody \<lparr> vp_Valid = True, vp_ExpiresAt = big_Uint64 x, vp_VerifiedBy = ''on-chain'' \<rparr>), s'')"
    by (cases y) (auto simp: VerifyConsent_def Let_def validateChain_iff [THEN iffD2] verify_on_chain_def
        verify_body_def gbind_def expires_Uint64_def on_redis_apply split: option.splits)
  with True show ?thesis by blast
qed

lemma sample_always_ready:
  "\<exists>conn. chain_ready sample_lib (sample_net a) sample_cfg ''sepolia'' t conn (HexToAddress sample_lib ''0x01'')"
proof (cases "t ''sepolia''")
  case None
  have "GetClient sample_lib (Chains sample_cfg) (sample_net a) ''sepolia'' t = (Inr (Inr 1), t(''sepolia'' \<mapsto> 1))"
    using None sample_create_ready(2) by (intro GetClient_dial) (simp_all add: sample_net_def)
  with sample_ready(1) [of "sample_state\<lparr>as_clients := Map.empty\<rparr>" a] show ?thesis
    by (auto simp: chain_ready_def)
next
  case (Some c)
  with sample_ready(1) [of "sample_state\<lparr>as_clients := Map.empty\<rparr>" a] show ?thesis
    by (auto simp: chain_ready_def)
qed

lemma sample_revoked:
  "\<exists>tx s'. RevokeConsent_handler sample_handler (sample_world [] 5)
      (post_request ''x'' (sample_revoke_json ''sepolia'')) sample_state =
      (Inr (200, RevokedBody tx True), s')"
proof -
  let ?rq = "post_request ''x'' (sample_revoke_json ''sepolia'')"
  have "bind_revoke (rq_Body ?rq) = Some \<lparr> rr_ConsentID = ''x'', rr_Chain = ''sepolia'' \<rparr>"
    by (simp add: sample_revoke_bound)
  from RevokeConsent_prepared [OF this, of sample_handler "sample_world [] 5" sample_state]
    sample_prepared [of "[]" 5]
  obtain tx t where "RevokeConsent_handler sample_handler (sample_world [] 5) ?rq sample_state =
      revoke_stored sample_handler \<lparr> rr_ConsentID = ''x'', rr_Chain = ''sepolia'' \<rparr> tx
        (sample_state\<lparr>as_clients := t\<rparr>)"
    by auto
  then show ?thesis
    using revoke_stored_done [OF sample_cfg_simps(5,4)] by metis
qed

theorem revoked_still_verifies_witness:
  "\<exists>tx s' s''. RevokeConsent_handler sample_handler (sample_world [] 5)
      (post_request ''x'' (sample_revoke_json ''sepolia'')) sample_state =
      (Inr (200, RevokedBody tx True), s') \<and>
    VerifyConsent sample_handler (sample_world yes_until_1000 6)
      (post_request ''x'' (sample_verify_json '''')) s' =
    (Inr (200, VerifyBody \<lparr> vp_Valid = True, vp_ExpiresAt = big_Uint64 1000, vp_VerifiedBy = ''on-chain'' \<rparr>), s'')"
proof -
  obtain tx s' where r: "RevokeConsent_handler sample_handler (sample_world [] 5)
      (post_request ''x'' (sample_revoke_json ''sepolia'')) sample_state = (Inr (200, RevokedBody tx True), s')"
    using sample_revoked by blast
  obtain conn where c: "chain_ready sample_lib (sample_net yes_until_1000) sample_cfg ''sepolia'' (as_clients s') conn
      (HexToAddress sample_lib ''0x01'')"
    using sample_always_ready by blast
  have v: "bind_verify (rq_Body (post_request ''x'' (sample_verify_json ''''))) =
      Some \<lparr> vr_ConsentID = ''x'', vr_Chain = ''sepolia'', vr_Proof = '''', vr_ProofType = '''' \<rparr>"
    by (simp add: sample_verify_bound)
  have b: "bind_revoke (rq_Body (post_request ''x'' (sample_revoke_json ''sepolia''))) =
      Some \<lparr> rr_ConsentID = ''x'', rr_Chain = ''sepolia'' \<rparr>"
    by (simp add: sample_revoke_bound)
  have "\<exists>s''. VerifyConsent sample_handler (sample_world yes_until_1000 6)
      (post_request ''x'' (sample_verify_json '''')) s' =
    (Inr (200, VerifyBody \<lparr> vp_Valid = True, vp_ExpiresAt = big_Uint64 1000, vp_VerifiedBy = ''on-chain'' \<rparr>), s'')"
    using revoked_still_verifies [OF r b _ sample_redis_ok v, of "sample_world yes_until_1000 6" conn
        "HexToAddress sample_lib ''0x01''" 1000] c
    by (simp add: sample_create_ready(2) sample_answer big_Uint64_def sample_del)
  with r show ?thesis by blast
qed

text \<open>
  C35: A revocation under another name of the same chain leaves the cached document in place. The
  cache is keyed by the name the client wrote, so after a revocation under an alias was answered
  200, and with a Redis that answers every command, reading the consent under the name it was cached
  with still gives that document as it was, with the revoked flag it had.
\<close>
theorem alias_revocation_stale:
  assumes "RevokeConsent_handler h w rq s = (Inr (200, b), s')" "bind_revoke (rq_Body rq) = Some req"
    and "h_redis h = Some srv" "redis_ok srv view" "redis_up srv"
    and "canon_chain (w_lib w') ch = canon_chain (w_lib w') (rr_Chain req)" "rr_Chain req \<noteq> ch"
    and "canon_chain (w_lib w') ch \<noteq> None" "CHR '':'' \<notin> set ch" "CHR '':'' \<notin> set (rr_Chain req)"
    and "cached view (as_redis s) ch (rq_Param rq ''id'') = Some d"
    and "rq_Param rq' ''id'' = rq_Param rq ''id''" "rq_Query rq' ''chain'' = ch"
    and "rq_Param rq ''id'' \<noteq> ''''" "ch \<noteq> ''''"
  shows "\<exists>s''. GetConsent_handler h w' rq' s' = (Inr (200, ConsentBody (toConsentResponse d)), s'')"
proof -
  have "keys_apart (rr_Chain req) (rq_Param rq ''id'') ch (rq_Param rq ''id'')"
    using assms(7,9,10) by (simp add: keys_apart_iff)
  then have "cached view (as_redis s') ch (rq_Param rq ''id'') = Some d"
    using revoke_200_cached(2) [OF assms(1-4)] assms(11) by simp
  from GetConsent_hit [OF assms(3,4,5,8) _ _ assms(12,13) this] assms(14,15) show ?thesis by blast
qed

definition stale_document :: ConsentCache where
  "stale_document = createConsentCache ''x'' ''sepolia'' '''' [] [] 1 2 1 False"

definition stale_state :: "(points, kv) api_state" where
  "stale_state = sample_state\<lparr>as_redis := [cache_key ''Sepolia'' ''x'' \<mapsto> RDoc (marshal_cache stale_document)]\<rparr>"

lemma canon_Sepolia: "canon_chain L ''Sepolia'' = Some ''sepolia''"
proof -
  have "map ascii_lower ''Sepolia'' = ''sepolia''" "is_ascii ''Sepolia''" by code_simp+
  then show ?thesis
    by (simp add: canon_chain_def strings_ToLower_def canonical_def del: list.map)
qed

theorem alias_revocation_stale_witness:
  "\<exists>tx s' s'' d. RevokeConsent_handler sample_handler (sample_world [] 5)
      (post_request ''x'' (sample_revoke_json ''sepolia'')) stale_state = (Inr (200, RevokedBody tx True), s') \<and>
    GetConsent_handler sample_handler (sample_world [] 6) (get_request '''' ''x'' ''Sepolia'') s' =
      (Inr (200, ConsentBody d), s'') \<and> \<not> co_Revoked d"
proof -
  let ?rq = "post_request ''x'' (sample_revoke_json ''sepolia'')"
  have b: "bind_revoke (rq_Body ?rq) = Some \<lparr> rr_ConsentID = ''x'', rr_Chain = ''sepolia'' \<rparr>"
    by (simp add: sample_revoke_bound)
  have "can_prepare sample_handler (sample_world [] 5) ''sepolia'' stale_state"
    using sample_ready [of stale_state "[]"] sample_create_ready(2)
    unfolding can_prepare_def by (auto simp: stale_state_def sample_world_def sample_state_def RegisterRoutes_def)
  with RevokeConsent_prepared [OF b, of sample_handler "sample_world [] 5" stale_state]
  obtain tx t where "RevokeConsent_handler sample_handler (sample_world [] 5) ?rq stale_state =
      revoke_stored sample_handler \<lparr> rr_ConsentID = ''x'', rr_Chain = ''sepolia'' \<rparr> tx
        (stale_state\<lparr>as_clients := t\<rparr>)"
    by auto
  then obtain tx' s' where r: "RevokeConsent_handler sample_handler (sample_world [] 5) ?rq stale_state =
      (Inr (200, RevokedBody tx' True), s')"
    using revoke_stored_done [OF sample_cfg_simps(5,4)] by metis
  have ne: "''Sepolia'' \<noteq> ''''" by simp
  have d: "cached (\<lambda>r. r) (as_redis stale_state) ''Sepolia'' ''x'' = Some (clean_cache stale_document)"
    by (simp add: cached_def stale_state_def decode_cached_def unmarshal_marshal)
  have "\<exists>s''. GetConsent_handler sample_handler (sample_world [] 6) (get_request '''' ''x'' ''Sepolia'') s' =
      (Inr (200, ConsentBody (toConsentResponse (clean_cache stale_document))), s'')"
    by (rule alias_revocation_stale [OF r b _ sample_redis_ok sample_redis_up, where ch = "''Sepolia''"])
       (insert d ne, simp_all add: canon_Sepolia sample_create_ready(2))
  with r show ?thesis
    by (fastforce simp: toConsentResponse_def stale_document_def createConsentCache_def)
qed

section \<open>Short answers and missing stores\<close>

text \<open>
  C37: A consent record cut short crashes its request. When a consent is not cached and the contract
  returns at least 96 but fewer than 128 bytes that decode, the expiry is a nil pointer and reading
  the consent panics, after the lookup and before the answer is cached.
\<close>
theorem short_record_panics:
  assumes "rq_Param rq ''id'' \<noteq> ''''" "canon_chain (w_lib w) (rq_Query rq ''chain'') \<noteq> None"
    and "rq_Query rq ''chain'' \<noteq> ''''" "h_redis h = Some srv"
    and "GetCachedConsent (Some srv) (rq_Query rq ''chain'') (rq_Param rq ''id'') (as_redis s) = (Inr (Inr None), r')"
    and "chain_ready (w_lib w) (w_net w) (h_cfg h) (rq_Query rq ''chain'') (as_clients s) conn addr"
    and "\<And>m. CallContract (w_net w) conn m = Inr answer"
    and "96 \<le> length answer" "length answer < 128" "decodeConsentData (w_lib w) answer = Inr d"
  shows "\<exists>t. GetConsent_handler h w rq s = (Inl NilDereference, s\<lparr>as_redis := r', as_clients := t\<rparr>)"
proof -
  have d: "cd_ValidFrom d \<noteq> None" "cd_ValidUntil d = None" "cd_Exists d"
    using assms(8-10) by (auto simp: decodeConsentData_def rbind_Inr_iff Let_def)
  obtain t where "getContractClient (w_lib w) (w_net w) (h_cfg h) (rq_Query rq ''chain'') (s\<lparr>as_redis := r'\<rparr>) =
      (Inr (Inr (NewClient conn (rq_Query rq ''chain'') addr)), s\<lparr>as_redis := r'\<rparr>\<lparr>as_clients := t\<rparr>)"
    using getContractClient_ready [of "w_lib w" "w_net w" "h_cfg h" "rq_Query rq ''chain''" "s\<lparr>as_redis := r'\<rparr>" conn addr]
      assms(6) by auto
  moreover have "GetConsent (w_lib w) (w_net w) (NewClient conn (rq_Query rq ''chain'') addr)
      (HexToHash (w_lib w) (rq_Param rq ''id'')) = Inr (Inr d)"
    using assms(7,10) by (simp add: GetConsent_def encodeGetConsent_def NewClient_def)
  ultimately show ?thesis
    using assms(1-5) d
    by (intro exI [of _ t]) (auto simp: GetConsent_handler_def Let_def validateChain_iff [THEN iffD2]
        gbind_def on_redis_apply fetched_consent_def deref_Uint64_def)
qed

theorem short_record_panics_witness:
  "\<exists>t. GetConsent_handler sample_handler (sample_world (replicate 96 0) 5) (get_request '''' ''x'' ''sepolia'') sample_state =
     (Inl NilDereference, sample_state\<lparr>as_redis := Map.empty, as_clients := t\<rparr>)"
proof -
  have e: "as_clients sample_state = Map.empty" "as_redis sample_state = Map.empty"
    by (simp_all add: sample_state_def RegisterRoutes_def)
  have g: "GetCachedConsent (Some sample_redis) ''sepolia'' ''x'' Map.empty = (Inr (Inr None), Map.empty)"
    by (simp add: GetCachedConsent_def sample_redis_def)
  have z: "big_SetBytes (replicate 32 0) = 0" by (simp add: big_SetBytes_def)
  have d: "\<exists>d. decodeConsentData sample_lib (replicate 96 0) = Inr d"
    by (simp add: decodeConsentData_def Let_def z big_Uint64_def decode_array_def make_slice_ok_def)
  then obtain d where d: "decodeConsentData sample_lib (replicate 96 0) = Inr d" ..
  show ?thesis
    by (rule short_record_panics [OF _ _ _ sample_cfg_simps(4), where answer = "replicate 96 0" and d = d and
          conn = 1 and addr = "HexToAddress sample_lib ''0x01''"])
       (use e g d sample_ready(1) [of sample_state "replicate 96 0"] in
         \<open>simp_all add: sample_create_ready(2) sample_net_def\<close>)
qed

text \<open>
  Without a vector store no consent is created. The handler holds a nil pointer when the store
  could not be reached at start; a well-formed creation then prepares its transaction, panics while
  indexing, and is answered with a bare 500 by the recovery, leaving nothing cached.
\<close>
theorem no_index_no_creation:
  assumes "bind_create (rq_Body rq) = Some req" "can_prepare h w (cr_Chain req) s"
    and "bad_party (w_lib w) 0 (cr_Parties req) = None"
    and "length (cr_Parties req) < 2 ^ 32" "length (cr_Scopes req) < 2 ^ 32"
    and "h_qdrant h = None"
  shows "\<exists>t. Recovery (CreateConsent h w rq) s = ((500, NoBody), s\<lparr>as_clients := t\<rparr>)"
proof -
  obtain hash t where "CreateConsent h w rq s =
      store_consent h w req (generateConsentID w (cr_Parties req) (cr_Scopes req)) (HashHex (w_lib w) hash)
        (s\<lparr>as_clients := t\<rparr>)"
    using CreateConsent_prepared [OF assms(1-5)] by blast
  then show ?thesis
    using assms(6) by (intro exI [of _ t])
      (simp add: Recovery_def store_consent_def Let_def gbind_def on_qdrant_apply)
qed

theorem no_index_no_creation_witness:
  "\<exists>t. Recovery (CreateConsent nil_handler (sample_world [] 5) (post_request '''' sample_create_json)) sample_state =
     ((500, NoBody), sample_state\<lparr>as_clients := t\<rparr>)"
proof -
  have "can_prepare nil_handler (sample_world [] 5) (cr_Chain sample_create) sample_state"
    using sample_prepared [of "[]" 5] by (simp add: can_prepare_def sample_create_fields)
  then show ?thesis
    using no_index_no_creation [of "post_request '''' sample_create_json" sample_create nil_handler
        "sample_world [] 5" sample_state] sample_create_bound sample_create_ready(1)
    by (simp add: sample_create_fields)
qed

section \<open>Searching and listing\<close>

lemma on_qdrant_search:
  assumes "gbind (on_qdrant m) f s = (Inr y, s')"
  obtains x q' where "m (as_qdrant s) = (Inr x, q')" "f x (s\<lparr>as_qdrant := q'\<rparr>) = (Inr y, s')"
  using assms by (auto elim!: gbind_cases on_qdrant_cases)

text \<open>
  C32: The consents of a party. When the vector store filters as it promises, every consent listed for
  an address names that address, written in lower case, among its parties. A consent whose parties
  were registered in mixed case, which creation stores as they were written, is never listed.
\<close>
theorem listed_for_party:
  assumes "GetPartyConsents h w rq s = (Inr (200, SearchBody b), s')"
    and "h_qdrant h = Some (srv, cfg)" "search_ok srv contents" "parties_listed (contents (as_qdrant s))"
    and "strings_ToLower (unicode_lower (w_lib w)) (rq_Param rq ''addr'') \<noteq> ''''"
    and "d \<in> set (sr_Results b)"
  shows "strings_ToLower (unicode_lower (w_lib w)) (rq_Param rq ''addr'') \<in> set (co_Parties d)"
proof -
  let ?a = "strings_ToLower (unicode_lower (w_lib w)) (rq_Param rq ''addr'')"
  have "gbind (on_qdrant (GetConsentsByParty (h_qdrant h) [] ?a)) (\<lambda>r.
      let results = (case r of Inl e \<Rightarrow> [] | Inr docs \<Rightarrow> map doc_response docs)
      in gret (search_body results 1 (int (length results)))) s = (Inr (200, SearchBody b), s')"
    using assms(1) by (auto simp: GetPartyConsents_def Let_def handleError_def error_body_def split: if_splits)
  then obtain r q' where g: "GetConsentsByParty (h_qdrant h) [] ?a (as_qdrant s) = (Inr r, q')"
    and b: "sr_Results b = (case r of Inl e \<Rightarrow> [] | Inr docs \<Rightarrow> map doc_response docs)"
    by (rule on_qdrant_search) (auto simp: Let_def search_body_def)
  from b assms(6) obtain docs doc where r: "r = Inr docs" "doc \<in> set docs" "d = doc_response doc"
    by (cases r) auto
  have "?a \<in> set (qd_Parties doc)"
    using search_by_party [OF assms(3,4), of cfg "[]" "\<lparr> se_Query = '''', se_Chain = '''', se_Party = ?a,
        se_Scope = '''', se_Limit = 100, se_Offset = 0 \<rparr>" docs q' doc] g r assms(2,5)
    by (simp add: GetConsentsByParty_def)
  then show ?thesis by (simp add: r(3) doc_response_def)
qed

definition party_state :: "(points, kv) api_state" where
  "party_state = sample_state\<lparr>as_qdrant :=
     [(''p'', [''parties'' \<mapsto> ListValue [StringValue (sample_party ''a'')]])]\<rparr>"

definition party_request :: request where
  "party_request = (get_request '''' '''' '''')\<lparr>rq_Param := (\<lambda>k. sample_party ''a'')\<rparr>"

lemma sample_lower: "strings_ToLower u (sample_party ''a'') = sample_party ''a''"
proof -
  have "is_ascii (sample_party ''a'')" "map ascii_lower (sample_party ''a'') = sample_party ''a''" by code_simp+
  then show ?thesis by (simp only: strings_ToLower_def if_True)
qed

theorem listed_for_party_witness:
  "\<exists>b s' d. GetPartyConsents sample_handler (sample_world [] 5) party_request party_state =
      (Inr (200, SearchBody b), s') \<and> sr_Results b = [d] \<and> sample_party ''a'' \<in> set (co_Parties d)"
proof -
  let ?a = "sample_party ''a''"
  let ?d = "zero_document\<lparr>qd_Parties := [?a]\<rparr>"
  have hex: "IsHexAddress sample_lib ?a" by code_simp
  have ne: "?a \<noteq> ''''" by code_simp
  have cfg: "qc_VectorSize (Qdrant sample_cfg) = 384"
    by (simp add: sample_cfg_def Load_def getEnvInt_def sample_env_def)
  have g: "GetConsentsByParty (Some (sample_qdrant, Qdrant sample_cfg)) [] ?a (as_qdrant party_state) =
      (Inr (Inr [?d]), as_qdrant party_state)"
    using ne by (simp add: GetConsentsByParty_def Search_def cfg search_request_def search_conditions_def
        sample_qdrant_def party_state_def pl_matches_def pointToDocument_def Let_def zero_document_def
        List.map_filter_def)
  let ?b = "\<lparr> sr_Results = [doc_response ?d], sr_Total = 1, sr_Page = 1, sr_PageSize = 1 \<rparr>"
  have q: "rq_Param party_request ''addr'' = ?a" by (simp add: party_request_def)
  have run: "GetPartyConsents sample_handler (sample_world [] 5) party_request party_state =
      (Inr (200, SearchBody ?b), party_state)"
    using g hex ne by (simp add: GetPartyConsents_def q sample_lower gbind_def on_qdrant_apply search_body_def Let_def)
  have p: "parties_listed (snd ` set (as_qdrant party_state))"
    by (simp add: parties_listed_def party_state_def)
  have "?a \<in> set (co_Parties (doc_response ?d))"
    using listed_for_party [OF run sample_cfg_simps(5) sample_search_ok p, of "doc_response ?d"] ne
    by (simp add: q sample_lower)
  with run show ?thesis by (intro exI [of _ ?b] exI [of _ party_state] exI [of _ "doc_response ?d"]) simp
qed

text \<open>
  Paging and the query text have no effect. Two searches that differ only in the page and in the
  text \<^verbatim>\<open>q\<close> get the same results and leave the same state, whatever the vector store does.
\<close>
theorem search_pages_alike:
  assumes "rq_Query rq ''chain'' = rq_Query rq' ''chain''" "rq_Query rq ''party'' = rq_Query rq' ''party''"
    and "rq_Query rq ''scope'' = rq_Query rq' ''scope''" "rq_Query rq ''limit'' = rq_Query rq' ''limit''"
    and "SearchConsents h w rq s = (Inr (200, SearchBody a), s1)"
    and "SearchConsents h w rq' s = (Inr (200, SearchBody b), s2)"
  shows "sr_Results a = sr_Results b \<and> s1 = s2"
proof -
  let ?p = "\<lambda>rq. \<lparr> se_Query = rq_Query rq ''q'', se_Chain = rq_Query rq ''chain'',
      se_Party = rq_Query rq ''party'', se_Scope = rq_Query rq ''scope'',
      se_Limit = search_limit (rq_Query rq ''limit''),
      se_Offset = i64 ((search_page (rq_Query rq ''page'') - 1) * search_limit (rq_Query rq ''limit'')) \<rparr>"
  have req: "search_request cfg (?p rq) = search_request cfg (?p rq')" for cfg
    using assms(1-4) by (simp add: search_request_def search_conditions_def)
  have same: "Search c [] (?p rq) q = Search c [] (?p rq') q" for c q
    by (simp only: Search_def req)
  obtain x q' where x: "Search (h_qdrant h) [] (?p rq) (as_qdrant s) = (Inr x, q')"
    "sr_Results a = (case x of Inl e \<Rightarrow> [] | Inr docs \<Rightarrow> map doc_response docs)" "s1 = s\<lparr>as_qdrant := q'\<rparr>"
    using assms(5) unfolding SearchConsents_def Let_def
    by (rule on_qdrant_search) (auto simp: search_body_def split: sum.splits)
  obtain y q'' where y: "Search (h_qdrant h) [] (?p rq') (as_qdrant s) = (Inr y, q'')"
    "sr_Results b = (case y of Inl e \<Rightarrow> [] | Inr docs \<Rightarrow> map doc_response docs)" "s2 = s\<lparr>as_qdrant := q''\<rparr>"
    using assms(6) unfolding SearchConsents_def Let_def
    by (rule on_qdrant_search) (auto simp: search_body_def split: sum.splits)
  from x(1) y(1) have "x = y" "q' = q''" unfolding same by simp_all
  with x(2,3) y(2,3) show ?thesis by (simp only: simp_thms)
qed

theorem search_pages_alike_witness:
  "\<exists>a b s1 s2. SearchConsents sample_handler (sample_world [] 5) (get_request '''' '''' '''') party_state =
      (Inr (200, SearchBody a), s1) \<and>
    SearchConsents sample_handler (sample_world [] 5)
      ((get_request '''' '''' '''')\<lparr>rq_Query := (\<lambda>k. if k = ''page'' then ''7'' else '''')\<rparr>) party_state =
      (Inr (200, SearchBody b), s2) \<and> sr_Results a = sr_Results b"
proof -
  let ?rq = "get_request '''' '''' ''''"
  let ?rq' = "?rq\<lparr>rq_Query := (\<lambda>k. if k = ''page'' then ''7'' else '''')\<rparr>"
  have ex: "\<exists>a s1. SearchConsents sample_handler (sample_world [] 5) r party_state = (Inr (200, SearchBody a), s1)" for r
  proof -
    have cfg: "qc_VectorSize (Qdrant sample_cfg) = 384"
      by (simp add: sample_cfg_def Load_def getEnvInt_def sample_env_def)
    show ?thesis
      by (simp add: SearchConsents_def Let_def gbind_def on_qdrant_def gzoom_def Search_def cfg
          search_body_def split: prod.split sum.split)
  qed
  obtain a s1 where a: "SearchConsents sample_handler (sample_world [] 5) ?rq party_state = (Inr (200, SearchBody a), s1)"
    using ex by blast
  obtain b s2 where b: "SearchConsents sample_handler (sample_world [] 5) ?rq' party_state = (Inr (200, SearchBody b), s2)"
    using ex by blast
  have "sr_Results a = sr_Results b \<and> s1 = s2"
    by (rule search_pages_alike [OF _ _ _ _ a b]) (simp_all add: get_request_def)
  with a b show ?thesis by blast
qed

lemma GetChainStatus_total:
  "\<exists>i cl'. GetChainStatus L cc net chain cl = (Inr (Inr i), cl') \<and> ci_Name i = chain \<and>
     dom cl' \<subseteq> insert chain (dom cl) \<and> cl \<subseteq>\<^sub>m cl' \<and> (ci_RPCReady i \<longrightarrow> chain \<in> dom cl')"
proof (cases rule: GetClient_cases [of L cc net chain cl])
  case (1 e)
  then show ?thesis
    by (auto simp: GetChainStatus_def gbind_def not_ready_def)
next
  case (2 c)
  have "cl \<subseteq>\<^sub>m cl(chain \<mapsto> c)"
    using GetClient_dom [OF 2] by blast
  with 2 show ?thesis
    by (auto simp: GetChainStatus_def gbind_def not_ready_def Let_def split: sum.split)
qed

lemma chain_statuses_total:
  "\<exists>infos cl'. chain_statuses L net cfg names cl = (Inr infos, cl') \<and> map ci_Name infos = names \<and>
     dom cl' \<subseteq> set names \<union> dom cl \<and> (\<forall>i\<in>set infos. ci_RPCReady i \<longrightarrow> ci_Name i \<in> dom cl')"
proof (induction names arbitrary: cl)
  case Nil
  then show ?case by simp
next
  case (Cons n names)
  obtain i cl1 where i: "GetChainStatus L (Chains cfg) net n cl = (Inr (Inr i), cl1)" "ci_Name i = n"
    "dom cl1 \<subseteq> insert n (dom cl)" "ci_RPCReady i \<longrightarrow> n \<in> dom cl1"
    using GetChainStatus_total by blast
  obtain infos cl2 where r: "chain_statuses L net cfg names cl1 = (Inr infos, cl2)" "map ci_Name infos = names"
    "dom cl2 \<subseteq> set names \<union> dom cl1" "\<forall>i\<in>set infos. ci_RPCReady i \<longrightarrow> ci_Name i \<in> dom cl2"
    using Cons.IH by blast
  have "dom cl1 \<subseteq> dom cl2"
    using r(1)
  proof (induction names arbitrary: cl1 infos)
    case Nil
    then show ?case by simp
  next
    case (Cons m ms)
    obtain j cl3 where j: "GetChainStatus L (Chains cfg) net m cl1 = (Inr (Inr j), cl3)" "cl1 \<subseteq>\<^sub>m cl3"
      using GetChainStatus_total by blast
    then obtain x where "chain_statuses L net cfg ms cl3 = (Inr x, cl2)"
      using Cons.prems by (auto elim!: gbind_cases)
    from Cons.IH [OF this] j(2) show ?case by (blast dest: map_le_implies_dom_le)
  qed
  moreover have "dom cl2 \<subseteq> set (n # names) \<union> dom cl"
    using order_trans [OF r(3) Un_mono [OF order_refl i(3)]] by auto
  moreover have "chain_statuses L net cfg (n # names) cl = (Inr (i # infos), cl2)"
    using i(1) r(1) by (simp add: gbind_def)
  ultimately show ?case using i(2,4) r(2,4) by (intro exI [of _ "i # infos"] exI [of _ cl2]) auto
qed

text \<open>
  The list of chains is always the same five. Whatever the nodes answer, listing the chains is
  answered 200 with one entry per supported chain, in the fixed order; an entry that is ready has a
  client in the table, and no client is dialled for any other name.
\<close>
theorem chains_listed:
  "\<exists>infos s'. GetChains h w rq s = (Inr (200, ChainsBody infos), s') \<and>
     map ci_Name infos = canonical_names \<and>
     dom (as_clients s') \<subseteq> set canonical_names \<union> dom (as_clients s) \<and>
     ci_Name ` {i \<in> set infos. ci_RPCReady i} \<subseteq> dom (as_clients s')"
proof -
  obtain infos cl' where c: "chain_statuses (w_lib w) (w_net w) (h_cfg h) canonical_names (as_clients s) = (Inr infos, cl')"
    "map ci_Name infos = canonical_names" "dom cl' \<subseteq> set canonical_names \<union> dom (as_clients s)"
    "\<forall>i\<in>set infos. ci_RPCReady i \<longrightarrow> ci_Name i \<in> dom cl'"
    using chain_statuses_total by blast
  have "GetChains h w rq s = (Inr (200, ChainsBody infos), s\<lparr>as_clients := cl'\<rparr>)"
    using c(1) unfolding GetChains_def canonical_names_def by (simp add: gbind_def on_clients_apply)
  with c show ?thesis by auto
qed

end
