(* ===== verification/Abi_Results.thy ===== *)
theory Abi_Results
  imports Contracts Sample_Lib
begin

text \<open>
  The properties of the contract client: what survives the conversions, what a contract reads in
  the call data, and what the client makes of the data a contract returns.
\<close>

text \<open>
  C25: Scope names and 32-byte words carry the same information: a list of names of at most 32 bytes
  that do not end in a NUL comes back from its words, and a list of words comes back from its names.
\<close>
theorem scopes_round_trip:
  assumes "list_all scope_ok ss" "list_all (\<lambda>b. length b = 32) bs"
  shows "Bytes32ArrayToStrings (StringsToBytes32Array ss) = ss \<and>
    StringsToBytes32Array (Bytes32ArrayToStrings bs) = bs"
proof
  have "Bytes32ToString (StringToBytes32 s) = s" if "s \<in> set ss" for s
    using that assms(1) scope_codec.dec_enc [of s] by (simp add: list_all_iff)
  then show "Bytes32ArrayToStrings (StringsToBytes32Array ss) = ss"
    by (simp add: Bytes32ArrayToStrings_def StringsToBytes32Array_def map_idI)
  have "StringToBytes32 (Bytes32ToString b) = b" if "b \<in> set bs" for b
    using that assms(2) scope_codec.enc_dec [of b] by (auto simp: list_all_iff)
  then show "StringsToBytes32Array (Bytes32ArrayToStrings bs) = bs"
    by (simp add: Bytes32ArrayToStrings_def StringsToBytes32Array_def map_idI)
qed

theorem scopes_round_trip_witness:
  "Bytes32ArrayToStrings (StringsToBytes32Array [''photo'', ''video'']) = [''photo'', ''video'']"
  using scopes_round_trip [of "[''photo'', ''video'']" "[]"] by (simp add: scope_ok_def)

text \<open>
  C23: The call data of a registration, read by the ABI's rules. After the four selector bytes, the
  first head word is the offset of the parties, where their number and every padded address are
  found, and the third is the duration. But the second, the offset of the scopes, points 32 bytes
  past their number: what a contract finds there as the number of scopes is the first scope itself.
\<close>
theorem register_calldata:
  assumes "list_all (\<lambda>p. length p = 20) parties" "list_all (\<lambda>b. length b = 32) scopes"
    and "length parties < 2 ^ 32" "length scopes < 2 ^ 32" "0 \<le> duration" "duration < 256 ^ 32"
    and "encodeRegisterConsent L parties scopes duration = Inr (Inr data)"
    and "args = drop (length (selector L ''registerConsent(address[],bytes32[],uint256)'')) data"
  shows "abi_word args (abi_word args 0) = length parties \<and>
    list_all (\<lambda>i. abi_elem args (abi_word args 0) i = pad_address (parties ! i)) [0..<length parties] \<and>
    abi_word args 64 = nat duration \<and>
    abi_word args (abi_word args 32 - 32) = length scopes \<and>
    (scopes = [] \<or> abi_word args (abi_word args 32) = nat_of_be (hd scopes))"
proof -
  have a: "args = register_args parties scopes (nat duration)"
    using assms(7) encodeRegisterConsent_args [OF assms(3,4,5,6), of L] by (auto simp: assms(8))
  have d: "nat duration < 256 ^ 32"
    using assms(5,6) by (simp add: nat_less_iff)
  note w = register_args_words [OF assms(3) d assms(1), of scopes, folded a]
  note s = register_args_scopes [OF assms(1,2,3,4), of "nat duration", folded a]
  have "list_all (\<lambda>i. abi_elem args 96 i = pad_address (parties ! i)) [0..<length parties]"
    using register_args_party [OF assms(1), of _ scopes "nat duration", folded a] by (simp add: list_all_iff)
  moreover have "scopes = [] \<or> abi_word args (160 + 32 * length parties) = nat_of_be (hd scopes)"
    using s(2) by (cases "scopes = []") (simp_all add: abi_word_def)
  moreover have "160 + 32 * length parties - 32 = 128 + 32 * length parties" by simp
  ultimately show ?thesis
    by (simp only: w s(1))
qed

theorem register_calldata_witness:
  "\<exists>data. encodeRegisterConsent sample_lib [replicate 20 7] [replicate 32 9] 3600 = Inr (Inr data) \<and>
     abi_word (drop 4 data) 64 = 3600"
proof -
  let ?p = "[replicate 20 7] :: address list" and ?s = "[replicate 32 9] :: bytes list"
  have e: "encodeRegisterConsent sample_lib ?p ?s 3600 = Inr (Inr
      (selector sample_lib ''registerConsent(address[],bytes32[],uint256)'' @ register_args ?p ?s 3600))"
    using encodeRegisterConsent_args [of ?p ?s 3600 sample_lib] by simp
  have l: "length (selector sample_lib ''registerConsent(address[],bytes32[],uint256)'') = 4"
    using sample_arrays by (simp add: selector_def lib_arrays_def)
  from register_calldata [OF _ _ _ _ _ _ e refl] show ?thesis
    by (simp add: e l)
qed

text \<open>
  C24: The flat tuple \<^verbatim>\<open>(address[], bytes32[], uint256, uint256, bool)\<close> is decoded into the parties,
  scopes and times it was made of, but a revoked consent is decoded as not revoked: the flag is read
  from the first byte of its word, which is zero for both values.
\<close>
theorem consent_tuple_round_trip:
  assumes "lib_bytes L" "list_all (\<lambda>p. length p = 20) parties" "list_all (\<lambda>b. length b = 32) scopes"
    and "length parties < 2 ^ 32" "length scopes < 2 ^ 32" "validFrom < 256 ^ 32" "validUntil < 256 ^ 32"
  shows "decodeConsentData L (consent_tuple parties scopes validFrom validUntil revoked) =
    Inr \<lparr> cd_Parties = parties, cd_Scopes = scopes, cd_ValidFrom = Some (int validFrom),
          cd_ValidUntil = Some (int validUntil), cd_Revoked = False, cd_Exists = True \<rparr>"
  by (rule decode_consent_tuple [OF assms])

theorem consent_tuple_round_trip_witness:
  "decodeConsentData sample_lib (consent_tuple [replicate 20 7] [replicate 32 9] 100 200 True) =
     Inr \<lparr> cd_Parties = [replicate 20 7], cd_Scopes = [replicate 32 9], cd_ValidFrom = Some 100,
           cd_ValidUntil = Some 200, cd_Revoked = False, cd_Exists = True \<rparr>"
  using consent_tuple_round_trip [OF sample_bytes, of "[replicate 20 7]" "[replicate 32 9]" 100 200 True]
  by simp

text \<open>
  C36: What the registry contract really returns for a consent, a struct behind an offset whose first
  member is the consent's id, makes the decoder panic: the id is taken for an offset, and unless its
  low 64 bits happen to lie inside the data, the slice is out of range.
\<close>
theorem contract_struct_panics:
  assumes "length consentId = 32" "32 \<le> length rest" "64 + length rest < nat_of_be consentId mod 2 ^ 64"
    and "CallContract net (cl_conn c) \<lparr> cm_To = cl_address c,
           cm_Data = selector L ''getConsent(bytes32)'' @ consentId, cm_Gas = 0, cm_GasPrice = None \<rparr> =
         Inr (contract_return consentId rest)"
  shows "\<exists>p. GetConsent L net c consentId = Inl p"
proof -
  obtain p where "decodeConsentData L (contract_return consentId rest) = Inl p"
    using decode_contract_return [OF assms(1-3)] by blast
  with assms(4) show ?thesis by (simp add: GetConsent_def encodeGetConsent_def)
qed

definition answering :: "bytes \<Rightarrow> rpc" where
  "answering answer =
     \<lparr> DialContext = (\<lambda>url. Inr 1), ChainID = (\<lambda>c. Inr 1), BlockNumber = (\<lambda>c. Inr 1),
       SuggestGasPrice = (\<lambda>c. Inr 1), EstimateGas = (\<lambda>c m. Inr 1), NonceAt = (\<lambda>c a. Inr 1),
       CallContract = (\<lambda>c m. Inr answer) \<rparr>"

theorem contract_struct_panics_witness:
  "\<exists>p. GetConsent sample_lib (answering (contract_return (be_bytes 32 1099511627776) (replicate 224 0)))
     (NewClient 1 ''sepolia'' zero_address) (be_bytes 32 1099511627776) = Inl p"
proof -
  have "64 + length (replicate 224 (0 :: u8)) < nat_of_be (be_bytes 32 1099511627776) mod 2 ^ 64"
    by (simp only: nat_of_be_be_bytes length_replicate) simp
  then show ?thesis
    by (intro contract_struct_panics) (simp_all add: answering_def)
qed

text \<open>
  C28: What is prepared. When the node answers, a registration (of fewer than 2^32 parties and scopes and
  a duration that fits its word) and a revocation return the signer's hash, for the node's chain id, of exactly this transaction: the nonce of the zero address, to the
  contract, no value, the gas the node estimates for the call (300000 when it reports an error), the
  node's gas price, and as data the selector of the function followed by the encoded arguments; with
  it the hash's text, and an error made of that text, which the endpoints recognise.
\<close>
theorem prepared_transactions:
  assumes "ChainID net (cl_conn c) = Inr chainID" "NonceAt net (cl_conn c) zero_address = Inr nonce"
    and "SuggestGasPrice net (cl_conn c) = Inr price"
    and "length parties < 2 ^ 32" "length scopes < 2 ^ 32" "0 \<le> duration" "duration < 256 ^ 32"
    and "reg = SignerHash L chainID (unsigned_call net c nonce price
      (selector L ''registerConsent(address[],bytes32[],uint256)'' @ register_args parties scopes (nat duration)))"
    and "rvk = SignerHash L chainID (unsigned_call net c nonce price
      (selector L ''revokeConsent(bytes32)'' @ consentID))"
  shows "RegisterConsent L net c parties scopes duration =
      Inr (reg, HashHex L reg, ''transaction requires external signing, hash: '' @ HashHex L reg) \<and>
    RevokeConsent L net c consentID =
      (rvk, HashHex L rvk, ''transaction requires external signing, hash: '' @ HashHex L rvk) \<and>
    signing_error (''transaction requires external signing, hash: '' @ HashHex L reg) \<and>
    signing_error (''transaction requires external signing, hash: '' @ HashHex L rvk)"
proof -
  have p: "prepares net c data chainID (unsigned_call net c nonce price data)" for data
    using assms(1-3) by (simp add: prepares_def)
  have "RegisterConsent L net c parties scopes duration = Inr (reg, HashHex L reg, needs_signing L reg)"
    unfolding assms(8) by (rule RegisterConsent_prepares [OF p [of "register_data L parties scopes (nat duration)"]
      assms(4-7), unfolded register_data_def])
  moreover have "RevokeConsent L net c consentID = (rvk, HashHex L rvk, needs_signing L rvk)"
    unfolding assms(9) by (rule RevokeConsent_prepares [OF p [of "revoke_data L consentID"], unfolded revoke_data_def])
  moreover have "signing_error (needs_signing L reg)" "signing_error (needs_signing L rvk)" by simp_all
  ultimately show ?thesis unfolding needs_signing_def by blast
qed

theorem prepared_transactions_witness:
  "\<exists>h. h = SignerHash sample_lib 1 (unsigned_call (answering []) (NewClient 1 ''sepolia'' zero_address) 1 1
        (selector sample_lib ''registerConsent(address[],bytes32[],uint256)'' @ register_args [] [] 5)) \<and>
     RegisterConsent sample_lib (answering []) (NewClient 1 ''sepolia'' zero_address) [] [] 5 =
       Inr (h, HashHex sample_lib h, ''transaction requires external signing, hash: '' @ HashHex sample_lib h)"
proof -
  let ?c = "NewClient 1 ''sepolia'' zero_address"
  have "ChainID (answering []) (cl_conn ?c) = Inr 1"
    "NonceAt (answering []) (cl_conn ?c) zero_address = Inr 1" "SuggestGasPrice (answering []) (cl_conn ?c) = Inr 1"
    by (simp_all add: answering_def)
  from prepared_transactions [OF this, of "[]" "[]" 5, OF _ _ _ _ refl refl] show ?thesis by auto
qed

end
