(* ===== verification/Store_Results.thy ===== *)
theory Store_Results
  imports Sample_World Tasks
begin

text \<open>
  The properties of the cache, the index and the tasks that use them.
\<close>

section \<open>The cache\<close>

text \<open>
  C26: A cached document comes back as it was. Marshalling a document and reading it again replaces
  malformed UTF-8 in its strings and nothing else; a document whose strings are valid is unchanged,
  so two such documents are equal when their JSON is.
\<close>
theorem cache_round_trip:
  "unmarshal_cache (marshal_cache c) = Some (clean_cache c) \<and>
   (\<not> cache_text_ok c \<or> clean_cache c = c) \<and>
   (cache_text_ok c \<and> cache_text_ok c' \<and> marshal_cache c = marshal_cache c' \<longrightarrow> c = c')"
  using cache_codec.enc_inj [of c c'] by (auto simp: unmarshal_marshal clean_cache_id)

theorem cache_round_trip_witness:
  "unmarshal_cache (marshal_cache (zero_cache\<lparr>cc_Chain := ''amoy''\<rparr>)) = Some (zero_cache\<lparr>cc_Chain := ''amoy''\<rparr>)"
proof -
  have "cache_text_ok (zero_cache\<lparr>cc_Chain := ''amoy''\<rparr>)"
    by (simp add: cache_text_ok_def zero_cache_def utf8_valid_ascii is_ascii_def)
  with cache_round_trip [of "zero_cache\<lparr>cc_Chain := ''amoy''\<rparr>"] show ?thesis by simp
qed

text \<open>
  C13: The cache behaves as a map from chain and id. With a server that keeps its word, what was
  cached without an error is what a later lookup of its chain and id gives (in clean form), an
  invalidation without an error makes it absent, and no operation touches a document of another
  chain or id, provided the chain names hold no colon.
\<close>
theorem cache_is_a_map:
  assumes "redis_ok srv view" "CacheConsent (Some srv) d ttl r = (Inr None, r1)"
    and "CHR '':'' \<notin> set (cc_Chain d)" "CHR '':'' \<notin> set ch" "ch \<noteq> cc_Chain d \<or> i \<noteq> cc_ConsentID d"
    and "GetCachedConsent (Some srv) (cc_Chain d) (cc_ConsentID d) r1 = (Inr (Inr x), r2)"
    and "InvalidateConsent (Some srv) (cc_Chain d) (cc_ConsentID d) r2 = (Inr None, r3)"
    and "GetCachedConsent (Some srv) (cc_Chain d) (cc_ConsentID d) r3 = (Inr (Inr y), r4)"
  shows "x = Some (clean_cache d) \<and> y = None \<and> cached view r4 ch i = cached view r ch i"
proof -
  have k: "keys_apart (cc_Chain d) (cc_ConsentID d) ch i"
    using assms(3-5) by (auto simp: keys_apart_iff)
  have "cached view r4 ch i = cached view r3 ch i" "cached view r2 ch i = cached view r1 ch i"
    using redis_store.get_frame [OF assms(1,8)] redis_store.get_frame [OF assms(1,6)] by simp_all
  moreover have "cached view r3 ch i = cached view r2 ch i"
    by (rule redis_store.del_apart [OF assms(1,7) k])
  moreover have "cached view r1 ch i = cached view r ch i"
    by (rule redis_store.put_apart [OF assms(1,2) k])
  ultimately show ?thesis
    using redis_store.get_after_put [OF assms(1,2,6)] redis_store.get_after_del [OF assms(1,7,8)] by simp
qed

theorem cache_is_a_map_witness:
  "GetCachedConsent (Some sample_redis) ''amoy'' ''1''
     (snd (CacheConsent (Some sample_redis) (zero_cache\<lparr>cc_Chain := ''amoy'', cc_ConsentID := ''1''\<rparr>) 5 Map.empty)) =
   (Inr (Inr (Some (clean_cache (zero_cache\<lparr>cc_Chain := ''amoy'', cc_ConsentID := ''1''\<rparr>)))),
     [cache_key ''amoy'' ''1'' \<mapsto> RDoc (marshal_cache (zero_cache\<lparr>cc_Chain := ''amoy'', cc_ConsentID := ''1''\<rparr>))])"
proof -
  let ?d = "zero_cache\<lparr>cc_Chain := ''amoy'', cc_ConsentID := ''1''\<rparr>"
  let ?r = "[cache_key ''amoy'' ''1'' \<mapsto> RDoc (marshal_cache ?d)]"
  have p: "CacheConsent (Some sample_redis) ?d 5 Map.empty = (Inr None, ?r)"
    by (simp add: CacheConsent_def sample_redis_def Let_def)
  obtain x where g: "GetCachedConsent (Some sample_redis) (cc_Chain ?d) (cc_ConsentID ?d) ?r = (Inr (Inr x), ?r)"
    by (auto simp: GetCachedConsent_def sample_redis_def decode_cached_def unmarshal_marshal)
  have i: "InvalidateConsent (Some sample_redis) (cc_Chain ?d) (cc_ConsentID ?d) ?r = (Inr None, Map.empty)"
    by (simp add: InvalidateConsent_def sample_redis_def)
  have e: "GetCachedConsent (Some sample_redis) (cc_Chain ?d) (cc_ConsentID ?d) Map.empty = (Inr (Inr None), Map.empty)"
    by (simp add: GetCachedConsent_def sample_redis_def)
  have "x = Some (clean_cache ?d)"
    using cache_is_a_map [OF sample_redis_ok p _ _ _ g i e, of "''amoy''" "''2''"] by simp
  with g p show ?thesis by simp
qed

section \<open>Tasks\<close>

text \<open>
  An event task misses the document it is about. It invalidates the cache under the transaction
  hash, so when that succeeds, the document cached under the consent's own id is still there.
\<close>
theorem event_task_misses_consent:
  assumes "redis_ok srv view" "ev_EventType data = ''ConsentRevoked''"
    and "handleEventIndexing (Some srv) data r = (Inr None, r')"
    and "CHR '':'' \<notin> set (ev_Chain data)" "consentID \<noteq> ev_TxHash data"
    and "cached view r (ev_Chain data) consentID = Some d"
  shows "cached view r' (ev_Chain data) consentID = Some d"
proof -
  have "InvalidateConsent (Some srv) (ev_Chain data) (ev_TxHash data) r = (Inr None, r')"
    using assms(2,3) by (auto simp: handleEventIndexing_def split: prod.splits sum.splits option.splits)
  moreover have "keys_apart (ev_Chain data) (ev_TxHash data) (ev_Chain data) consentID"
    using assms(4,5) by (auto simp: keys_apart_iff)
  ultimately show ?thesis
    using redis_store.del_keeps_other [OF assms(1,6)] by blast
qed

theorem event_task_misses_consent_witness:
  "cached (\<lambda>r. r) (snd (handleEventIndexing (Some sample_redis)
      \<lparr> ev_EventType = ''ConsentRevoked'', ev_Chain = ''amoy'', ev_BlockNum = 1, ev_TxHash = ''t'', ev_Data = '''' \<rparr>
      [cache_key ''amoy'' ''c'' \<mapsto> RDoc (marshal_cache zero_cache)])) ''amoy'' ''c'' = Some zero_cache"
proof -
  let ?ev = "\<lparr> ev_EventType = ''ConsentRevoked'', ev_Chain = ''amoy'', ev_BlockNum = 1, ev_TxHash = ''t'', ev_Data = '''' \<rparr>"
  let ?r = "[cache_key ''amoy'' ''c'' \<mapsto> RDoc (marshal_cache zero_cache)]"
  have h: "handleEventIndexing (Some sample_redis) ?ev ?r = (Inr None, snd (handleEventIndexing (Some sample_redis) ?ev ?r))"
    by (simp add: handleEventIndexing_def InvalidateConsent_def sample_redis_def)
  have "cached (\<lambda>r. r) ?r ''amoy'' ''c'' = Some zero_cache"
    by (simp add: cached_def decode_cached_def unmarshal_marshal clean_cache_def zero_cache_def)
  from event_task_misses_consent [OF sample_redis_ok _ h, of "''c''", simplified, OF this[simplified]]
  show ?thesis by simp
qed
end
