(* ===== verification/Spec2Isabelle.thy ===== *)
theory Spec2Isabelle
  imports Services Indexer_End Indexer_Expiry Pool_Board Task_Runs Dialing Limits_Results Abi_Results Store_Results
begin

text \<open>
  A model of the Go services of the on-chain consent system and the theorems that say what they do.

  The program. Two processes share a Redis cache and a Qdrant index. The API server
  (\<^verbatim>\<open>src/backend/go-api\<close>) takes HTTP requests, prepares transactions for a consent registry contract
  on one of five EVM test chains, reads consents back from the contract or the cache, verifies them on
  chain or through a zero-knowledge proof service, and owns a pool of background workers. The event
  indexer (\<^verbatim>\<open>src/backend/event-indexer\<close>) polls each chain for the registry's logs, caches registered
  consents and marks revoked ones. The two meet only in the stores.

  How code becomes definitions. A Go struct is a record, an enumeration a datatype, \<^verbatim>\<open>uint64\<close> a
  64-bit word, \<^verbatim>\<open>int\<close>, \<^verbatim>\<open>int64\<close> and \<^verbatim>\<open>time.Duration\<close> an integer wrapped by \<open>i64\<close> where an operation can
  leave the range, \<^verbatim>\<open>big.Int\<close> an integer, a string a list of bytes. A pointer that can be nil is an
  option; nil and empty slices are identified. An \<^verbatim>\<open>error\<close> is its text on the left of a sum; a
  run-time panic is a \<open>go_panic\<close> on the left of a result, and keeps the effects that came before it.
  Stateful code is a function from the state to a result and the new state (theory \<open>Prelude\<close>).

  What is a parameter. Code outside the repository is an argument: the go-ethereum functions and the
  node behind a connection (\<open>lib\<close>, \<open>rpc\<close> in \<open>Eth\<close>), the Redis and Qdrant servers (\<open>redis_srv\<close> in
  \<open>Cache\<close>, \<open>qdrant_srv\<close> in \<open>Index\<close>), the JWT parser and the router's pattern matching
  (\<open>Middleware\<close>, \<open>Routes\<close>), the HTTP client, the clock and fresh identifiers (\<open>world\<close> in \<open>Handlers\<close>).
  What the code relies on of them is a named predicate (\<open>lib_arrays\<close>, \<open>lib_bytes\<close>, \<open>lib_hex\<close>,
  \<open>lib_colon\<close>, \<open>redis_ok\<close>, \<open>redis_up\<close>, \<open>redis_holds\<close>, \<open>redis_forgets\<close>, \<open>qdrant_ok\<close>, \<open>search_ok\<close>, \<open>node_ready\<close>,
  \<open>answers_from\<close>, \<open>honest_node\<close>, \<open>answering\<close>), each shown to hold of a concrete instance
  in \<open>Sample_Lib\<close>, \<open>Sample_World\<close> or beside its property. Of Redis, \<open>redis_ok\<close> says that a command
  without an error did exactly what it says, so a run under it is one in which no document expires:
  the time to live is handed to the server and that is all; \<open>redis_up\<close> says that no command fails.
  Where the code only logs a failing command, the properties of a single request or log do without
  \<open>redis_up\<close> and name the failure as a case. \<open>redis_forgets\<close> and \<open>redis_holds\<close> allow expiry, and
  \<open>redis_holds\<close> failures as well.

  The theories, by the code they model:

  \<^item> \<open>Prelude\<close>, \<open>Go_Strings\<close>, \<open>Float64\<close>, \<open>Json\<close>, \<open>Codec\<close>: the Go runtime and the parts of its
    library the code uses (wrap-around, slices, \<^verbatim>\<open>strings\<close>, \<^verbatim>\<open>strconv\<close>, \<^verbatim>\<open>float64\<close> rounding,
    \<^verbatim>\<open>encoding/json\<close> on parsed trees with UTF-8 replacement), and the locale of encoder/decoder pairs.
  \<^item> \<open>Refine\<close>: the locale of a concurrent component that implements an abstract machine.
  \<^item> \<open>Config\<close>: \<^verbatim>\<open>internal/config/config.go\<close> of both services.
  \<^item> \<open>Eth\<close>, \<open>Chains\<close>, \<open>Dialing\<close>: the library interface, \<^verbatim>\<open>internal/api/chain_client.go\<close>, and the
    concurrent callers of its client table.
  \<^item> \<open>Abi\<close>, \<open>Abi_Layout\<close>, \<open>Contracts\<close>, \<open>Abi_Results\<close>: \<^verbatim>\<open>internal/contracts/client.go\<close>, the ABI
    layouts it is compared with, and the properties.
  \<^item> \<open>Cache\<close>, \<open>Index\<close>, \<open>Tasks\<close>, \<open>Store_Results\<close>: \<^verbatim>\<open>internal/redis/client.go\<close>,
    \<^verbatim>\<open>internal/qdrant/client.go\<close>, \<^verbatim>\<open>internal/worker/tasks.go\<close> and their properties.
  \<^item> \<open>Pool\<close>, \<open>Pool_Facts\<close>, \<open>Pool_Runs\<close>, \<open>Pool_Board\<close>: \<^verbatim>\<open>internal/worker/pool.go\<close> with buffered and
    unbuffered queues, its invariant, its termination, and the task board it implements.
  \<^item> \<open>Api_Types\<close>, \<open>Middleware\<close>, \<open>Limiter\<close>, \<open>Handlers\<close>, \<open>Handler_Facts\<close>, \<open>Routes\<close>, \<open>Server\<close>,
    \<open>Task_Runs\<close>, \<open>Process\<close>, \<open>Provenance\<close>, \<open>Consent_Results\<close>, \<open>Limits_Results\<close>:
    \<^verbatim>\<open>internal/api/{types,middleware,handler,consent_handler,routes}.go\<close> and \<^verbatim>\<open>cmd/server/main.go\<close>;
    \<open>Server\<close> has the wiring, \<open>Task_Runs\<close> the server's own tasks in its pool, \<open>Process\<close> the life of the
    process until it exits.
  \<^item> \<open>Indexer_Stores\<close>, \<open>Indexer\<close>, \<open>Indexer_Facts\<close>, \<open>Indexer_Loops\<close>, \<open>Indexer_Results\<close>,
    \<open>Indexer_Replay\<close>, \<open>Indexer_Concurrent\<close>, \<open>Indexer_Expiry\<close>, \<open>Indexer_End\<close>: the indexer's own store clients and \<^verbatim>\<open>cmd/main.go\<close>; first
    one listener by itself, then the process of listeners that share one handler.
  \<^item> \<open>Services\<close> and this theory: both processes over the same stores.

  The interfaces. \<open>codec\<close> and \<open>canonical_codec\<close> (\<open>Codec\<close>) are interpreted on the scope names, the
  256-bit words and the cached documents; \<open>consent_writer\<close> (\<open>Cache\<close>), what a service that writes the
  cache relies on, on the Redis clients of both services, and \<open>consent_store\<close>, which adds reading, on
  the API's; \<open>revoker\<close> (\<open>Index\<close>) on the Qdrant clients of both services; \<open>chain_switch\<close> (\<open>Chains\<close>) on
  the three lookups that repeat one switch; \<open>log_tracker\<close> (\<open>Indexer_Concurrent\<close>), what keeps a relation
  between a chain's cache and the replay of its logs, on equality for a Redis that forgets nothing and on
  inclusion for one that may; \<open>simulation\<close> (\<open>Refine\<close>) on the pool, seen as its board and
  as its set of settled tasks, and on the client table with its two critical sections.

  What is shown. The pool: an invariant of every interleaving (each task is in one place and settled
  once, the counters count), that it refines a board on which only the allowed changes of a task
  happen, termination of its work, that every accepted task is settled, also in the pool as \<^verbatim>\<open>main\<close>
  sets it up with the handlers of \<^verbatim>\<open>tasks.go\<close>, that tasks made by the constructors find those
  handlers, and that a shutdown ends. The server: a signal leads to its end, which closes everything
  once and in order. The client table: concurrent calls have the outcome of calls one at a time. The
  limiter: never more than the burst plus the rate's worth of requests in a window, never a wait above
  a second. The API: what an unauthenticated request can reach, exactly what a creation is refused for,
  what is created is found, with the hash of exactly the transaction that was prepared, when a
  verification answers valid, what a revocation changes and what it leaves. The contract client: what
  it prepares, and what survives the hand-written encoding and decoding and what does not. The indexer:
  every block is handled once against a node that answers, and which blocks are lost when it does not;
  however its listeners interleave, the cache of each chain is the replay of that chain's logs, or
  within it when documents expire, and a signal ends the process. Across the services: what the indexer
  caches the API serves, what it revokes is gone from the cache unless the deletion failed (this theory),
  and, in every interleaving of the two, each consent the API serves has a source: a creation with
  valid credentials, the contract's record, or a log of its chain (\<open>Services\<close>). Several theorems state
  behaviour the comments, documents or tests of the repository do not promise or contradict; they
  describe the code.

  Steps. In the relations of \<open>Pool\<close> and \<open>Dialing\<close> a step is a channel operation or a critical section.
  In \<open>Process\<close> a whole request is one step, in \<open>Indexer_Concurrent\<close> one log, which the code handles
  under a mutex, one answer of a node, or one decision of a loop. The pool's clients submit a fresh
  pointer to a pending task that was never tried, as the constructors make them; \<^verbatim>\<open>Submit\<close> itself would
  take any pointer, also one the pool already holds. In \<open>Process\<close> requests do not reach the pool: \<^verbatim>\<open>main\<close>
  hands it neither to the handler nor to the routes, so the model gives them no access to it.
  \<open>task_handler\<close> is the table of the four functions that \<open>RegisterTaskHandlers\<close> registers.

  Loops. Structural recursion and measures everywhere but the indexer's batch loop, whose 64-bit
  counter can wrap around for ever: \<open>batch_loop\<close> is a partial function and \<open>batch_loop_ranges\<close> shows
  that it returns whenever the last block is below \<open>2 ^ 64\<close> minus the batch size.
  \<open>WaitForReceipt\<close> and the listener run over the list of the answers they receive.

  Not modelled: log output other than the request log; contexts and timeouts except as answers of the
  parameters; text of JSON documents (trees only) and of third-party errors; gin's redirects; panics
  inside worker handlers (with a nil store a handler would end the process; the server submits no task);
  requests of one server that interleave with each other inside a handler, and those that outlive the
  ten seconds of the HTTP server's shutdown; subnormal and overflowing \<^verbatim>\<open>float64\<close> results; \<^verbatim>\<open>Close\<close>
  methods that only close a connection. The Solidity contracts, the Solana programs, the circuits, the
  Rust proof service, the frontend and the infrastructure are other programs; the contracts appear
  only as the layouts their data has.
\<close>

section \<open>Events and requests\<close>

lemma is_ascii_ToLower: "is_ascii s \<Longrightarrow> is_ascii (strings_ToLower uni s)"
proof -
  have "(of_char (ascii_lower c) :: nat) < 128" if "(of_char c :: nat) < 128" for c
    using that by (auto simp: ascii_lower_def Let_def take_bit_eq_mod)
  then show "is_ascii s \<Longrightarrow> is_ascii (strings_ToLower uni s)"
    by (simp add: strings_ToLower_def is_ascii_def list_all_iff)
qed

lemma canonical_names_ascii: "k \<in> set canonical_names \<Longrightarrow> is_ascii k"
  by (auto simp: canonical_names_def is_ascii_def)

text \<open>In a cached event only the scope names can be malformed; everything else in it is ASCII.\<close>

lemma event_document_clean:
  assumes "lib_hex L" "chain \<in> set canonical_names"
  shows "clean_cache (event_document L chain txHash consentID parties scopes f u) =
    (event_document L chain txHash consentID parties scopes f u)
      \<lparr>cc_Scopes := map utf8_fix (Bytes32ArrayToStrings scopes)\<rparr>"
  using assms
  by (simp add: event_document_def clean_cache_def lib_hex_def utf8_fix_valid utf8_valid_ascii is_ascii_ToLower
      canonical_names_ascii)

lemma event_cached:
  assumes "lib_bytes L" "lib_hex L" "chain \<in> set canonical_names"
    and "length consentID = 32" "list_all (\<lambda>p. length p = 20) parties" "list_all (\<lambda>b. length b = 32) scopes"
    and "length parties < 2 ^ 32" "length scopes < 2 ^ 32" "f < 2 ^ 64" "u < 2 ^ 64"
    and "sig_registered L v" "lg_Data v = event_data consentID parties scopes f u"
    and "eh_redis eh = Some srv" "redis_ok srv view" "redis_up srv"
  shows "\<exists>r'. processEventLog L eh chain v (q, r) = (Inr (), q, r') \<and>
    cached view r' chain (HashHex L consentID) =
      Some ((event_document L chain (lg_TxHash v) consentID parties scopes (word_of_nat f) (word_of_nat u))
        \<lparr>cc_Scopes := map utf8_fix (Bytes32ArrayToStrings scopes)\<rparr>)"
proof -
  let ?d = "event_document L chain (lg_TxHash v) consentID parties scopes (word_of_nat f) (word_of_nat u)"
  have "128 \<le> length (lg_Data v)"
    using event_data_words(6) [OF assms(4), of parties scopes f u] assms(12) by simp
  moreover have "parse_event L chain v = Inr ?d"
    by (rule parse_event_layout [OF assms(1,4-10,12)])
  ultimately have p: "processEventLog L eh chain v (q, r) = (Inr (), q, snd (CacheConsent (Some srv) ?d hours24 r))"
    by (rule processEventLog_registered [OF assms(11) _ _ assms(13)])
  obtain r' where c: "CacheConsent (Some srv) ?d hours24 r = (Inr None, r')"
    using redis_upD(1) [OF assms(15)] by blast
  have "cached view r' (cc_Chain ?d) (cc_ConsentID ?d) = Some (clean_cache ?d)"
    by (rule ix_redis_store.put_found [OF assms(14) c [folded ix_redis_same(2)]])
  with p c show ?thesis
    unfolding event_document_clean [OF assms(2,3)] by (simp add: event_document_def)
qed

text \<open>
  C8: What the indexer caches, the API serves. Let Redis accept and answer every command and keep the
  document until it is read. Then a registration log in the layout the indexer expects, with fewer
  than 2^32 parties and scopes, from one of the five chains, is cached without a panic, and a later request to the API for that id on that
  chain, with the same Redis, is answered 200 from the cache with the parties in lower-case
  hexadecimal, the times and the transaction of the log, not revoked, and the scope names of the
  words, in which the JSON of the cache has replaced every byte that is not valid UTF-8.
\<close>
theorem indexed_event_is_served:
  assumes "lib_bytes (w_lib w)" "lib_hex (w_lib w)" "chain \<in> set canonical_names"
    and "length consentID = 32" "list_all (\<lambda>p. length p = 20) parties" "list_all (\<lambda>b. length b = 32) scopes"
    and "length parties < 2 ^ 32" "length scopes < 2 ^ 32" "f < 2 ^ 64" "u < 2 ^ 64"
    and "sig_registered (w_lib w) v" "lg_Data v = event_data consentID parties scopes f u"
    and "eh_redis eh = Some srv" "h_redis h = Some srv" "redis_ok srv view" "redis_up srv"
    and "rq_Param rq ''id'' = HashHex (w_lib w) consentID" "rq_Param rq ''id'' \<noteq> ''''"
    and "rq_Query rq ''chain'' = chain"
  shows "\<exists>r1 s2. processEventLog (w_lib w) eh chain v (q, as_redis s) = (Inr (), q, r1) \<and>
    GetConsent_handler h w rq (s\<lparr>as_redis := r1\<rparr>) = (Inr (200, ConsentBody
      \<lparr> co_ConsentID = HashHex (w_lib w) consentID,
        co_Parties = map (\<lambda>p. strings_ToLower (unicode_lower (w_lib w)) (AddressHex (w_lib w) p)) parties,
        co_Scopes = map utf8_fix (Bytes32ArrayToStrings scopes), co_ValidFrom = word_of_nat f,
        co_ValidUntil = word_of_nat u, co_Revoked = False, co_Chain = chain,
        co_TxHash = HashHex (w_lib w) (lg_TxHash v), co_CreatedAt = word_of_nat f \<rparr>), s2)"
proof -
  let ?d = "(event_document (w_lib w) chain (lg_TxHash v) consentID parties scopes (word_of_nat f) (word_of_nat u))
    \<lparr>cc_Scopes := map utf8_fix (Bytes32ArrayToStrings scopes)\<rparr>"
  obtain r1 where p: "processEventLog (w_lib w) eh chain v (q, as_redis s) = (Inr (), q, r1)"
    and c: "cached view r1 chain (HashHex (w_lib w) consentID) = Some ?d"
    using event_cached [OF assms(1-13,15,16)] by blast
  have ch: "canon_chain (w_lib w) chain \<noteq> None" "chain \<noteq> ''''"
    using canon_chain_self [OF assms(3)] assms(3) by (auto simp: canonical_names_def)
  have "cached view (as_redis (s\<lparr>as_redis := r1\<rparr>)) chain (rq_Param rq ''id'') = Some ?d"
    using c assms(17) by simp
  then obtain s2 where "GetConsent_handler h w rq (s\<lparr>as_redis := r1\<rparr>) =
      (Inr (200, ConsentBody (toConsentResponse ?d)), s2)"
    using GetConsent_hit [OF assms(14-16) ch(1) assms(18) ch(2) refl assms(19)] by blast
  with p show ?thesis by (auto simp: toConsentResponse_def event_document_def)
qed

theorem indexed_event_is_served_witness:
  "\<exists>r1 s2 d. processEventLog sample_lib sample_events ''sepolia'' sample_log ([], as_redis sample_state) =
      (Inr (), [], r1) \<and>
    GetConsent_handler sample_handler (sample_world [] 1)
      (get_request '''' (HashHex sample_lib (replicate 32 5)) ''sepolia'') (sample_state\<lparr>as_redis := r1\<rparr>) =
      (Inr (200, ConsentBody d), s2) \<and> co_Scopes d = [''photo''] \<and> co_ValidUntil d = 200"
proof -
  let ?ps = "[replicate 20 7] :: address list" and ?ss = "[StringToBytes32 ''photo'']"
  let ?rq = "get_request '''' (HashHex sample_lib (replicate 32 5)) ''sepolia''"
  have sc: "Bytes32ArrayToStrings ?ss = [''photo'']"
    by (simp add: Bytes32ArrayToStrings_def Bytes32ToString_StringToBytes32 trim_right_nul_last)
  have v: "sig_registered sample_lib sample_log" "lg_Data sample_log = event_data (replicate 32 5) ?ps ?ss 100 200"
    by (simp_all add: sig_registered_def sample_log_def)
  have e: "eh_redis sample_events = Some sample_redis" by (simp add: sample_events_def)
  have rq: "rq_Param ?rq ''id'' = HashHex sample_lib (replicate 32 5)" "rq_Query ?rq ''chain'' = ''sepolia''"
    "HashHex sample_lib (replicate 32 5) \<noteq> ''''"
    by (simp_all add: get_request_def sample_lib_def)
  have w: "w_lib (sample_world [] 1) = sample_lib" by (simp add: sample_world_def)
  note served = indexed_event_is_served [of "sample_world [] 1" "''sepolia''" "replicate 32 5" ?ps ?ss 100 200
      sample_log sample_events sample_redis sample_handler "\<lambda>r. r" ?rq "[]" sample_state, unfolded w,
      OF sample_bytes sample_hex _ _ _ _ _ _ _ _ v e _ sample_redis_ok sample_redis_up rq(1) _ rq(2)]
  have "\<exists>r1 s2. processEventLog sample_lib sample_events ''sepolia'' sample_log ([], as_redis sample_state) =
      (Inr (), [], r1) \<and>
    GetConsent_handler sample_handler (sample_world [] 1) ?rq (sample_state\<lparr>as_redis := r1\<rparr>) = (Inr (200, ConsentBody
      \<lparr> co_ConsentID = HashHex sample_lib (replicate 32 5),
        co_Parties = map (\<lambda>p. strings_ToLower (unicode_lower sample_lib) (AddressHex sample_lib p)) ?ps,
        co_Scopes = map utf8_fix (Bytes32ArrayToStrings ?ss), co_ValidFrom = word_of_nat 100,
        co_ValidUntil = word_of_nat 200, co_Revoked = False, co_Chain = ''sepolia'',
        co_TxHash = HashHex sample_lib (lg_TxHash sample_log), co_CreatedAt = word_of_nat 100 \<rparr>), s2)"
    by (rule served) (use rq in \<open>simp_all add: canonical_names_def\<close>)
  then show ?thesis by (auto simp: sc utf8_fix_valid utf8_valid_ascii is_ascii_def)
qed

text \<open>
  C12: What a revocation log does. With both stores connected, a log that carries an id is handled without a panic whatever
  they answer. Then either the cache's deletion reported an error, which is only logged, or the cached
  document of that id on that chain is gone, so that a later lookup of it that reports no error misses;
  and, when the index's update reports no error and its lookup stays below its limit of 100 points,
  every point of the consent is marked revoked.
\<close>
theorem revocation_event_clears:
  assumes "sig_revoked L v" "32 \<le> length (lg_Data v)" "i = HashHex L (BytesToHash L (take 32 (lg_Data v)))"
    and "eh_redis eh = Some srv" "redis_ok srv view"
    and "eh_qdrant eh = Some (qsrv, qcfg)" "qdrant_ok qsrv (ixq_CollectionName qcfg) qview"
  shows "\<exists>q' r'. processEventLog L eh chain v (q, r) = (Inr (), q', r') \<and>
    ((\<exists>e. InvalidateConsent (Some srv) chain i r = (Inr (Some e), r')) \<or>
     cached view r' chain i = None \<and>
     (\<forall>x r''. GetCachedConsent (Some srv) chain i r' = (Inr (Inr x), r'') \<longrightarrow> x = None)) \<and>
    (fst (ix_UpdateConsentRevoked (Some (qsrv, qcfg)) [] i True q) = Inr None \<and>
     (\<forall>c ids q1. qd_Scroll qsrv c (ixq_CollectionName qcfg) [MatchText ''consent_id'' i] 100 q =
        (Inr ids, q1) \<longrightarrow> length ids < 100) \<longrightarrow>
     (\<forall>k pl. qview q k = Some pl \<and> pl ''consent_id'' = Some (StringValue i) \<longrightarrow>
       (\<exists>pl'. qview q' k = Some pl' \<and> pl' ''revoked'' = Some (BoolValue True))))"
proof -
  obtain y r' where d: "InvalidateConsent (Some srv) chain i r = (Inr y, r')"
    using InvalidateConsent_total [of srv chain i r] by (elim exE)
  obtain q' where q': "q' = snd (ix_UpdateConsentRevoked (Some (qsrv, qcfg)) [] i True q)" by blast
  have run: "processEventLog L eh chain v (q, r) = (Inr (), q', r')"
    using processEventLog_revoked [OF assms(1,2,4,6,3)] d q' by simp
  have gone: "(\<exists>e. InvalidateConsent (Some srv) chain i r = (Inr (Some e), r')) \<or>
      cached view r' chain i = None \<and>
      (\<forall>x r''. GetCachedConsent (Some srv) chain i r' = (Inr (Inr x), r'') \<longrightarrow> x = None)"
  proof (cases y)
    case None
    note del = redis_store.del_found [OF assms(5) d [unfolded None]]
    have "x = None" if "GetCachedConsent (Some srv) chain i r' = (Inr (Inr x), r'')" for x r''
      using redis_store.get_found [OF assms(5) that] del by simp
    with del show ?thesis by blast
  next
    case (Some e)
    with d show ?thesis by blast
  qed
  have marks: "\<exists>pl'. qview q' k = Some pl' \<and> pl' ''revoked'' = Some (BoolValue True)"
    if u: "fst (ix_UpdateConsentRevoked (Some (qsrv, qcfg)) [] i True q) = Inr None"
      and few: "\<forall>c ids q1. qd_Scroll qsrv c (ixq_CollectionName qcfg) [MatchText ''consent_id'' i] 100 q =
        (Inr ids, q1) \<longrightarrow> length ids < 100"
      and k: "qview q k = Some pl" "pl ''consent_id'' = Some (StringValue i)" for k pl
  proof -
    have "ix_UpdateConsentRevoked (Some (qsrv, qcfg)) [] i True q = (Inr None, q')"
      using u q' by (simp add: prod_eq_iff)
    then show ?thesis by (rule ix_revoker.marks [OF assms(7) _ _ k]) (use few in blast)
  qed
  show ?thesis
    by (intro exI [of _ q'] exI [of _ r'] conjI [OF run] conjI [OF gone] impI allI) (elim conjE, rule marks)
qed

definition sample_revocation :: eth_log where
  "sample_revocation =
     \<lparr> lg_Topics = [Keccak256 sample_lib (bytes_of_string revoked_signature)], lg_Data = replicate 32 5,
       lg_BlockNumber = 8, lg_TxHash = replicate 32 3 \<rparr>"

theorem revocation_event_clears_witness:
  "\<exists>q' r'. processEventLog sample_lib sample_events ''sepolia'' sample_revocation ([], Map.empty) = (Inr (), q', r') \<and>
     cached (\<lambda>r. r) r' ''sepolia'' (HashHex sample_lib (replicate 32 5)) = None"
proof -
  let ?i = "HashHex sample_lib (replicate 32 5)" and ?qcfg = "ix_Qdrant (ix_Load sample_env)"
  have "Keccak256 sample_lib (bytes_of_string revoked_signature) \<noteq>
      Keccak256 sample_lib (bytes_of_string registered_signature)"
    by (simp add: sample_lib_def sample_hash_def fit_def revoked_signature_def registered_signature_def
        bytes_of_string_def)
  then have s: "sig_revoked sample_lib sample_revocation" by (simp add: sig_revoked_def sample_revocation_def)
  have e: "eh_redis sample_events = Some sample_redis" "eh_qdrant sample_events = Some (sample_qdrant, ?qcfg)"
    by (simp_all add: sample_events_def)
  have i: "?i = HashHex sample_lib (BytesToHash sample_lib (take 32 (lg_Data sample_revocation)))"
    by (simp add: sample_revocation_def sample_lib_def)
  have l: "32 \<le> length (lg_Data sample_revocation)" by (simp add: sample_revocation_def)
  obtain q' r' where r: "processEventLog sample_lib sample_events ''sepolia'' sample_revocation ([], Map.empty) =
      (Inr (), q', r')"
    "(\<exists>e. InvalidateConsent (Some sample_redis) ''sepolia'' ?i Map.empty = (Inr (Some e), r')) \<or>
       cached (\<lambda>r. r) r' ''sepolia'' ?i = None"
    using revocation_event_clears [OF s l i e(1) sample_redis_ok e(2) sample_qdrant_ok, of "''sepolia''" "[]" Map.empty]
    by blast
  then show ?thesis using sample_del by blast
qed

end
